(* ===== verification/Prelude.thy ===== *)
theory Prelude
  imports Main "HOL-Library.Word" "HOL-Library.Signed_Division"
begin

unbundle bit_operations_syntax

text \<open>
  Shared vocabulary of the development: names for the machine types of the Go sources, the
  collections of rewrite rules the component theories extend, arithmetic that Go and HOL do
  differently (truncating signed division), facts on words and lists that several components
  use, and the contract \<open>op_system\<close> of a component whose operations keep an invariant.
\<close>

section \<open>Machine types\<close>

type_synonym u8 = "8 word"
type_synonym u16 = "16 word"
type_synonym u32 = "32 word"
type_synonym u64 = "64 word"
type_synonym i64 = "64 word" \<comment> \<open>an \<^verbatim>\<open>int64\<close>: the same bits, read with \<^const>\<open>sint\<close>\<close>
type_synonym bytes = "8 word list"

abbreviation max_u64 :: u64 where
  "max_u64 \<equiv> - 1"

section \<open>Go's signed division\<close>

text \<open>
  Go's \<open>/\<close> on \<^verbatim>\<open>int64\<close> truncates towards zero and wraps (the one overflowing quotient,
  the least value by \<open>-1\<close>, wraps to itself).
\<close>

definition i64_div :: "i64 \<Rightarrow> i64 \<Rightarrow> i64" where
  "i64_div a b = word_of_int (sint a sdiv sint b)"

lemma sdiv_pos_eq:
  fixes a b :: int
  assumes "0 < b"
  shows "a sdiv b = (if 0 \<le> a then a div b else - ((- a) div b))"
  using assms by (auto simp: signed_divide_int_def sgn_if)

lemma sdiv_mult_self:
  fixes x c :: int
  assumes "0 < c"
  shows "(x * c) sdiv c = x"
proof (cases "0 \<le> x * c")
  case False
  then have "- (x * c) div c = - x"
    using assms by (metis minus_mult_left nonzero_mult_div_cancel_right order_less_irrefl)
  with False assms show ?thesis by (simp add: sdiv_pos_eq)
qed (use assms in \<open>simp add: sdiv_pos_eq\<close>)

lemma sdiv_pos_mono:
  fixes a b c :: int
  assumes "0 < c" and "a \<le> b"
  shows "a sdiv c \<le> b sdiv c"
proof (cases "0 \<le> a")
  case True
  with assms show ?thesis by (simp add: sdiv_pos_eq zdiv_mono1)
next
  case a: False
  show ?thesis
  proof (cases "0 \<le> b")
    case True
    with a assms have "0 \<le> (- a) div c" and "0 \<le> b div c"
      by (simp_all add: pos_imp_zdiv_nonneg_iff)
    with a True assms show ?thesis by (simp add: sdiv_pos_eq)
  next
    case False
    with assms have "(- b) div c \<le> (- a) div c"
      by (intro zdiv_mono1) auto
    with a False assms show ?thesis by (simp add: sdiv_pos_eq)
  qed
qed

lemma sdiv_pos_bound:
  fixes a c :: int
  assumes "1 \<le> c"
  shows "\<bar>a sdiv c\<bar> \<le> \<bar>a\<bar>"
proof -
  have "\<bar>a\<bar> div c \<le> \<bar>a\<bar>"
    using assms by (metis abs_ge_zero div_by_1 zdiv_mono2 zero_less_one)
  moreover have "0 \<le> \<bar>a\<bar> div c"
    using assms by (simp add: pos_imp_zdiv_nonneg_iff)
  ultimately show ?thesis
    using assms by (auto simp: sdiv_pos_eq)
qed

lemma sint_word_of_int_small:
  "- (2 ^ 63) \<le> k \<Longrightarrow> k < 2 ^ 63 \<Longrightarrow> sint (word_of_int k :: i64) = k"
  by (simp add: sint_sbintrunc' signed_take_bit_int_eq_self)

lemma uint_drop_bit: "uint (drop_bit n w) = uint w div 2 ^ n"
  for w :: "'a::len word"
proof -
  have "take_bit LENGTH('a) (uint w) = uint w"
    by (simp add: take_bit_int_eq_self_iff)
  then show ?thesis
    by (simp only: unsigned_drop_bit_eq drop_bit_eq_div [where 'a = int])
qed

lemma uint_word_of_int_small:
  "0 \<le> k \<Longrightarrow> k < 2 ^ 64 \<Longrightarrow> uint (word_of_int k :: u64) = k"
  by (simp add: uint_word_of_int)

lemma uint_ucast_u32_u64: "uint (ucast (d :: u32) :: u64) = uint d"
proof -
  have "uint d < 2 ^ 32" using uint_lt2p [of d] by simp
  then have "take_bit 64 (uint d) = uint d"
    by (intro take_bit_int_eq_self) auto
  then show ?thesis by (simp add: unsigned_ucast_eq)
qed

lemma unat_eq_nat_sint:
  assumes "0 \<le> sint (s :: i64)"
  shows "unat s = nat (sint s)"
proof -
  have b: "sint s < 2 ^ 63" using sint_lt [of s] by simp
  have "uint s = uint (word_of_int (sint s) :: i64)" by simp
  also have "\<dots> = sint s"
    using assms b by (intro uint_word_of_int_small) auto
  finally show ?thesis by (simp add: unat_eq_nat_uint)
qed

section \<open>Operations that keep an invariant\<close>

text \<open>
  A component with state: \<open>exec\<close> runs one operation. Once each operation keeps the
  invariant, every sequence of operations does, in any order.
\<close>

locale op_system =
  fixes exec :: "'op \<Rightarrow> 's \<Rightarrow> 's"
    and inv :: "'s \<Rightarrow> bool"
  assumes exec_inv: "inv s \<Longrightarrow> inv (exec x s)"
begin

lemma run_inv: "inv s \<Longrightarrow> inv (fold exec xs s)"
  by (induction xs arbitrary: s) (auto intro: exec_inv)

end

end
