(* ===== verification/Difficulty.thy ===== *)
theory Difficulty
  imports Prelude
begin

unbundle bit_operations_syntax

text \<open>
  The difficulty adjuster of \<^verbatim>\<open>node/consensus/difficulty/aserti3_2d_difficulty_adjuster.go\<close>:
  the ASERTi3-2d rule on 64-bit machine words, exactly as written (every product may wrap),
  a specification of it over unbounded integers, and the range in which the two agree.
\<close>

section \<open>The adjuster\<close>

record AsertDifficultyAdjuster =
  anchorFrameNumber :: u64
  anchorParentTime :: i64
  anchorDifficulty :: u32

definition IDEAL_FRAME_TIME :: i64 where
  "IDEAL_FRAME_TIME = 10000"

definition HALF_LIFE :: i64 where
  "HALF_LIFE = 7200000"

definition MIN_DIFFICULTY :: u64 where
  "MIN_DIFFICULTY = 50000"

definition NewAsertDifficultyAdjuster :: "u64 \<Rightarrow> i64 \<Rightarrow> u32 \<Rightarrow> AsertDifficultyAdjuster" where
  "NewAsertDifficultyAdjuster frame time diff =
     \<lparr>anchorFrameNumber = frame, anchorParentTime = time, anchorDifficulty = diff\<rparr>"

text \<open>The distance from the schedule as a Q16 number: positive when frames come early.\<close>

definition asert_exponent :: "AsertDifficultyAdjuster \<Rightarrow> u64 \<Rightarrow> i64 \<Rightarrow> i64" where
  "asert_exponent a currentFrameNumber currentTime =
     (let frameNumberDelta = currentFrameNumber - anchorFrameNumber a;
          timeDelta = currentTime - anchorParentTime a
      in i64_div (- ((timeDelta - IDEAL_FRAME_TIME * (frameNumberDelta + 1)) * 65536)) HALF_LIFE)"

text \<open>The cubic approximation of \<open>2 ^ (frac / 65536)\<close> in Q16.\<close>

definition asert_factor :: "u16 \<Rightarrow> u64" where
  "asert_factor frac = 65536 + drop_bit 48
     (195766423245049 * ucast frac + 971821376 * ucast frac * ucast frac +
      5127 * ucast frac * ucast frac * ucast frac + push_bit 47 1)"

text \<open>The final division by \<open>65536\<close> and the mandatory minimum.\<close>

definition asert_finish :: "u64 \<Rightarrow> u64" where
  "asert_finish scaled =
     (let y = drop_bit 16 scaled in if y < MIN_DIFFICULTY then MIN_DIFFICULTY else y)"

definition GetNextDifficulty :: "AsertDifficultyAdjuster \<Rightarrow> u64 \<Rightarrow> i64 \<Rightarrow> u64" where
  "GetNextDifficulty a currentFrameNumber currentTime =
     (if anchorDifficulty a = 0 then MIN_DIFFICULTY
      else let exponent = asert_exponent a currentFrameNumber currentTime;
               shifts = signed_drop_bit 16 exponent;
               frac = ucast (exponent AND 0xFFFF) :: u16;
               scaled = ucast (anchorDifficulty a) * asert_factor frac
           in if sint shifts < 0 then asert_finish (drop_bit (unat (- shifts)) scaled)
              else if 48 < sint shifts \<and> 0 < anchorDifficulty a then max_u64
              else asert_finish (push_bit (unat shifts) scaled))"

section \<open>Specification over the integers\<close>

definition factor_spec :: "int \<Rightarrow> int" where
  "factor_spec f = 65536 +
     (195766423245049 * f + 971821376 * f * f + 5127 * f * f * f + 2 ^ 47) div 2 ^ 48"

definition scale_shift :: "int \<Rightarrow> int \<Rightarrow> int" where
  "scale_shift x s = (if s < 0 then x div 2 ^ nat (- s) else x * 2 ^ nat s)"

definition asert_spec :: "int \<Rightarrow> int \<Rightarrow> int" where
  "asert_spec d e = max 50000 (scale_shift (d * factor_spec (e mod 65536)) (e div 65536) div 65536)"

section \<open>The factor\<close>

lemma poly_bound:
  fixes f :: int
  assumes "0 \<le> f" and "f \<le> 65535"
  shows "195766423245049 * f + 971821376 * f * f + 5127 * f * f * f + 2 ^ 47 < 2 ^ 64"
proof -
  have sq: "f * f \<le> 65535 * 65535"
    using assms by (intro mult_mono) auto
  have "f * f * f \<le> 65535 * 65535 * 65535"
    using assms sq by (intro mult_mono) auto
  then show ?thesis using assms(2) sq by (simp add: algebra_simps)
qed

lemma factor_spec_mono:
  assumes "0 \<le> f" and "f \<le> g"
  shows "factor_spec f \<le> factor_spec g"
proof -
  have sq: "f * f \<le> g * g"
    using assms by (intro mult_mono) auto
  have "f * f * f \<le> g * g * g"
    using assms sq by (intro mult_mono) auto
  then show ?thesis
    unfolding factor_spec_def using assms(2) sq
    by (intro add_left_mono zdiv_mono1) (auto simp: mult.assoc)
qed

lemma factor_spec_range:
  assumes "0 \<le> f" and "f \<le> 65535"
  shows "65536 \<le> factor_spec f" and "factor_spec f \<le> 131072"
proof -
  have "factor_spec 0 \<le> factor_spec f" using assms by (intro factor_spec_mono) auto
  then show "65536 \<le> factor_spec f" by (simp add: factor_spec_def)
  have "factor_spec f \<le> factor_spec 65535" using assms by (intro factor_spec_mono) auto
  then show "factor_spec f \<le> 131072" by (simp add: factor_spec_def)
qed

lemma uint_asert_factor: "uint (asert_factor f) = factor_spec (uint f)"
proof -
  let ?f = "uint f"
  let ?p = "195766423245049 * ?f + 971821376 * ?f * ?f + 5127 * ?f * ?f * ?f + 2 ^ 47"
  have f: "0 \<le> ?f" "?f \<le> 65535"
    using uint_lt2p [of f] by auto
  have p: "0 \<le> ?p" "?p < 2 ^ 64"
    using f poly_bound [OF f] by auto
  have w: "(195766423245049 * ucast f + 971821376 * ucast f * ucast f +
      5127 * ucast f * ucast f * ucast f + push_bit 47 1 :: u64) = word_of_int ?p"
    by (simp add: push_bit_eq_mult)
  have "uint (drop_bit 48 (word_of_int ?p :: u64)) = ?p div 2 ^ 48"
    by (simp only: uint_drop_bit uint_word_of_int_small [OF p])
  moreover have "factor_spec ?f \<le> 131072"
    using f by (intro factor_spec_range)
  ultimately show ?thesis
    unfolding asert_factor_def w
    by (simp add: factor_spec_def uint_word_ariths mod_pos_pos_trivial p pos_imp_zdiv_nonneg_iff)
qed

section \<open>Scaling by a power of two\<close>

lemma scale_shift_mono:
  assumes "x \<le> y"
  shows "scale_shift x s \<le> scale_shift y s"
  using assms by (auto simp: scale_shift_def intro: zdiv_mono1 mult_right_mono)

lemma scale_shift_double: "scale_shift (2 * x) s = scale_shift x (s + 1)"
proof (cases "s < 0")
  case True
  then have n: "nat (- s) = Suc (nat (- (s + 1)))" by simp
  show ?thesis
  proof (cases "s + 1 < 0")
    case True
    have "2 * x div 2 ^ nat (- s) = x div 2 ^ nat (- (s + 1))"
      unfolding n by simp
    with True \<open>s < 0\<close> show ?thesis by (simp add: scale_shift_def)
  next
    case False
    with \<open>s < 0\<close> have "s = - 1" by simp
    then show ?thesis by (simp add: scale_shift_def)
  qed
next
  case False
  then have "nat (s + 1) = Suc (nat s)" by simp
  with False show ?thesis by (simp add: scale_shift_def)
qed

lemma scale_shift_mono_shift:
  assumes "0 \<le> x" and "s \<le> t"
  shows "scale_shift x s \<le> scale_shift x t"
proof -
  have "scale_shift x s \<le> scale_shift x (s + int n)" for n
  proof (induction n)
    case (Suc n)
    have "scale_shift x (s + int n) \<le> scale_shift (2 * x) (s + int n)"
      using assms(1) by (intro scale_shift_mono) simp
    with Suc have "scale_shift x s \<le> scale_shift x (s + int n + 1)"
      by (simp add: scale_shift_double)
    then show ?case by (simp add: algebra_simps)
  qed simp
  from this [of "nat (t - s)"] assms(2) show ?thesis by simp
qed

lemma scale_shift_mult_div: "scale_shift (x * 65536) s div 65536 = scale_shift x s"
proof (cases "s < 0")
  case True
  have "x * 65536 div 2 ^ nat (- s) div 65536 = x * 65536 div 65536 div 2 ^ nat (- s)"
    by (simp only: zdiv_zmult2_eq [symmetric] mult.commute) (simp add: div_mult2_eq mult.commute)
  with True show ?thesis by (simp add: scale_shift_def)
next
  case False
  then show ?thesis by (simp add: scale_shift_def mult.assoc mult.left_commute)
qed

lemma asert_spec_mono:
  assumes "0 \<le> d" and "e \<le> e'"
  shows "asert_spec d e \<le> asert_spec d e'"
proof -
  let ?f = "factor_spec (e mod 65536)" and ?f' = "factor_spec (e' mod 65536)"
  have r: "0 \<le> k mod 65536" "k mod 65536 \<le> 65535" for k :: int
    using pos_mod_bound [of 65536 k] by simp_all
  have "scale_shift (d * ?f) (e div 65536) \<le> scale_shift (d * ?f') (e' div 65536)"
  proof (cases "e div 65536 = e' div 65536")
    case True
    then have "e mod 65536 \<le> e' mod 65536"
      using assms(2) by (metis add_le_cancel_left mult_div_mod_eq)
    then have "d * ?f \<le> d * ?f'"
      using assms(1) r by (intro mult_left_mono factor_spec_mono)
    with True show ?thesis by (simp add: scale_shift_mono)
  next
    case False
    with assms(2) have less: "e div 65536 + 1 \<le> e' div 65536"
      by (simp add: order_less_le zdiv_mono1 add1_zle_eq)
    have "?f \<le> 2 * 65536" using factor_spec_range(2) r by fastforce
    then have "d * ?f \<le> 2 * (d * 65536)"
      using mult_left_mono [OF _ assms(1)] by fastforce
    then have "scale_shift (d * ?f) (e div 65536) \<le> scale_shift (d * 65536) (e div 65536 + 1)"
      by (metis scale_shift_double scale_shift_mono)
    also have "\<dots> \<le> scale_shift (d * 65536) (e' div 65536)"
      using assms(1) less by (intro scale_shift_mono_shift) simp_all
    also have "\<dots> \<le> scale_shift (d * ?f') (e' div 65536)"
      using assms(1) r by (intro scale_shift_mono mult_left_mono factor_spec_range(1))
    finally show ?thesis .
  qed
  then show ?thesis
    unfolding asert_spec_def by (intro max.mono zdiv_mono1) auto
qed

section \<open>The code refines the specification\<close>

lemma uint_frac:
  "uint (ucast (x AND 0xFFFF) :: u16) = sint (x :: i64) mod 65536"
proof -
  have "x AND 0xFFFF = take_bit 16 x"
    by (simp add: take_bit_eq_mask mask_numeral)
  then have "uint (ucast (x AND 0xFFFF) :: u16) = take_bit 16 (uint x)"
    by (simp add: unsigned_ucast_eq unsigned_take_bit_eq)
  also have "\<dots> = take_bit 16 (sint x)"
    by (simp add: sint_uint take_bit_signed_take_bit)
  finally show ?thesis by (simp add: take_bit_eq_mod)
qed

lemma sint_shifts: "sint (signed_drop_bit 16 (x :: i64)) = sint x div 65536"
  by (simp add: sint_signed_drop_bit_eq drop_bit_eq_div)

lemma unat_neg_shift:
  assumes "sint (s :: i64) < 0"
  shows "unat (- s) = nat (- sint s)"
proof -
  have b: "- (2 ^ 63) \<le> sint s"
    using sint_greater_eq [of s] by simp
  have "- s = word_of_int (- sint s)" by simp
  then have "uint (- s) = uint (word_of_int (- sint s) :: i64)" by (rule arg_cong)
  also have "\<dots> = - sint s"
    using b assms by (intro uint_word_of_int_small) auto
  finally show ?thesis by (simp add: unat_eq_nat_uint)
qed

lemma uint_scaled:
  "uint (ucast (d :: u32) * asert_factor f :: u64) = uint d * factor_spec (uint f)"
  "uint d * factor_spec (uint f) < 2 ^ 49"
proof -
  have "0 \<le> uint f" "uint f \<le> 65535" using uint_lt2p [of f] by auto
  note r = factor_spec_range [OF this]
  have d: "uint d \<le> 2 ^ 32 - 1" "0 \<le> uint d"
    using uint_lt2p [of d] by auto
  have "uint d * factor_spec (uint f) \<le> (2 ^ 32 - 1) * 131072"
    using r d by (intro mult_mono) auto
  then show lt: "uint d * factor_spec (uint f) < 2 ^ 49" by simp
  have "uint (ucast d * asert_factor f :: u64) = (uint d * factor_spec (uint f)) mod 2 ^ 64"
    by (simp add: uint_word_ariths uint_asert_factor uint_ucast_u32_u64)
  with lt r d show "uint (ucast d * asert_factor f :: u64) = uint d * factor_spec (uint f)"
    by simp
qed

lemma uint_push_bit_small:
  assumes "uint x * 2 ^ n < 2 ^ 64"
  shows "uint (push_bit n (x :: u64)) = uint x * 2 ^ n"
proof -
  have "push_bit n x = word_of_int (uint x * 2 ^ n)"
    by (simp add: push_bit_eq_mult)
  then have "uint (push_bit n x) = uint (word_of_int (uint x * 2 ^ n) :: u64)"
    by (rule arg_cong)
  also have "\<dots> = uint x * 2 ^ n"
    using assms by (intro uint_word_of_int_small) simp_all
  finally show ?thesis .
qed

lemma uint_asert_finish: "uint (asert_finish x) = max 50000 (uint x div 65536)"
  by (simp add: asert_finish_def Let_def MIN_DIFFICULTY_def word_less_def uint_drop_bit max_def)

lemma GetNextDifficulty_spec:
  assumes d: "anchorDifficulty a \<noteq> 0"
    and e: "sint (asert_exponent a n t) < 16 * 65536"
  shows "uint (GetNextDifficulty a n t)
    = asert_spec (uint (anchorDifficulty a)) (sint (asert_exponent a n t))"
proof -
  let ?x = "asert_exponent a n t"
  let ?s = "signed_drop_bit 16 ?x"
  let ?f = "ucast (?x AND 0xFFFF) :: u16"
  let ?d = "uint (anchorDifficulty a)"
  let ?m = "ucast (anchorDifficulty a) * asert_factor ?f :: u64"
  have m: "uint ?m = ?d * factor_spec (sint ?x mod 65536)"
    by (simp only: uint_scaled(1) uint_frac)
  have lt: "uint ?m < 2 ^ 49"
    using uint_scaled [of "anchorDifficulty a" ?f] by simp
  have s: "sint ?s = sint ?x div 65536" by (rule sint_shifts)
  show ?thesis
  proof (cases "sint ?s < 0")
    case True
    have "uint (drop_bit (unat (- ?s)) ?m) = scale_shift (uint ?m) (sint ?s)"
      using True by (simp only: uint_drop_bit unat_neg_shift scale_shift_def if_True)
    then have "uint (asert_finish (drop_bit (unat (- ?s)) ?m)) = asert_spec ?d (sint ?x)"
      by (simp only: uint_asert_finish m s asert_spec_def)
    with True d show ?thesis by (simp add: GetNextDifficulty_def Let_def)
  next
    case False
    with e s have sh: "0 \<le> sint ?s" "sint ?s \<le> 15" by auto
    then have n: "unat ?s = nat (sint ?s)" by (intro unat_eq_nat_sint)
    have "(2 :: int) ^ nat (sint ?s) \<le> 2 ^ 15"
      using sh by (intro power_increasing) auto
    then have "uint ?m * 2 ^ nat (sint ?s) < 2 ^ 49 * 2 ^ 15"
      using lt by (intro mult_less_le_imp_less) auto
    then have "uint (push_bit (unat ?s) ?m) = scale_shift (uint ?m) (sint ?s)"
      using sh by (simp add: uint_push_bit_small n scale_shift_def)
    then have "uint (asert_finish (push_bit (unat ?s) ?m)) = asert_spec ?d (sint ?x)"
      by (simp only: uint_asert_finish m s asert_spec_def)
    with False d sh show ?thesis by (simp add: GetNextDifficulty_def Let_def)
  qed
qed

section \<open>Distance from the schedule\<close>

text \<open>
  The milliseconds by which \<open>currentTime\<close> is later than the schedule for the frame: frame
  \<open>n\<close> is due \<open>10000\<close> ms after the previous one, counted from the anchor's parent.
\<close>

definition drift :: "AsertDifficultyAdjuster \<Rightarrow> u64 \<Rightarrow> i64 \<Rightarrow> int" where
  "drift a n t = sint t - sint (anchorParentTime a)
     - 10000 * (uint n - uint (anchorFrameNumber a) + 1)"

lemma sint_asert_exponent:
  assumes "\<bar>drift a n t\<bar> < 2 ^ 47"
  shows "sint (asert_exponent a n t) = - (drift a n t * 65536) sdiv 7200000"
proof -
  let ?k = "- (drift a n t * 65536)"
  have b: "\<bar>?k\<bar> < 2 ^ 63" using assms by simp
  have "t - anchorParentTime a - IDEAL_FRAME_TIME * (n - anchorFrameNumber a + 1)
      = word_of_int (drift a n t)"
    by (simp add: drift_def IDEAL_FRAME_TIME_def)
  then have w: "- ((t - anchorParentTime a
      - IDEAL_FRAME_TIME * (n - anchorFrameNumber a + 1)) * 65536) = word_of_int ?k"
    by simp
  have k: "sint (word_of_int ?k :: i64) = ?k"
    using b by (intro sint_word_of_int_small) auto
  have h: "sint HALF_LIFE = 7200000" by (simp add: HALF_LIFE_def)
  have "asert_exponent a n t = word_of_int (?k sdiv 7200000)"
    by (simp only: asert_exponent_def Let_def w i64_div_def k h)
  then have "sint (asert_exponent a n t) = sint (word_of_int (?k sdiv 7200000) :: i64)"
    by (rule arg_cong)
  also have "\<dots> = ?k sdiv 7200000"
    using b sdiv_pos_bound [of 7200000 ?k] by (intro sint_word_of_int_small) linarith+
  finally show ?thesis .
qed

lemma exponent_in_range:
  assumes "- 115200000 < drift a n t" and "drift a n t < 2 ^ 47"
  shows "sint (asert_exponent a n t) < 16 * 65536"
proof -
  have "sint (asert_exponent a n t) = - (drift a n t * 65536) sdiv 7200000"
    using assms by (intro sint_asert_exponent) auto
  also have "\<dots> \<le> (115199999 * 65536) sdiv 7200000"
    using assms by (intro sdiv_pos_mono) auto
  also have "\<dots> < 16 * 65536" by (simp add: sdiv_pos_eq)
  finally show ?thesis .
qed

section \<open>Properties\<close>

lemma asert_finish_ge: "MIN_DIFFICULTY \<le> asert_finish x"
  by (simp add: asert_finish_def Let_def not_less)

text \<open>Claim C34. Up to 16 half-lives ahead of the schedule and however late (below \<open>2 ^ 47\<close> ms), the
  64-bit code computes the integer rule: no product, shift or quotient of it wraps.\<close>

theorem difficulty_refines_integer_rule:
  assumes "anchorDifficulty a \<noteq> 0"
    and "- 115200000 < drift a n t" and "drift a n t < 2 ^ 47"
  shows "uint (GetNextDifficulty a n t)
    = asert_spec (uint (anchorDifficulty a)) (- (drift a n t * 65536) sdiv 7200000)"
proof -
  have "sint (asert_exponent a n t) = - (drift a n t * 65536) sdiv 7200000"
    using assms by (intro sint_asert_exponent) auto
  with GetNextDifficulty_spec [OF assms(1) exponent_in_range [OF assms(2,3)]]
  show ?thesis by simp
qed

theorem difficulty_refines_integer_rule_witness:
  "uint (GetNextDifficulty (NewAsertDifficultyAdjuster 0 0 80000) 0 3610000)
    = asert_spec 80000 (- (3600000 * 65536) sdiv 7200000)"
  using difficulty_refines_integer_rule [of "NewAsertDifficultyAdjuster 0 0 80000" 0 3610000]
  by (simp add: NewAsertDifficultyAdjuster_def drift_def)



text \<open>Each whole half-life (two hours) of lateness halves the anchor difficulty and each of
  the first 15 of earliness doubles it, down to the minimum of 50000; on schedule the anchor is
  kept.\<close>

theorem difficulty_half_life:
  assumes "anchorDifficulty a \<noteq> 0"
    and "drift a n t = 7200000 * k" and "- 16 < k" and "k < 10000000"
  shows "uint (GetNextDifficulty a n t)
    = max 50000 (scale_shift (uint (anchorDifficulty a)) (- k))"
proof -
  have "sint (asert_exponent a n t) = - (drift a n t * 65536) sdiv 7200000"
    using assms by (intro sint_asert_exponent) auto
  also have "\<dots> = - k * 65536"
    using sdiv_mult_self [of 7200000 "- k * 65536"] by (simp add: assms(2) algebra_simps)
  finally have e: "sint (asert_exponent a n t) = - k * 65536" .
  with assms have "uint (GetNextDifficulty a n t) = asert_spec (uint (anchorDifficulty a)) (- k * 65536)"
    by (simp add: GetNextDifficulty_spec)
  also have "\<dots> = max 50000 (scale_shift (uint (anchorDifficulty a) * 65536) (- k) div 65536)"
  proof -
    have "- k * 65536 div 65536 = - k" by (rule nonzero_mult_div_cancel_right) simp
    moreover have "- k * 65536 mod 65536 = 0" by (rule mod_mult_self2_is_0)
    ultimately show ?thesis by (simp only: asert_spec_def) (simp add: factor_spec_def)
  qed
  also have "scale_shift (uint (anchorDifficulty a) * 65536) (- k) div 65536
      = scale_shift (uint (anchorDifficulty a)) (- k)"
    by (simp add: scale_shift_mult_div)
  finally show ?thesis .
qed

theorem difficulty_half_life_witness:
  "uint (GetNextDifficulty (NewAsertDifficultyAdjuster 0 0 800000) 0 7210000) = 400000"
  using difficulty_half_life [of "NewAsertDifficultyAdjuster 0 0 800000" 0 7210000 1]
  by (simp add: NewAsertDifficultyAdjuster_def drift_def scale_shift_def)

text \<open>The guard against overflow is too weak: it lets shifts up to 48 through although the
  scaled value is already 32 bits wide for a 16-bit anchor, so 32 half-lives ahead of the
  schedule the product wraps to zero and the difficulty falls from \<open>2 ^ 47\<close> to the minimum.\<close>

theorem difficulty_wraps_when_far_ahead:
  "let a = NewAsertDifficultyAdjuster 0 0 65536
   in GetNextDifficulty a 23039 7200000 = 2 ^ 47 \<and> GetNextDifficulty a 23039 0 = MIN_DIFFICULTY"
  by code_simp

end
