(* ===== verification/Fee_Manager.thy ===== *)
theory Fee_Manager
  imports Prelude
begin

text \<open>
  The dynamic fee market of \<^verbatim>\<open>node/consensus/fees/dynamic_fee_manager.go\<close>: per shard filter a
  sliding window of fee multiplier votes with a running sum. Metrics and logging are left
  out; \<^verbatim>\<open>time.Now()\<close> is the argument \<open>now\<close>, in nanoseconds. The mutex makes every method
  atomic, so a method is a function on the manager's state.
\<close>

section \<open>State\<close>

definition maxWindowSize :: nat where
  "maxWindowSize = 360"

definition defaultFeeMultiplier :: u64 where
  "defaultFeeMultiplier = 100"

record feeVote =
  frameNumber :: u64
  feeMultiplierVote :: u64

record filterFeeData =
  votes :: "feeVote list" \<comment> \<open>newest at the end\<close>
  sumVotes :: u64
  lastUpdated :: int

text \<open>The map from filters: \<^verbatim>\<open>hex.EncodeToString\<close> names a filter in the Go map.\<close>

definition hex_digit :: "nat \<Rightarrow> char" where
  "hex_digit n = ''0123456789abcdef'' ! n"

definition EncodeToString :: "bytes \<Rightarrow> string" where
  "EncodeToString bs = concat (map (\<lambda>b. [hex_digit (unat b div 16), hex_digit (unat b mod 16)]) bs)"

record DynamicFeeManager =
  filterData :: "string \<rightharpoonup> filterFeeData"

definition NewDynamicFeeManager :: DynamicFeeManager where
  "NewDynamicFeeManager = \<lparr>filterData = Map.empty\<rparr>"

datatype fee_error = FrameNotNewer u64 u64

section \<open>Operations\<close>

definition AddFrameFeeVote ::
  "int \<Rightarrow> bytes \<Rightarrow> u64 \<Rightarrow> u64 \<Rightarrow> DynamicFeeManager \<Rightarrow> (fee_error + unit) \<times> DynamicFeeManager" where
  "AddFrameFeeVote now flt frame vote d =
     (let key = EncodeToString flt;
          data = (case filterData d key of
              None \<Rightarrow> \<lparr>votes = [], sumVotes = 0, lastUpdated = now\<rparr> | Some x \<Rightarrow> x);
          d = d\<lparr>filterData := (filterData d)(key \<mapsto> data)\<rparr>
      in if votes data \<noteq> [] \<and> frame \<le> frameNumber (last (votes data))
         then (Inl (FrameNotNewer frame (frameNumber (last (votes data)))), d)
         else let vs = votes data @ [\<lparr>frameNumber = frame, feeMultiplierVote = vote\<rparr>];
                  total = sumVotes data + vote;
                  (vs, total) = (if maxWindowSize < length vs
                                 then (tl vs, total - feeMultiplierVote (hd vs)) else (vs, total));
                  data = data\<lparr>votes := vs, sumVotes := total, lastUpdated := now\<rparr>
              in (Inr (), d\<lparr>filterData := (filterData d)(key \<mapsto> data)\<rparr>))"

definition GetNextFeeMultiplier :: "bytes \<Rightarrow> DynamicFeeManager \<Rightarrow> u64" where
  "GetNextFeeMultiplier flt d =
     (case filterData d (EncodeToString flt) of
        None \<Rightarrow> defaultFeeMultiplier
      | Some data \<Rightarrow> if votes data = [] then defaultFeeMultiplier
                     else sumVotes data div of_nat (length (votes data)))"

definition GetVoteHistory :: "bytes \<Rightarrow> DynamicFeeManager \<Rightarrow> u64 list" where
  "GetVoteHistory flt d =
     (case filterData d (EncodeToString flt) of
        None \<Rightarrow> [] | Some data \<Rightarrow> map feeMultiplierVote (votes data))"

definition GetAverageWindowSize :: "bytes \<Rightarrow> DynamicFeeManager \<Rightarrow> nat" where
  "GetAverageWindowSize flt d =
     (case filterData d (EncodeToString flt) of None \<Rightarrow> 0 | Some data \<Rightarrow> length (votes data))"

definition PruneOldData :: "int \<Rightarrow> u64 \<Rightarrow> DynamicFeeManager \<Rightarrow> DynamicFeeManager" where
  "PruneOldData now maxAge d =
     (let cutoffTime = now + sint ((- maxAge) * 1000000 :: i64)
      in d\<lparr>filterData := (\<lambda>key. case filterData d key of
             None \<Rightarrow> None
           | Some data \<Rightarrow> if lastUpdated data < cutoffTime then None else Some data)\<rparr>)"

text \<open>
  The search loop of \<^verbatim>\<open>RewindToFrame\<close>: the index of the first vote newer than the frame, and
  0 when the loop runs out.
\<close>

fun keep_index :: "u64 \<Rightarrow> nat \<Rightarrow> feeVote list \<Rightarrow> nat" where
  "keep_index frame i [] = 0"
| "keep_index frame i (v # vs) = (if frame < frameNumber v then i else keep_index frame (Suc i) vs)"

definition RewindToFrame :: "bytes \<Rightarrow> u64 \<Rightarrow> DynamicFeeManager \<Rightarrow> nat \<times> DynamicFeeManager" where
  "RewindToFrame flt frame d =
     (let key = EncodeToString flt
      in case filterData d key of
        None \<Rightarrow> (0, d)
      | Some data \<Rightarrow>
          if votes data = [] then (0, d)
          else let i = keep_index frame 0 (votes data);
                   keepIndex = (if i = 0 \<and> 0 < length (votes data) \<and>
                                   frameNumber (last (votes data)) \<le> frame
                                then length (votes data) else i)
               in if keepIndex = length (votes data) then (0, d)
                  else (length (votes data) - keepIndex,
                        d\<lparr>filterData := (filterData d)(key \<mapsto>
                          data\<lparr>votes := take keepIndex (votes data),
                               sumVotes := fold (\<lambda>v total. total - feeMultiplierVote v)
                                 (drop keepIndex (votes data)) (sumVotes data)\<rparr>)\<rparr>))"

section \<open>Invariant\<close>

definition frames_increase :: "feeVote list \<Rightarrow> bool" where
  "frames_increase vs \<longleftrightarrow> sorted_wrt (<) (map frameNumber vs)"

definition fee_data_inv :: "filterFeeData \<Rightarrow> bool" where
  "fee_data_inv data \<longleftrightarrow> frames_increase (votes data) \<and> length (votes data) \<le> maxWindowSize \<and>
     sumVotes data = sum_list (map feeMultiplierVote (votes data))"

definition fee_inv :: "DynamicFeeManager \<Rightarrow> bool" where
  "fee_inv d \<longleftrightarrow> (\<forall>key data. filterData d key = Some data \<longrightarrow> fee_data_inv data)"

lemma fee_invD: "fee_inv d \<Longrightarrow> filterData d key = Some data \<Longrightarrow> fee_data_inv data"
  by (simp add: fee_inv_def)

lemma fee_inv_new: "fee_inv NewDynamicFeeManager"
  by (simp add: fee_inv_def NewDynamicFeeManager_def)

lemma fee_inv_upd:
  "fee_inv d \<Longrightarrow> fee_data_inv data \<Longrightarrow> fee_inv (d\<lparr>filterData := (filterData d)(key \<mapsto> data)\<rparr>)"
  by (simp add: fee_inv_def)

lemma frames_increase_snoc:
  "frames_increase (vs @ [v]) \<longleftrightarrow>
     frames_increase vs \<and> (vs \<noteq> [] \<longrightarrow> frameNumber (last vs) < frameNumber v)"
proof -
  have "(\<forall>x \<in> set vs. frameNumber x < frameNumber v) \<longleftrightarrow>
      (vs \<noteq> [] \<longrightarrow> frameNumber (last vs) < frameNumber v)" if "frames_increase vs"
    using that
    by (induction vs) (auto simp: frames_increase_def intro: less_trans)
  then show ?thesis
    by (auto simp: frames_increase_def sorted_wrt_append)
qed

lemma frames_increase_tl: "frames_increase vs \<Longrightarrow> frames_increase (tl vs)"
  by (cases vs) (auto simp: frames_increase_def)

lemma frames_increase_take: "frames_increase vs \<Longrightarrow> frames_increase (take n vs)"
  by (simp add: frames_increase_def sorted_wrt_take take_map [symmetric])

lemma sum_list_tl:
  "vs \<noteq> [] \<Longrightarrow> sum_list (map f (tl vs)) = sum_list (map f vs) - (f (hd vs) :: u64)"
  by (cases vs) auto

lemma fold_minus: "fold (\<lambda>v total. total - f v) vs t = t - (sum_list (map f vs) :: u64)"
  by (induction vs arbitrary: t) (auto simp: algebra_simps)

lemma AddFrameFeeVote_inv:
  assumes "fee_inv d"
  shows "fee_inv (snd (AddFrameFeeVote now flt frame vote d))"
proof -
  let ?key = "EncodeToString flt"
  define data where "data = (case filterData d ?key of
      None \<Rightarrow> \<lparr>votes = [], sumVotes = 0, lastUpdated = now\<rparr> | Some x \<Rightarrow> x)"
  have data: "fee_data_inv data"
    using fee_invD [OF assms, of ?key]
    by (auto simp: data_def fee_data_inv_def frames_increase_def maxWindowSize_def split: option.split)
  let ?vs = "votes data @ [\<lparr>frameNumber = frame, feeMultiplierVote = vote\<rparr>]"
  have "frames_increase ?vs" if "\<not> (votes data \<noteq> [] \<and> frame \<le> frameNumber (last (votes data)))"
    using data that by (auto simp: fee_data_inv_def frames_increase_snoc not_le)
  then show ?thesis
    unfolding AddFrameFeeVote_def Let_def data_def [symmetric]
    using data assms
    by (auto simp: fee_data_inv_def sum_list_tl split: prod.split
        intro!: fee_inv_upd frames_increase_tl)
qed

lemma PruneOldData_inv: "fee_inv d \<Longrightarrow> fee_inv (PruneOldData now maxAge d)"
  by (auto simp: fee_inv_def PruneOldData_def Let_def split: option.splits if_splits)

section \<open>Rewinding\<close>

lemma keep_index_eq:
  "keep_index frame i vs =
     (if \<forall>v \<in> set vs. frameNumber v \<le> frame then 0
      else i + length (takeWhile (\<lambda>v. frameNumber v \<le> frame) vs))"
  by (induction vs arbitrary: i) (auto simp: not_le [symmetric])

lemma takeWhile_eq_filter:
  "frames_increase vs \<Longrightarrow>
    takeWhile (\<lambda>v. frameNumber v \<le> frame) vs = filter (\<lambda>v. frameNumber v \<le> frame) vs"
proof (induction vs)
  case (Cons v vs)
  then have "frames_increase vs" and gt: "\<forall>w \<in> set vs. frameNumber v < frameNumber w"
    by (auto simp: frames_increase_def)
  have "filter (\<lambda>v. frameNumber v \<le> frame) vs = []" if "\<not> frameNumber v \<le> frame"
    using gt that by (auto simp: filter_empty_conv not_le intro: less_trans)
  with Cons.IH [OF \<open>frames_increase vs\<close>] show ?case by simp
qed simp

lemma take_filter:
  assumes "frames_increase vs"
  shows "take (length (filter (\<lambda>v. frameNumber v \<le> frame) vs)) vs = filter (\<lambda>v. frameNumber v \<le> frame) vs"
  using takeWhile_eq_take [of "\<lambda>v. frameNumber v \<le> frame" vs] takeWhile_eq_filter [OF assms]
  by simp

lemma filter_last_all:
  assumes "frames_increase vs" and "vs \<noteq> []"
  shows "(\<forall>v \<in> set vs. frameNumber v \<le> frame) \<longleftrightarrow> frameNumber (last vs) \<le> frame"
proof -
  have "frameNumber v \<le> frameNumber (last vs)" if "v \<in> set vs" for v
    using assms that
    by (induction vs) (auto simp: frames_increase_def intro: less_imp_le)
  with assms(2) show ?thesis by (auto intro: order_trans)
qed

lemma RewindToFrame_eq:
  fixes frame :: u64
  assumes inv: "fee_inv d" and data: "filterData d (EncodeToString flt) = Some data"
  defines "kept \<equiv> filter (\<lambda>v. frameNumber v \<le> frame) (votes data)"
  shows "\<exists>data'. RewindToFrame flt frame d =
      (length (votes data) - length kept,
       d\<lparr>filterData := (filterData d)(EncodeToString flt \<mapsto> data')\<rparr>) \<and>
      votes data' = kept \<and> fee_data_inv data' \<and> lastUpdated data' = lastUpdated data"
proof -
  let ?vs = "votes data"
  have di: "fee_data_inv data" using inv data by (rule fee_invD)
  then have up: "frames_increase ?vs" and sum: "sumVotes data = sum_list (map feeMultiplierVote ?vs)"
    by (auto simp: fee_data_inv_def)
  have same: "d\<lparr>filterData := (filterData d)(EncodeToString flt \<mapsto> data)\<rparr> = d"
    using data by (cases d) (auto simp: fun_upd_idem)
  show ?thesis
  proof (cases "\<forall>v \<in> set ?vs. frameNumber v \<le> frame")
    case True
    then have "kept = ?vs" by (auto simp: kept_def)
    moreover from this True have "RewindToFrame flt frame d = (0, d)"
      using data up
      by (auto simp: RewindToFrame_def Let_def keep_index_eq filter_last_all)
    ultimately show ?thesis using same di by (intro exI [of _ data]) simp
  next
    case False
    then have ne: "?vs \<noteq> []" by auto
    with False filter_last_all [OF up, of frame] have later: "\<not> frameNumber (last ?vs) \<le> frame"
      by simp
    have k: "keep_index frame 0 ?vs = length kept"
      using False takeWhile_eq_filter [OF up] by (auto simp: keep_index_eq kept_def)
    have "length kept < length ?vs"
      using False by (auto simp: kept_def intro: length_filter_less)
    moreover have "take (length kept) ?vs = kept"
      unfolding kept_def by (rule take_filter [OF up])
    moreover have "sum_list (map feeMultiplierVote ?vs)
        = sum_list (map feeMultiplierVote (take (length kept) ?vs))
          + sum_list (map feeMultiplierVote (drop (length kept) ?vs))"
      by (metis append_take_drop_id map_append sum_list_append)
    moreover have "frames_increase kept"
      using frames_increase_take [OF up, of "length kept"] calculation(2) by simp
    ultimately show ?thesis
      using ne later data sum di
      by (intro exI [of _ "data\<lparr>votes := kept, sumVotes := sum_list (map feeMultiplierVote kept)\<rparr>"])
        (auto simp: RewindToFrame_def Let_def k fold_minus fee_data_inv_def)
  qed
qed

lemma RewindToFrame_inv:
  assumes "fee_inv d"
  shows "fee_inv (snd (RewindToFrame flt frame d))"
proof (cases "filterData d (EncodeToString flt)")
  case None
  with assms show ?thesis by (simp add: RewindToFrame_def Let_def)
next
  case (Some data)
  from RewindToFrame_eq [OF assms Some, of frame] assms show ?thesis
    by (auto intro: fee_inv_upd)
qed

section \<open>Any sequence of operations\<close>

datatype fee_op = Add int bytes u64 u64 | Prune int u64 | Rewind bytes u64

fun exec_fee :: "fee_op \<Rightarrow> DynamicFeeManager \<Rightarrow> DynamicFeeManager" where
  "exec_fee (Add now flt frame vote) d = snd (AddFrameFeeVote now flt frame vote d)"
| "exec_fee (Prune now maxAge) d = PruneOldData now maxAge d"
| "exec_fee (Rewind flt frame) d = snd (RewindToFrame flt frame d)"

interpretation fees: op_system exec_fee fee_inv
proof
  fix d x
  assume "fee_inv d"
  then show "fee_inv (exec_fee x d)"
    by (cases x) (auto intro: AddFrameFeeVote_inv PruneOldData_inv RewindToFrame_inv)
qed

section \<open>The average\<close>

lemma unat_sum_list:
  "sum_list (map unat ws) < 2 ^ 64 \<Longrightarrow> unat (sum_list ws) = sum_list (map unat (ws :: u64 list))"
proof (induction ws)
  case (Cons w ws)
  then show ?case by (simp add: unat_word_ariths)
qed simp

lemma sum_list_between:
  fixes xs :: "nat list"
  assumes "\<forall>x \<in> set xs. a \<le> x \<and> x \<le> b"
  shows "a * length xs \<le> sum_list xs \<and> sum_list xs \<le> b * length xs"
  using assms by (induction xs) auto

section \<open>Properties\<close>

text \<open>Claim C28. From the empty manager, every interleaving of added votes, prunings and rewinds keeps,
  for every filter, strictly increasing frame numbers, at most 360 votes, and a running sum
  equal to the sum of the window (in \<^verbatim>\<open>uint64\<close> arithmetic).\<close>

theorem fee_windows_consistent:
  "\<forall>key data. filterData (fold exec_fee ops NewDynamicFeeManager) key = Some data \<longrightarrow>
     frames_increase (votes data) \<and> length (votes data) \<le> maxWindowSize \<and>
     sumVotes data = sum_list (map feeMultiplierVote (votes data))"
  using fees.run_inv [OF fee_inv_new, of ops] by (auto simp: fee_inv_def fee_data_inv_def)

theorem fee_windows_consistent_witness:
  "filterData (fold exec_fee [Add 7 [1] 5 10] NewDynamicFeeManager) ''01'' = Some
     \<lparr>votes = [\<lparr>frameNumber = 5, feeMultiplierVote = 10\<rparr>], sumVotes = 10, lastUpdated = 7\<rparr> \<and>
   frames_increase [\<lparr>frameNumber = 5, feeMultiplierVote = 10\<rparr>]"
proof -
  have s: "filterData (fold exec_fee [Add 7 [1] 5 10] NewDynamicFeeManager) ''01'' = Some
     \<lparr>votes = [\<lparr>frameNumber = 5, feeMultiplierVote = 10\<rparr>], sumVotes = 10, lastUpdated = 7\<rparr>"
    by (simp add: AddFrameFeeVote_def NewDynamicFeeManager_def EncodeToString_def hex_digit_def
        maxWindowSize_def)
  with fee_windows_consistent [of "[Add 7 [1] 5 10]"] show ?thesis by fastforce
qed

text \<open>A vote is rejected exactly when the filter already has one for that frame or a later
  one, and then nothing but the (possibly new, empty) entry changes; otherwise the window is
  the last 360 votes with the new one at the end, and the other filters are untouched.\<close>

theorem AddFrameFeeVote_spec:
  fixes flt :: bytes and frame vote :: u64
  assumes "fee_inv d"
  defines "old \<equiv> (case filterData d (EncodeToString flt) of None \<Rightarrow> [] | Some data \<Rightarrow> votes data)"
  defines "new \<equiv> old @ [\<lparr>frameNumber = frame, feeMultiplierVote = vote\<rparr>]"
  shows "case AddFrameFeeVote now flt frame vote d of (res, d') \<Rightarrow>
    (if \<exists>v \<in> set old. frame \<le> frameNumber v
     then (\<exists>e. res = Inl e) \<and> d' = d
     else res = Inr () \<and> (\<forall>key. key \<noteq> EncodeToString flt \<longrightarrow> filterData d' key = filterData d key) \<and>
       (\<exists>data. filterData d' (EncodeToString flt) = Some data \<and>
          votes data = drop (length new - maxWindowSize) new \<and> lastUpdated data = now))"
proof -
  let ?key = "EncodeToString flt"
  define data where "data = (case filterData d ?key of
      None \<Rightarrow> \<lparr>votes = [], sumVotes = 0, lastUpdated = now\<rparr> | Some x \<Rightarrow> x)"
  have old: "votes data = old" by (auto simp: data_def old_def split: option.split)
  have di: "frames_increase old" "length old \<le> maxWindowSize"
    using fee_invD [OF assms(1), of ?key]
    by (auto simp: old_def fee_data_inv_def frames_increase_def split: option.split)
  have rej: "(\<exists>v \<in> set old. frame \<le> frameNumber v) \<longleftrightarrow> old \<noteq> [] \<and> frame \<le> frameNumber (last old)"
  proof (cases "old = []")
    case False
    have "frameNumber v \<le> frameNumber (last old)" if "v \<in> set old" for v
      using filter_last_all [OF di(1) False, of "frameNumber (last old)"] that by simp
    with False show ?thesis by (auto intro: order_trans)
  qed simp
  have same: "d\<lparr>filterData := (filterData d)(?key \<mapsto> data)\<rparr> = d" if "old \<noteq> []"
    using that by (cases d) (auto simp: old_def data_def fun_upd_idem split: option.splits)
  have win: "(if maxWindowSize < length new then tl new else new) = drop (length new - maxWindowSize) new"
  proof (cases "maxWindowSize < length new")
    case True
    with di(2) have "length new - maxWindowSize = 1" by (simp add: new_def)
    with True show ?thesis by (simp add: drop_Suc)
  qed simp
  show ?thesis
    unfolding AddFrameFeeVote_def Let_def data_def [symmetric] old new_def [symmetric] rej
    using same win by (auto split: prod.splits if_splits)
qed

theorem AddFrameFeeVote_spec_witness:
  "case AddFrameFeeVote 9 [1] 5 10 NewDynamicFeeManager of (res, d') \<Rightarrow>
     res = Inr () \<and> (\<exists>data. filterData d' (EncodeToString [1]) = Some data \<and>
       votes data = [\<lparr>frameNumber = 5, feeMultiplierVote = 10\<rparr>] \<and> lastUpdated data = 9)"
  using AddFrameFeeVote_spec [OF fee_inv_new, of "[1]" 5 10 9]
  by (auto simp: NewDynamicFeeManager_def maxWindowSize_def split: prod.splits)

text \<open>Rewinding to a frame keeps exactly the votes up to that frame, corrects the running
  sum, touches no other filter and returns the number of removed votes.\<close>

theorem RewindToFrame_spec:
  assumes "fee_inv d" and "filterData d (EncodeToString flt) = Some data"
  shows "case RewindToFrame flt frame d of (n, d') \<Rightarrow>
    n = length (filter (\<lambda>v. frame < frameNumber v) (votes data)) \<and>
    (\<forall>key. key \<noteq> EncodeToString flt \<longrightarrow> filterData d' key = filterData d key) \<and>
    (\<exists>data'. filterData d' (EncodeToString flt) = Some data' \<and>
       votes data' = filter (\<lambda>v. frameNumber v \<le> frame) (votes data) \<and>
       sumVotes data' = sum_list (map feeMultiplierVote (votes data')))"
proof -
  have "length (filter (\<lambda>v. frame < frameNumber v) (votes data))
      = length (votes data) - length (filter (\<lambda>v. frameNumber v \<le> frame) (votes data))"
    using sum_length_filter_compl [of "\<lambda>v. frameNumber v \<le> frame" "votes data"]
    by (simp add: not_le)
  with RewindToFrame_eq [OF assms, of frame] show ?thesis
    by (auto simp: fee_data_inv_def)
qed

theorem RewindToFrame_spec_witness:
  "case RewindToFrame [1] 4 (snd (AddFrameFeeVote 9 [1] 5 10 NewDynamicFeeManager)) of (n, d') \<Rightarrow>
     n = 1 \<and> (\<exists>data'. filterData d' (EncodeToString [1]) = Some data' \<and> votes data' = [])"
proof -
  let ?d = "snd (AddFrameFeeVote 9 [1] 5 10 NewDynamicFeeManager)"
  have i: "fee_inv ?d" by (rule AddFrameFeeVote_inv [OF fee_inv_new])
  have "filterData ?d (EncodeToString [1]) = Some
     \<lparr>votes = [\<lparr>frameNumber = 5, feeMultiplierVote = 10\<rparr>], sumVotes = 10, lastUpdated = 9\<rparr>"
    by (simp add: AddFrameFeeVote_def NewDynamicFeeManager_def maxWindowSize_def Let_def)
  from RewindToFrame_spec [OF i this, of 4] show ?thesis by (auto split: prod.splits)
qed

text \<open>Where the sum of the window fits 64 bits, the multiplier is the average of the votes of
  the window, rounded down, so it lies between the lowest and the highest of them.\<close>

theorem GetNextFeeMultiplier_average:
  assumes "fee_inv d" and "filterData d (EncodeToString flt) = Some data" and "votes data \<noteq> []"
    and "sum_list (map unat (GetVoteHistory flt d)) < 2 ^ 64"
    and "\<forall>v \<in> set (GetVoteHistory flt d). lo \<le> unat v \<and> unat v \<le> hi"
  shows "unat (GetNextFeeMultiplier flt d)
      = sum_list (map unat (GetVoteHistory flt d)) div GetAverageWindowSize flt d \<and>
    lo \<le> unat (GetNextFeeMultiplier flt d) \<and> unat (GetNextFeeMultiplier flt d) \<le> hi"
proof -
  let ?h = "map feeMultiplierVote (votes data)"
  let ?n = "length (votes data)"
  have di: "?n \<le> maxWindowSize" "sumVotes data = sum_list ?h"
    using fee_invD [OF assms(1,2)] by (auto simp: fee_data_inv_def)
  then have n: "unat (of_nat ?n :: u64) = ?n"
    by (simp add: unat_of_nat maxWindowSize_def)
  have h: "GetVoteHistory flt d = ?h" "GetAverageWindowSize flt d = ?n"
    using assms(2) by (simp_all add: GetVoteHistory_def GetAverageWindowSize_def)
  have avg: "unat (GetNextFeeMultiplier flt d)
      = sum_list (map unat (GetVoteHistory flt d)) div GetAverageWindowSize flt d"
    using assms(2,3,4) di(2) n unat_sum_list [of ?h]
    by (simp add: GetNextFeeMultiplier_def h unat_div)
  have "lo * ?n \<le> sum_list (map unat ?h) \<and> sum_list (map unat ?h) \<le> hi * ?n"
    using sum_list_between [of "map unat ?h" lo hi] assms(5) h by simp
  moreover have "0 < ?n" using assms(3) by simp
  ultimately have "lo \<le> sum_list (map unat ?h) div ?n \<and> sum_list (map unat ?h) div ?n \<le> hi"
    by (metis div_le_mono div_mult_self_is_m)
  with avg show ?thesis by (simp add: h)
qed

theorem GetNextFeeMultiplier_average_witness:
  "let d = snd (AddFrameFeeVote 9 [1] 6 21 (snd (AddFrameFeeVote 8 [1] 5 10 NewDynamicFeeManager)))
   in unat (GetNextFeeMultiplier [1] d) = 15 \<and> 10 \<le> unat (GetNextFeeMultiplier [1] d)"
proof -
  let ?d1 = "snd (AddFrameFeeVote 8 [1] 5 10 NewDynamicFeeManager)"
  let ?d = "snd (AddFrameFeeVote 9 [1] 6 21 ?d1)"
  have i: "fee_inv ?d" by (intro AddFrameFeeVote_inv fee_inv_new)
  have s: "filterData ?d (EncodeToString [1]) = Some
     \<lparr>votes = [\<lparr>frameNumber = 5, feeMultiplierVote = 10\<rparr>, \<lparr>frameNumber = 6, feeMultiplierVote = 21\<rparr>],
      sumVotes = 31, lastUpdated = 9\<rparr>"
    by (simp add: AddFrameFeeVote_def NewDynamicFeeManager_def maxWindowSize_def Let_def)
  then have "GetVoteHistory [1] ?d = [10, 21]" "GetAverageWindowSize [1] ?d = 2"
    by (simp_all add: GetVoteHistory_def GetAverageWindowSize_def)
  with GetNextFeeMultiplier_average [OF i s, of 10 21] show ?thesis by (simp add: Let_def)
qed

text \<open>The running sum wraps: two votes of \<open>2 ^ 63\<close> give an average of 0.\<close>

theorem fee_average_wraps:
  "GetNextFeeMultiplier [] (fold exec_fee
     [Add 0 [] 1 (2 ^ 63), Add 0 [] 2 (2 ^ 63)] NewDynamicFeeManager) = 0"
  by (simp add: AddFrameFeeVote_def NewDynamicFeeManager_def maxWindowSize_def Let_def
      GetNextFeeMultiplier_def word_le_def)

end
