(* ===== verification/Consensus_Machine.thy ===== *)
theory Consensus_Machine
  imports Prelude "HOL-Library.Finite_Map"
begin

text \<open>
  The generic consensus state machine of \<^verbatim>\<open>consensus/state_machine.go\<close>: the state of one node,
  its transition table, the behaviour it runs on entering each state, the message handlers
  and the event loop. The four provider interfaces and the \<^verbatim>\<open>Unique\<close> accessors are the record
  \<open>providers\<close>: any answers, and new ones at every step. A behaviour runs on the event loop's
  goroutine and holds the mutex only in parts; whenever it does not, messages of other
  goroutines may be handled, which the field \<open>during\<close> supplies for each such point
  (\<open>yield\<close>). A nil dereference is a crash, and a mutex that is never released a stuck
  machine. \<^verbatim>\<open>Clone\<close> is the identity on values. Tracing, listeners and clocks are left out.
\<close>

section \<open>States, events and the transition table\<close>

datatype State =
    StateStopped | StateStarting | StateLoading | StateCollecting | StateLivenessCheck
  | StateProving | StatePublishing | StateVoting | StateFinalizing | StateVerifying
  | StateStopping

datatype Event =
    EventStart | EventStop | EventSyncTimeout | EventInduceSync | EventSyncComplete
  | EventInitComplete | EventCollectionDone | EventLivenessCheckReceived | EventLivenessTimeout
  | EventProverSignal | EventProofComplete | EventPublishComplete | EventPublishTimeout
  | EventProposalReceived | EventVoteReceived | EventQuorumReached | EventVotingTimeout
  | EventAggregationDone | EventAggregationTimeout | EventConfirmationReceived
  | EventVerificationDone | EventVerificationTimeout | EventCleanupComplete

definition active_states :: "State list" where
  "active_states = [StateStarting, StateLoading, StateCollecting, StateLivenessCheck, StateProving,
     StatePublishing, StateVoting, StateFinalizing, StateVerifying]"

text \<open>The calls of \<^verbatim>\<open>addTransition\<close> in order; every guard is nil.\<close>

definition defineTransitions :: "((State \<times> Event) \<times> State) list" where
  "defineTransitions =
     [((StateStopped, EventStart), StateStarting),
      ((StateStarting, EventInitComplete), StateLoading),
      ((StateLoading, EventSyncTimeout), StateLoading),
      ((StateLoading, EventSyncComplete), StateCollecting),
      ((StateCollecting, EventCollectionDone), StateLivenessCheck),
      ((StateLivenessCheck, EventProverSignal), StateProving),
      ((StateLivenessCheck, EventLivenessTimeout), StateLivenessCheck),
      ((StateLivenessCheck, EventLivenessCheckReceived), StateLivenessCheck),
      ((StateProving, EventProofComplete), StatePublishing),
      ((StateProving, EventPublishTimeout), StateVoting),
      ((StatePublishing, EventPublishComplete), StateVoting),
      ((StatePublishing, EventPublishTimeout), StateVoting),
      ((StateVoting, EventProposalReceived), StateVoting),
      ((StateVoting, EventVoteReceived), StateVoting),
      ((StateVoting, EventQuorumReached), StateFinalizing),
      ((StateVoting, EventVotingTimeout), StateVoting),
      ((StateFinalizing, EventAggregationDone), StateVerifying),
      ((StateFinalizing, EventAggregationTimeout), StateFinalizing),
      ((StateVerifying, EventVerificationDone), StateCollecting),
      ((StateVerifying, EventVerificationTimeout), StateVerifying)] @
     concat (map (\<lambda>s. [((s, EventStop), StateStopping), ((s, EventInduceSync), StateLoading)])
       active_states) @
     [((StateStopping, EventCleanupComplete), StateStopped)]"

text \<open>A later \<^verbatim>\<open>addTransition\<close> for the same state and event replaces an earlier one.\<close>

definition transitionTo :: "State \<Rightarrow> Event \<Rightarrow> State option" where
  "transitionTo s e = map_of (rev defineTransitions) (s, e)"

text \<open>The \<^verbatim>\<open>OnTimeout\<close> event of each state's configuration; a stopped machine has none.\<close>

fun onTimeout :: "State \<Rightarrow> Event option" where
  "onTimeout StateStopped = None"
| "onTimeout StateStarting = Some EventInitComplete"
| "onTimeout StateLoading = Some EventSyncTimeout"
| "onTimeout StateCollecting = Some EventInduceSync"
| "onTimeout StateLivenessCheck = Some EventLivenessTimeout"
| "onTimeout StateProving = Some EventPublishTimeout"
| "onTimeout StatePublishing = Some EventPublishTimeout"
| "onTimeout StateVoting = Some EventVotingTimeout"
| "onTimeout StateFinalizing = Some EventAggregationTimeout"
| "onTimeout StateVerifying = Some EventVerificationTimeout"
| "onTimeout StateStopping = Some EventCleanupComplete"

section \<open>The machine\<close>

type_synonym Identity = string

type_synonym 'a ranked = "(u64, (Identity, 'a) fmap) fmap"

record ('st, 'vt, 'pid, 'ct) machine =
  machineState :: State
  activeState :: "'st option"
  nextState :: "'st option"
  collected :: "'ct option"
  mid :: 'pid
  nextProvers :: "'pid list"
  liveness :: "'ct ranked"
  votes :: "'vt ranked"
  proposals :: "'st ranked"
  confirmations :: "'st ranked"
  chosenProposer :: "'pid option"
  transitionCount :: u64
  shouldEmitReceiveEventsOnSends :: bool
  eventChan :: "Event list" \<comment> \<open>sent and not yet handled; the sending goroutines race, so in no order\<close>
  timeoutTimer :: "Event option" \<comment> \<open>the armed timer's event\<close>
  ctxDone :: bool

text \<open>What other goroutines may call while the event loop does not hold the mutex.\<close>

datatype ('st, 'vt, 'pid, 'ct) call =
    CallReceiveLivenessCheck 'pid 'ct
  | CallReceiveProposal 'pid 'st
  | CallReceiveVote 'pid 'pid 'vt
  | CallReceiveConfirmation 'pid 'st
  | CallClose

datatype 'st sync_answer = SyncState "'st option" | SyncError | SyncCancelled

record ('st, 'vt, 'pid, 'ct) providers =
  rankState :: "'st \<Rightarrow> u64"
  rankVote :: "'vt \<Rightarrow> u64"
  rankCollected :: "'ct \<Rightarrow> u64"
  identityVote :: "'vt \<Rightarrow> Identity"
  identityPeer :: "'pid \<Rightarrow> Identity"
  minimumProvers :: u64
  synchronize :: "('st option \<Rightarrow> 'st sync_answer) option" \<comment> \<open>None: no sync provider\<close>
  getNextLeaders :: "'st option \<Rightarrow> 'pid list option"
  proveNextState :: "'st option \<Rightarrow> 'ct \<Rightarrow> 'st option"
  collect :: "'ct option"
  sendLiveness :: "'st option \<Rightarrow> 'ct \<Rightarrow> bool"
  sendProposal :: "'st \<Rightarrow> bool"
  decideAndSendVote :: "(Identity, 'st) fmap \<Rightarrow> ('pid \<times> 'vt) option"
  isQuorum :: "(Identity, 'vt) fmap \<Rightarrow> bool option"
  finalizeVotes :: "(Identity, 'st) fmap \<Rightarrow> (Identity, 'vt) fmap \<Rightarrow> ('st \<times> 'pid) option"
  sendConfirmation :: "'st \<Rightarrow> bool"
  during :: "nat \<Rightarrow> ('st, 'vt, 'pid, 'ct) call list"

definition NewStateMachine :: "'pid \<Rightarrow> 'st option \<Rightarrow> bool \<Rightarrow> ('st, 'vt, 'pid, 'ct) machine" where
  "NewStateMachine pid initialState emit =
     \<lparr>machineState = StateStopped, activeState = initialState, nextState = None, collected = None,
      mid = pid, nextProvers = [], liveness = fmempty, votes = fmempty, proposals = fmempty,
      confirmations = fmempty, chosenProposer = None, transitionCount = 0,
      shouldEmitReceiveEventsOnSends = emit, eventChan = [], timeoutTimer = None, ctxDone = False\<rparr>"

text \<open>Go's reads and writes of a map of maps: a missing inner map reads as an empty one.\<close>

definition at_rank :: "'a ranked \<Rightarrow> u64 \<Rightarrow> (Identity, 'a) fmap" where
  "at_rank m r = (case fmlookup m r of None \<Rightarrow> fmempty | Some x \<Rightarrow> x)"

definition put :: "u64 \<Rightarrow> Identity \<Rightarrow> 'a \<Rightarrow> 'a ranked \<Rightarrow> 'a ranked" where
  "put r i x m = fmupd r (fmupd i x (at_rank m r)) m"

definition put_new :: "u64 \<Rightarrow> Identity \<Rightarrow> 'a \<Rightarrow> 'a ranked \<Rightarrow> 'a ranked" where
  "put_new r i x m = (if fmlookup (at_rank m r) i = None then put r i x m else m)"

definition count :: "(Identity, 'a) fmap \<Rightarrow> int" where
  "count m = int (fcard (fmdom m))"

text \<open>
  \<^verbatim>\<open>SendEvent\<close> hands the event to a goroutine, which waits in a \<^verbatim>\<open>select\<close>: \<open>eventChan\<close> holds the
  events of these goroutines and of the channel's buffer alike. One branch of the \<^verbatim>\<open>select\<close> is that
  the loop gets the event (\<open>take_event\<close>), the other that the context is done and the event is lost
  (\<open>abandon_event\<close>); which of them is taken, and when, is a decision of the scheduler below.
  \<^verbatim>\<open>Start\<close> and \<^verbatim>\<open>Stop\<close> send theirs.
\<close>

definition SendEvent :: "Event \<Rightarrow> ('st, 'vt, 'pid, 'ct) machine \<Rightarrow> ('st, 'vt, 'pid, 'ct) machine" where
  "SendEvent e sm = sm\<lparr>eventChan := eventChan sm @ [e]\<rparr>"

definition Start :: "('st, 'vt, 'pid, 'ct) machine \<Rightarrow> ('st, 'vt, 'pid, 'ct) machine" where
  "Start sm = SendEvent EventStart sm"

definition Stop :: "('st, 'vt, 'pid, 'ct) machine \<Rightarrow> ('st, 'vt, 'pid, 'ct) machine" where
  "Stop sm = SendEvent EventStop sm"

definition Close :: "('st, 'vt, 'pid, 'ct) machine \<Rightarrow> ('st, 'vt, 'pid, 'ct) machine" where
  "Close sm = sm\<lparr>ctxDone := True, timeoutTimer := None, machineState := StateStopped\<rparr>"

section \<open>Message handlers\<close>

datatype receive_error = ConflictingVote

definition ReceiveLivenessCheck ::
  "('st, 'vt, 'pid, 'ct) providers \<Rightarrow> 'pid \<Rightarrow> 'ct \<Rightarrow> ('st, 'vt, 'pid, 'ct) machine
    \<Rightarrow> (receive_error + unit) \<times> ('st, 'vt, 'pid, 'ct) machine" where
  "ReceiveLivenessCheck p peer c sm =
     (Inr (), SendEvent EventLivenessCheckReceived
        (sm\<lparr>liveness := put_new (rankCollected p c) (identityPeer p peer) c (liveness sm)\<rparr>))"

definition ReceiveProposal ::
  "('st, 'vt, 'pid, 'ct) providers \<Rightarrow> 'pid \<Rightarrow> 'st \<Rightarrow> ('st, 'vt, 'pid, 'ct) machine
    \<Rightarrow> (receive_error + unit) \<times> ('st, 'vt, 'pid, 'ct) machine" where
  "ReceiveProposal p peer proposal sm =
     (Inr (), SendEvent EventProposalReceived
        (sm\<lparr>proposals := put_new (rankState p proposal) (identityPeer p peer) proposal (proposals sm)\<rparr>))"

definition ReceiveVote ::
  "('st, 'vt, 'pid, 'ct) providers \<Rightarrow> 'pid \<Rightarrow> 'pid \<Rightarrow> 'vt \<Rightarrow> ('st, 'vt, 'pid, 'ct) machine
    \<Rightarrow> (receive_error + unit) \<times> ('st, 'vt, 'pid, 'ct) machine" where
  "ReceiveVote p proposer voter vote sm =
     (let r = rankVote p vote; i = identityPeer p voter;
          sm' = sm\<lparr>votes := put_new r i vote (votes sm)\<rparr>
      in case fmlookup (at_rank (votes sm) r) i of
           Some old \<Rightarrow> if identityVote p old \<noteq> identityVote p vote then (Inl ConflictingVote, sm')
                       else (Inr (), SendEvent EventVoteReceived sm')
         | None \<Rightarrow> (Inr (), SendEvent EventVoteReceived sm'))"

definition ReceiveConfirmation ::
  "('st, 'vt, 'pid, 'ct) providers \<Rightarrow> 'pid \<Rightarrow> 'st \<Rightarrow> ('st, 'vt, 'pid, 'ct) machine
    \<Rightarrow> (receive_error + unit) \<times> ('st, 'vt, 'pid, 'ct) machine" where
  "ReceiveConfirmation p peer confirmation sm =
     (Inr (), SendEvent EventConfirmationReceived
        (sm\<lparr>confirmations := put_new (rankState p confirmation) (identityPeer p peer) confirmation
              (confirmations sm)\<rparr>))"

fun do_call :: "('st, 'vt, 'pid, 'ct) providers \<Rightarrow> ('st, 'vt, 'pid, 'ct) call
    \<Rightarrow> ('st, 'vt, 'pid, 'ct) machine \<Rightarrow> ('st, 'vt, 'pid, 'ct) machine" where
  "do_call p (CallReceiveLivenessCheck peer c) sm = snd (ReceiveLivenessCheck p peer c sm)"
| "do_call p (CallReceiveProposal peer s) sm = snd (ReceiveProposal p peer s sm)"
| "do_call p (CallReceiveVote proposer voter v) sm = snd (ReceiveVote p proposer voter v sm)"
| "do_call p (CallReceiveConfirmation peer s) sm = snd (ReceiveConfirmation p peer s sm)"
| "do_call p CallClose sm = Close sm"

definition yield :: "('st, 'vt, 'pid, 'ct) providers \<Rightarrow> nat
    \<Rightarrow> ('st, 'vt, 'pid, 'ct) machine \<Rightarrow> ('st, 'vt, 'pid, 'ct) machine" where
  "yield p i sm = fold (do_call p) (during p i) sm"

section \<open>State behaviours\<close>

text \<open>
  A behaviour returns with the mutex released or still held, or panics on a nil pointer while
  it holds the mutex. \<open>data\<close> is the active state at the call.
\<close>

datatype 's outcome = Returns (state_of: 's) | ReturnsLocked (state_of: 's) | PanicsLocked (state_of: 's)

type_synonym ('st, 'vt, 'pid, 'ct) behavior =
  "('st, 'vt, 'pid, 'ct) providers \<Rightarrow> 'st option \<Rightarrow> ('st, 'vt, 'pid, 'ct) machine
    \<Rightarrow> ('st, 'vt, 'pid, 'ct) machine outcome"

definition Loading_behavior :: "('st, 'vt, 'pid, 'ct) behavior" where
  "Loading_behavior p data sm =
     (case synchronize p of
        None \<Rightarrow> Returns sm
      | Some sync \<Rightarrow>
          (case sync (activeState sm) of
             SyncState newState \<Rightarrow>
               let sm = (yield p 0 sm)\<lparr>activeState := newState\<rparr>
               in (case getNextLeaders p newState of
                     None \<Rightarrow> Returns sm
                   | Some nextLeaders \<Rightarrow>
                       if list_ex (\<lambda>leader. identityPeer p leader = identityPeer p (mid sm)) nextLeaders
                       then Returns (SendEvent EventSyncComplete sm)
                       else Returns (SendEvent EventSyncTimeout sm))
           | SyncError \<Rightarrow> Returns (SendEvent EventSyncTimeout sm)
           | SyncCancelled \<Rightarrow> Returns sm))"

definition Collecting_behavior :: "('st, 'vt, 'pid, 'ct) behavior" where
  "Collecting_behavior p data sm =
     (case collect p of
        None \<Rightarrow> Returns (SendEvent EventInduceSync sm)
      | Some c \<Rightarrow>
          let sm = (yield p 0 sm)\<lparr>nextProvers := [], chosenProposer := None, collected := Some c\<rparr>
          in (case getNextLeaders p data of
                None \<Rightarrow> Returns (SendEvent EventInduceSync sm)
              | Some provers \<Rightarrow>
                  let sm = (yield p 1 sm)\<lparr>nextProvers := provers\<rparr>
                  in if \<not> sendLiveness p data c then Returns (SendEvent EventInduceSync sm)
                     else
                       let sm = yield p 2 sm
                       in if shouldEmitReceiveEventsOnSends sm
                          then Returns (SendEvent EventCollectionDone (SendEvent EventLivenessCheckReceived
                            (sm\<lparr>liveness := put (rankCollected p c) (identityPeer p (mid sm)) c (liveness sm)\<rparr>)))
                          else Returns (SendEvent EventCollectionDone sm)))"

definition refetch_leaders ::
  "('st, 'vt, 'pid, 'ct) providers \<Rightarrow> 'st option \<Rightarrow> ('st, 'vt, 'pid, 'ct) machine
    \<Rightarrow> ('st, 'vt, 'pid, 'ct) machine option" where
  "refetch_leaders p data sm =
     (if int (length (nextProvers sm)) < sint (minimumProvers p)
      then map_option (\<lambda>provers. (yield p 1 sm)\<lparr>nextProvers := provers\<rparr>) (getNextLeaders p data)
      else Some sm)"

definition LivenessCheck_behavior :: "('st, 'vt, 'pid, 'ct) behavior" where
  "LivenessCheck_behavior p data sm =
     (let sm = yield p 0 sm
      in case refetch_leaders p data sm of
           None \<Rightarrow> Returns sm
         | Some sm \<Rightarrow>
             let sm = yield p 2 sm
             in (case collected sm of
                   None \<Rightarrow> PanicsLocked sm
                 | Some c \<Rightarrow>
                     let sm = yield p 3 sm
                     in (case activeState sm of
                           None \<Rightarrow> PanicsLocked sm
                         | Some a \<Rightarrow>
                             if count (at_rank (liveness sm) (rankState p a + 1)) \<ge> sint (minimumProvers p)
                             then Returns (SendEvent EventProverSignal sm)
                             else Returns sm)))"

definition Proving_behavior :: "('st, 'vt, 'pid, 'ct) behavior" where
  "Proving_behavior p data sm =
     (let sm = yield p 0 sm
      in case collected sm of
           None \<Rightarrow> Returns sm
         | Some c \<Rightarrow>
             (case proveNextState p data c of
                None \<Rightarrow> Returns sm
              | Some proposal \<Rightarrow>
                  let sm = yield p 1 sm
                  in Returns (SendEvent EventProofComplete
                       (sm\<lparr>proposals := put (rankState p proposal) (identityPeer p (mid sm)) proposal
                             (proposals sm)\<rparr>))))"

text \<open>The mutex is released only in the branch that has a proposal to send.\<close>

definition Publishing_behavior :: "('st, 'vt, 'pid, 'ct) behavior" where
  "Publishing_behavior p data sm =
     (let sm = yield p 0 sm
      in case data of
           None \<Rightarrow> PanicsLocked sm
         | Some d \<Rightarrow>
             (case fmlookup (at_rank (proposals sm) (rankState p d + 1)) (identityPeer p (mid sm)) of
                Some proposal \<Rightarrow>
                  if sendProposal p proposal then Returns (SendEvent EventPublishComplete sm)
                  else Returns sm
              | None \<Rightarrow> ReturnsLocked sm))"

definition Voting_behavior :: "('st, 'vt, 'pid, 'ct) behavior" where
  "Voting_behavior p data sm =
     (let sm = yield p 0 sm
      in case activeState sm of
           None \<Rightarrow> PanicsLocked sm
         | Some a \<Rightarrow>
             let r = rankState p a + 1
             in if chosenProposer sm = None then
                  (if count (at_rank (proposals sm) r) < sint (minimumProvers p) then Returns sm
                   else if ctxDone sm then Returns sm
                   else
                     (case decideAndSendVote p (at_rank (proposals sm) r) of
                        None \<Rightarrow> Returns sm
                      | Some (selectedPeer, vote) \<Rightarrow>
                          let sm = (yield p 1 sm)\<lparr>chosenProposer := Some selectedPeer\<rparr>
                          in if shouldEmitReceiveEventsOnSends sm
                             then Returns (SendEvent EventVoteReceived
                               (sm\<lparr>votes := put r (identityPeer p (mid sm)) vote (votes sm)\<rparr>))
                             else Returns sm))
                else
                  (case isQuorum p (at_rank (votes sm) r) of
                     None \<Rightarrow> Returns sm
                   | Some q \<Rightarrow>
                       if q \<and> count (at_rank (proposals sm) r) \<ge> sint (minimumProvers p)
                       then Returns (SendEvent EventQuorumReached sm)
                       else Returns sm))"

definition Finalizing_behavior :: "('st, 'vt, 'pid, 'ct) behavior" where
  "Finalizing_behavior p data sm =
     (let sm = yield p 0 sm
      in case activeState sm of
           None \<Rightarrow> PanicsLocked sm
         | Some a \<Rightarrow>
             let r = rankState p a + 1
             in (case finalizeVotes p (at_rank (proposals sm) r) (at_rank (votes sm) r) of
                   None \<Rightarrow> Returns sm
                 | Some (finalized, _) \<Rightarrow>
                     Returns (SendEvent EventAggregationDone
                       ((yield p 1 sm)\<lparr>nextState := Some finalized\<rparr>))))"

text \<open>The result of \<^verbatim>\<open>SendConfirmation\<close> is only logged.\<close>

definition Verifying_behavior :: "('st, 'vt, 'pid, 'ct) behavior" where
  "Verifying_behavior p data sm =
     (let sm = yield p 0 sm
      in case activeState sm of
           None \<Rightarrow> PanicsLocked sm
         | Some a \<Rightarrow>
             let sm = (if fmlookup (at_rank (confirmations sm) (rankState p a + 1))
                            (identityPeer p (mid sm)) = None \<and> nextState sm \<noteq> None
                       then yield p 1 sm else sm)
             in (case nextState sm of
                   None \<Rightarrow> Returns sm
                 | Some n \<Rightarrow>
                     let r = rankState p n
                     in Returns (SendEvent EventVerificationDone
                          (sm\<lparr>activeState := Some n, nextState := None, collected := None,
                              liveness := fmdrop r (liveness sm), proposals := fmdrop r (proposals sm),
                              votes := fmdrop r (votes sm),
                              confirmations := fmdrop r (confirmations sm)\<rparr>))))"

definition Stopping_behavior :: "('st, 'vt, 'pid, 'ct) behavior" where
  "Stopping_behavior p data sm = Returns (SendEvent EventCleanupComplete sm)"

fun state_behavior :: "State \<Rightarrow> ('st, 'vt, 'pid, 'ct) behavior option" where
  "state_behavior StateStopped = None"
| "state_behavior StateStarting = None"
| "state_behavior StateLoading = Some Loading_behavior"
| "state_behavior StateCollecting = Some Collecting_behavior"
| "state_behavior StateLivenessCheck = Some LivenessCheck_behavior"
| "state_behavior StateProving = Some Proving_behavior"
| "state_behavior StatePublishing = Some Publishing_behavior"
| "state_behavior StateVoting = Some Voting_behavior"
| "state_behavior StateFinalizing = Some Finalizing_behavior"
| "state_behavior StateVerifying = Some Verifying_behavior"
| "state_behavior StateStopping = Some Stopping_behavior"

section \<open>The event loop\<close>

text \<open>
  The loop runs, has left (after \<^verbatim>\<open>Close\<close>), or waits for a mutex nobody will release. A panic
  under the mutex is recovered by \<^verbatim>\<open>processEvents\<close>, whose \<^verbatim>\<open>Close\<close> then locks it again.
\<close>

datatype 's run = Running (machine_of: 's) | Ended (machine_of: 's) | Stuck (machine_of: 's)

definition enter_state :: "State \<Rightarrow> ('st, 'vt, 'pid, 'ct) machine \<Rightarrow> ('st, 'vt, 'pid, 'ct) machine" where
  "enter_state to sm =
     sm\<lparr>timeoutTimer := None, machineState := to, transitionCount := transitionCount sm + 1\<rparr>"

definition run_behavior ::
  "('st, 'vt, 'pid, 'ct) providers \<Rightarrow> State \<Rightarrow> ('st, 'vt, 'pid, 'ct) machine
    \<Rightarrow> ('st, 'vt, 'pid, 'ct) machine outcome" where
  "run_behavior p to sm =
     (case state_behavior to of None \<Rightarrow> Returns sm | Some behavior \<Rightarrow> behavior p (activeState sm) sm)"

definition executeTransition ::
  "('st, 'vt, 'pid, 'ct) providers \<Rightarrow> State \<Rightarrow> ('st, 'vt, 'pid, 'ct) machine
    \<Rightarrow> ('st, 'vt, 'pid, 'ct) machine run" where
  "executeTransition p to sm =
     (case run_behavior p to (enter_state to sm) of
        Returns sm \<Rightarrow>
          Running (case onTimeout to of None \<Rightarrow> sm | Some e \<Rightarrow> sm\<lparr>timeoutTimer := Some e\<rparr>)
      | ReturnsLocked sm \<Rightarrow> Stuck sm
      | PanicsLocked sm \<Rightarrow> Stuck sm)"

datatype handle_error = NoTransition State Event

definition handleEvent ::
  "('st, 'vt, 'pid, 'ct) providers \<Rightarrow> Event \<Rightarrow> ('st, 'vt, 'pid, 'ct) machine
    \<Rightarrow> (handle_error + unit) \<times> ('st, 'vt, 'pid, 'ct) machine run" where
  "handleEvent p e sm =
     (case transitionTo (machineState sm) e of
        None \<Rightarrow> (Inl (NoTransition (machineState sm) e), Running sm)
      | Some to \<Rightarrow> (Inr (), executeTransition p to sm))"

text \<open>
  One scheduling decision: the loop takes one of the sent events, the timer fires, the loop
  notices the cancelled context, a sending goroutine notices it and gives its event up, or another
  goroutine calls an exported method.
\<close>

datatype ('st, 'vt, 'pid, 'ct) act =
    Process nat | Fire | Leave | Abandon nat | Send Event | Call "('st, 'vt, 'pid, 'ct) call"

definition take_event :: "nat \<Rightarrow> ('st, 'vt, 'pid, 'ct) machine \<Rightarrow> ('st, 'vt, 'pid, 'ct) machine" where
  "take_event i sm = sm\<lparr>eventChan := take i (eventChan sm) @ drop (Suc i) (eventChan sm)\<rparr>"

definition abandon_event :: "nat \<Rightarrow> ('st, 'vt, 'pid, 'ct) machine \<Rightarrow> ('st, 'vt, 'pid, 'ct) machine" where
  "abandon_event i sm = (if ctxDone sm then take_event i sm else sm)"

fun processEvents ::
  "('st, 'vt, 'pid, 'ct) providers \<times> ('st, 'vt, 'pid, 'ct) act
    \<Rightarrow> ('st, 'vt, 'pid, 'ct) machine run \<Rightarrow> ('st, 'vt, 'pid, 'ct) machine run" where
  "processEvents (p, Process i) (Running sm) =
     (if i < length (eventChan sm) then snd (handleEvent p (eventChan sm ! i) (take_event i sm))
      else Running sm)"
| "processEvents (p, Fire) (Running sm) =
     (case timeoutTimer sm of
        None \<Rightarrow> Running sm
      | Some e \<Rightarrow> Running (SendEvent e (sm\<lparr>timeoutTimer := None\<rparr>)))"
| "processEvents (p, Leave) (Running sm) = (if ctxDone sm then Ended sm else Running sm)"
| "processEvents (p, Abandon i) (Running sm) = Running (abandon_event i sm)"
| "processEvents (p, Send e) (Running sm) = Running (SendEvent e sm)"
| "processEvents (p, Call c) (Running sm) = Running (do_call p c sm)"
| "processEvents (p, Abandon i) (Ended sm) = Ended (abandon_event i sm)"
| "processEvents (p, Send e) (Ended sm) = Ended (SendEvent e sm)"
| "processEvents (p, Call c) (Ended sm) = Ended (do_call p c sm)"
| "processEvents (p, a) (Ended sm) = Ended sm"
| "processEvents (p, a) (Stuck sm) = Stuck sm"

text \<open>Every state of a machine under some schedule, with any provider answers at each step.\<close>

inductive reachable :: "('st, 'vt, 'pid, 'ct) machine run \<Rightarrow> bool" where
  reachable_new: "reachable (Running (NewStateMachine pid s0 emit))"
| reachable_step: "reachable r \<Longrightarrow> reachable (processEvents (p, a) r)"

section \<open>What other goroutines can change\<close>

lemmas receive_defs = ReceiveLivenessCheck_def ReceiveProposal_def ReceiveVote_def
  ReceiveConfirmation_def SendEvent_def Close_def

lemmas behavior_defs = Loading_behavior_def Collecting_behavior_def LivenessCheck_behavior_def
  Proving_behavior_def Publishing_behavior_def Voting_behavior_def Finalizing_behavior_def
  Verifying_behavior_def Stopping_behavior_def refetch_leaders_def

lemma yield_induct:
  assumes "P sm" "\<And>c sm. P sm \<Longrightarrow> P (do_call p c sm)"
  shows "P (yield p i sm)"
proof -
  have "P (fold (do_call p) cs sm)" for cs
    using assms(1) by (induction cs arbitrary: sm) (auto intro: assms(2))
  thus ?thesis by (simp add: yield_def)
qed

lemma do_call_frame:
  "activeState (do_call p c sm) = activeState sm \<and> nextState (do_call p c sm) = nextState sm \<and>
   collected (do_call p c sm) = collected sm \<and> mid (do_call p c sm) = mid sm \<and>
   nextProvers (do_call p c sm) = nextProvers sm \<and>
   chosenProposer (do_call p c sm) = chosenProposer sm \<and>
   shouldEmitReceiveEventsOnSends (do_call p c sm) = shouldEmitReceiveEventsOnSends sm"
  by (cases c) (auto simp: receive_defs Let_def split: option.splits)

lemma do_call_machineState:
  "machineState (do_call p c sm) = (if c = CallClose then StateStopped else machineState sm)"
  by (cases c) (auto simp: receive_defs Let_def split: option.splits)

lemma yield_frame:
  "activeState (yield p i sm) = activeState sm \<and> nextState (yield p i sm) = nextState sm \<and>
   collected (yield p i sm) = collected sm \<and> mid (yield p i sm) = mid sm \<and>
   nextProvers (yield p i sm) = nextProvers sm \<and>
   chosenProposer (yield p i sm) = chosenProposer sm \<and>
   shouldEmitReceiveEventsOnSends (yield p i sm) = shouldEmitReceiveEventsOnSends sm"
  by (rule yield_induct) (simp_all add: do_call_frame)

lemma yield_machineState [simp]:
  "machineState (yield p i sm) = (if CallClose \<in> set (during p i) then StateStopped else machineState sm)"
proof -
  have "machineState (fold (do_call p) cs sm) =
      (if CallClose \<in> set cs then StateStopped else machineState sm)" for cs
    by (induction cs arbitrary: sm) (auto simp: do_call_machineState Close_def)
  thus ?thesis by (simp add: yield_def)
qed

lemma yield_simps [simp]:
  "activeState (yield p i sm) = activeState sm" "nextState (yield p i sm) = nextState sm"
  "collected (yield p i sm) = collected sm" "mid (yield p i sm) = mid sm"
  "nextProvers (yield p i sm) = nextProvers sm"
  "chosenProposer (yield p i sm) = chosenProposer sm"
  "shouldEmitReceiveEventsOnSends (yield p i sm) = shouldEmitReceiveEventsOnSends sm"
  using yield_frame [of p i sm] by auto

lemma SendEvent_simps [simp]:
  "activeState (SendEvent e sm) = activeState sm" "nextState (SendEvent e sm) = nextState sm"
  "machineState (SendEvent e sm) = machineState sm" "votes (SendEvent e sm) = votes sm"
  "proposals (SendEvent e sm) = proposals sm" "mid (SendEvent e sm) = mid sm"
  "liveness (SendEvent e sm) = liveness sm" "collected (SendEvent e sm) = collected sm"
  "confirmations (SendEvent e sm) = confirmations sm"
  "timeoutTimer (SendEvent e sm) = timeoutTimer sm"
  "chosenProposer (SendEvent e sm) = chosenProposer sm" "ctxDone (SendEvent e sm) = ctxDone sm"
  "eventChan (SendEvent e sm) = eventChan sm @ [e]"
  by (simp_all add: SendEvent_def)

lemma abandon_event_simps [simp]:
  "activeState (abandon_event i sm) = activeState sm" "nextState (abandon_event i sm) = nextState sm"
  "votes (abandon_event i sm) = votes sm" "ctxDone (abandon_event i sm) = ctxDone sm"
  by (simp_all add: abandon_event_def take_event_def)

section \<open>Progress: a timer or an accepted event is always there\<close>

definition armed :: "('st, 'vt, 'pid, 'ct) machine \<Rightarrow> bool" where
  "armed sm = (ctxDone sm \<or> (case onTimeout (machineState sm) of None \<Rightarrow> True
     | Some e \<Rightarrow> timeoutTimer sm = Some e \<or> e \<in> set (eventChan sm)))"

fun run_armed :: "('st, 'vt, 'pid, 'ct) machine run \<Rightarrow> bool" where
  "run_armed (Running sm) = armed sm"
| "run_armed (Ended sm) = True"
| "run_armed (Stuck sm) = True"

lemma onTimeout_accepted: "onTimeout s = Some e \<Longrightarrow> transitionTo s e \<noteq> None"
  by (cases s) (auto simp: transitionTo_def defineTransitions_def active_states_def)

lemma Returns_machineState:
  assumes "state_behavior s = Some b" "b p d sm = Returns sm'"
  shows "machineState sm' = machineState sm \<or> machineState sm' = StateStopped"
  using assms by (cases s) (auto simp: behavior_defs Let_def split: option.splits sync_answer.splits
      if_splits)

lemma run_behavior_machineState:
  "run_behavior p to sm = Returns sm' \<Longrightarrow> machineState sm' = machineState sm \<or> machineState sm' = StateStopped"
  by (auto simp: run_behavior_def split: option.splits dest: Returns_machineState)

lemma executeTransition_armed: "executeTransition p to sm = Running sm' \<Longrightarrow> armed sm'"
  by (auto simp: executeTransition_def armed_def enter_state_def split: outcome.splits option.splits
      dest!: run_behavior_machineState)

lemma set_take_drop: "x \<in> set xs \<Longrightarrow> x \<noteq> xs ! i \<Longrightarrow> x \<in> set (take i xs @ drop (Suc i) xs)"
proof (induction xs arbitrary: i)
  case (Cons y xs)
  thus ?case by (cases i) auto
qed simp

lemma SendEvent_armed: "armed sm \<Longrightarrow> armed (SendEvent e sm)"
  by (auto simp: armed_def split: option.splits)

lemma fire_armed: "armed sm \<Longrightarrow> timeoutTimer sm = Some e \<Longrightarrow> armed (SendEvent e (sm\<lparr>timeoutTimer := None\<rparr>))"
  by (auto simp: armed_def split: option.splits)

lemma abandon_armed: "armed sm \<Longrightarrow> armed (abandon_event i sm)"
  by (auto simp: armed_def abandon_event_def take_event_def)

lemma do_call_armed: "armed sm \<Longrightarrow> armed (do_call p c sm)"
  by (cases c) (auto simp: armed_def receive_defs Let_def split: option.splits)

lemma handleEvent_armed:
  assumes "armed sm" "i < length (eventChan sm)"
  shows "run_armed (snd (handleEvent p (eventChan sm ! i) (take_event i sm)))"
proof (cases "transitionTo (machineState sm) (eventChan sm ! i)")
  case None
  have "armed (take_event i sm)"
    using assms(1) None onTimeout_accepted [of "machineState sm"]
    by (auto simp: armed_def take_event_def split: option.splits
          dest: set_take_drop [where i = i and xs = "eventChan sm"])
  thus ?thesis using None by (simp add: handleEvent_def take_event_def)
next
  case (Some to)
  thus ?thesis
    using executeTransition_armed [of p to "take_event i sm"]
    by (cases "executeTransition p to (take_event i sm)") (auto simp: handleEvent_def take_event_def)
qed

lemma processEvents_armed: "run_armed r \<Longrightarrow> run_armed (processEvents pa r)"
  by (induction pa r rule: processEvents.induct)
    (auto simp: handleEvent_armed do_call_armed SendEvent_armed fire_armed abandon_armed
      split: option.splits)

lemma reachable_armed: "reachable r \<Longrightarrow> run_armed r"
  by (induction rule: reachable.induct)
    (simp add: armed_def NewStateMachine_def, rule processEvents_armed)


section \<open>Recorded votes\<close>

lemma at_rank_put: "at_rank (put r i x m) r' = (if r = r' then fmupd i x (at_rank m r) else at_rank m r')"
  by (simp add: at_rank_def put_def)

lemma lookup_put_new:
  "fmlookup (at_rank (put_new r i x m) r') i' =
     (if r = r' \<and> i = i' \<and> fmlookup (at_rank m r) i = None then Some x
      else fmlookup (at_rank m r') i')"
  by (auto simp: put_new_def at_rank_put)

lemma at_rank_drop: "at_rank (fmdrop r m) r' = (if r = r' then fmempty else at_rank m r')"
  by (simp add: at_rank_def)

lemma do_call_keeps_vote:
  "fmlookup (at_rank (votes sm) r) i = Some v \<Longrightarrow>
   fmlookup (at_rank (votes (do_call p c sm)) r) i = Some v"
  by (cases c) (auto simp: receive_defs Let_def lookup_put_new split: option.splits)

lemma yield_keeps_vote [simp]:
  "fmlookup (at_rank (votes sm) r) i = Some v \<Longrightarrow>
   fmlookup (at_rank (votes (yield p k sm)) r) i = Some v"
  by (rule yield_induct [where P = "\<lambda>sm. fmlookup (at_rank (votes sm) r) i = Some v"])
    (auto intro: do_call_keeps_vote)

definition vote_kept ::
  "('st, 'vt, 'pid, 'ct) providers \<Rightarrow> u64 \<Rightarrow> Identity \<Rightarrow> 'vt \<Rightarrow> ('st, 'vt, 'pid, 'ct) machine \<Rightarrow> bool" where
  "vote_kept p r i v sm \<longleftrightarrow> fmlookup (at_rank (votes sm) r) i = Some v \<or>
     (fmlookup (votes sm) r = None \<and> map_option (rankState p) (activeState sm) = Some r)"

lemma run_behavior_vote_kept:
  assumes "fmlookup (at_rank (votes sm) r) i = Some v" "i \<noteq> identityPeer p (mid sm)"
  shows "vote_kept p r i v (state_of (run_behavior p to sm))"
  using assms by (cases to) (auto simp: run_behavior_def behavior_defs Let_def vote_kept_def at_rank_put
      at_rank_drop split: option.splits sync_answer.splits if_splits)

lemma machine_of_executeTransition:
  "machine_of (executeTransition p to sm) =
     (let sm' = state_of (run_behavior p to (enter_state to sm))
      in case (run_behavior p to (enter_state to sm), onTimeout to) of
           (Returns _, Some e) \<Rightarrow> sm'\<lparr>timeoutTimer := Some e\<rparr>
         | _ \<Rightarrow> sm')"
  by (auto simp: executeTransition_def Let_def split: outcome.splits option.splits)

lemma executeTransition_fields:
  "votes (machine_of (executeTransition p to sm)) = votes (state_of (run_behavior p to (enter_state to sm)))"
  "activeState (machine_of (executeTransition p to sm)) =
     activeState (state_of (run_behavior p to (enter_state to sm)))"
  "nextState (machine_of (executeTransition p to sm)) =
     nextState (state_of (run_behavior p to (enter_state to sm)))"
  "eventChan (machine_of (executeTransition p to sm)) =
     eventChan (state_of (run_behavior p to (enter_state to sm)))"
  "collected (machine_of (executeTransition p to sm)) =
     collected (state_of (run_behavior p to (enter_state to sm)))"
  "proposals (machine_of (executeTransition p to sm)) =
     proposals (state_of (run_behavior p to (enter_state to sm)))"
  "liveness (machine_of (executeTransition p to sm)) =
     liveness (state_of (run_behavior p to (enter_state to sm)))"
  "confirmations (machine_of (executeTransition p to sm)) =
     confirmations (state_of (run_behavior p to (enter_state to sm)))"
  "chosenProposer (machine_of (executeTransition p to sm)) =
     chosenProposer (state_of (run_behavior p to (enter_state to sm)))"
  by (auto simp: machine_of_executeTransition Let_def split: outcome.splits option.splits)

lemma handleEvent_vote_kept:
  assumes "fmlookup (at_rank (votes sm) r) i = Some v" "i \<noteq> identityPeer p (mid sm)"
  shows "vote_kept p r i v (machine_of (snd (handleEvent p e sm)))"
proof (cases "transitionTo (machineState sm) e")
  case None
  thus ?thesis using assms by (simp add: handleEvent_def vote_kept_def)
next
  case (Some to)
  have "vote_kept p r i v (state_of (run_behavior p to (enter_state to sm)))"
    using assms by (intro run_behavior_vote_kept) (simp_all add: enter_state_def)
  thus ?thesis
    using Some by (simp add: handleEvent_def vote_kept_def executeTransition_fields)
qed

text \<open>Claim C2. The first vote a machine records for a peer in a round is never replaced: whatever
  happens next (an event is handled, with any messages arriving while its behaviour runs, the
  timer fires, a message arrives, the machine is closed), the vote of every peer other than
  the node itself is still recorded afterwards, unless the round was just completed and its
  whole vote table dropped, in which case the active state has that rank.\<close>

theorem recorded_vote_is_final:
  assumes "fmlookup (at_rank (votes (machine_of r)) k) voter = Some v"
    "voter \<noteq> identityPeer p (mid (machine_of r))"
  shows "fmlookup (at_rank (votes (machine_of (processEvents (p, a) r))) k) voter = Some v \<or>
    fmlookup (votes (machine_of (processEvents (p, a) r))) k = None \<and>
    map_option (rankState p) (activeState (machine_of (processEvents (p, a) r))) = Some k"
proof -
  have "vote_kept p k voter v (machine_of (processEvents (p, a) r))"
  proof (cases r)
    case (Running sm)
    show ?thesis
    proof (cases a)
      case (Process i)
      thus ?thesis
        using assms Running handleEvent_vote_kept [of "take_event i sm" k voter v p]
        by (auto simp: take_event_def vote_kept_def)
    qed (use assms Running in \<open>auto simp: vote_kept_def do_call_keeps_vote split: option.splits\<close>)
  next
    case (Ended sm)
    thus ?thesis using assms by (cases a) (auto simp: vote_kept_def do_call_keeps_vote)
  next
    case (Stuck sm)
    thus ?thesis using assms by (simp add: vote_kept_def)
  qed
  thus ?thesis by (simp add: vote_kept_def)
qed

text \<open>What receiving a vote does on every branch: a first vote of a voter in its round is
  recorded and announced to the event loop, the same vote again changes nothing but the
  announcement, and a different vote is refused with an error, announced to nobody and leaves
  the recorded one in place. No other field of the machine changes.\<close>

theorem ReceiveVote_spec:
  "ReceiveVote p proposer voter vote sm =
     (case fmlookup (at_rank (votes sm) (rankVote p vote)) (identityPeer p voter) of
        None \<Rightarrow> (Inr (), sm\<lparr>votes := put (rankVote p vote) (identityPeer p voter) vote (votes sm),
                          eventChan := eventChan sm @ [EventVoteReceived]\<rparr>)
      | Some old \<Rightarrow> if identityVote p old = identityVote p vote
          then (Inr (), sm\<lparr>eventChan := eventChan sm @ [EventVoteReceived]\<rparr>)
          else (Inl ConflictingVote, sm))"
  by (auto simp: ReceiveVote_def SendEvent_def put_new_def Let_def split: option.splits)

section \<open>Rounds\<close>

lemma do_call_quorum_events:
  "count_list (eventChan (do_call p c sm)) EventQuorumReached = count_list (eventChan sm) EventQuorumReached"
  by (cases c) (auto simp: receive_defs Let_def split: option.splits)

lemma yield_quorum_events [simp]:
  "count_list (eventChan (yield p i sm)) EventQuorumReached = count_list (eventChan sm) EventQuorumReached"
  by (rule yield_induct [where P = "\<lambda>sm'. count_list (eventChan sm') EventQuorumReached =
        count_list (eventChan sm) EventQuorumReached"]) (simp_all add: do_call_quorum_events)

lemma run_behavior_quorum:
  assumes "count_list (eventChan (state_of (run_behavior p to sm))) EventQuorumReached
      \<noteq> count_list (eventChan sm) EventQuorumReached"
  shows "\<exists>sm' s. run_behavior p to sm = Returns sm' \<and> activeState sm' = Some s \<and>
    chosenProposer sm' \<noteq> None \<and> isQuorum p (at_rank (votes sm') (rankState p s + 1)) = Some True \<and>
    sint (minimumProvers p) \<le> count (at_rank (proposals sm') (rankState p s + 1))"
  using assms by (cases to) (auto simp: run_behavior_def behavior_defs Let_def
      split: option.splits sync_answer.splits if_splits)

lemma count_list_take_drop: "count_list (take i xs @ drop (Suc i) xs) x \<le> count_list xs x"
proof (induction xs arbitrary: i)
  case (Cons y xs)
  thus ?case by (cases i) auto
qed simp

text \<open>Claim C3. The event loop announces a quorum only when there is one: if handling an event
  adds a QuorumReached event to the channel, then the machine has an active state and has
  voted, the voting provider has confirmed a quorum for exactly the votes the machine holds
  for the next rank, and it holds at least the minimum number of proposals for that rank.\<close>

theorem quorum_event_needs_quorum:
  assumes "count_list (eventChan (machine_of (processEvents (p, Process i) (Running sm)))) EventQuorumReached
      > count_list (eventChan sm) EventQuorumReached"
  shows "\<exists>s. let sm' = machine_of (processEvents (p, Process i) (Running sm)) in
    activeState sm' = Some s \<and> chosenProposer sm' \<noteq> None \<and>
    isQuorum p (at_rank (votes sm') (rankState p s + 1)) = Some True \<and>
    sint (minimumProvers p) \<le> count (at_rank (proposals sm') (rankState p s + 1))"
proof -
  let ?e = "eventChan sm ! i" and ?sm = "take_event i sm"
  have i: "i < length (eventChan sm)" using assms by (auto split: if_splits)
  have le: "count_list (eventChan ?sm) EventQuorumReached \<le> count_list (eventChan sm) EventQuorumReached"
    using count_list_take_drop [of i "eventChan sm"] by (simp add: take_event_def)
  obtain to where to: "transitionTo (machineState ?sm) ?e = Some to"
    using assms i le by (cases "transitionTo (machineState ?sm) ?e") (auto simp: handleEvent_def)
  have "count_list (eventChan (state_of (run_behavior p to (enter_state to ?sm)))) EventQuorumReached
      \<noteq> count_list (eventChan (enter_state to ?sm)) EventQuorumReached"
    using assms i le to by (auto simp: handleEvent_def executeTransition_fields enter_state_def)
  from run_behavior_quorum [OF this] show ?thesis
    using i to by (auto simp: handleEvent_def executeTransition_fields Let_def)
qed

lemma do_call_activeState: "activeState (do_call p c sm) = activeState sm"
  by (simp add: do_call_frame)

lemma run_behavior_activeState:
  "activeState (state_of (run_behavior p to sm)) = activeState sm \<or>
   (to = StateLoading \<and> (\<exists>sync. synchronize p = Some sync \<and>
      sync (activeState sm) = SyncState (activeState (state_of (run_behavior p to sm))))) \<or>
   (to = StateVerifying \<and> (\<exists>n. nextState sm = Some n \<and>
      activeState (state_of (run_behavior p to sm)) = Some n \<and>
      nextState (state_of (run_behavior p to sm)) = None \<and>
      collected (state_of (run_behavior p to sm)) = None \<and>
      rankState p n |\<notin>| fmdom (liveness (state_of (run_behavior p to sm))) \<and>
      rankState p n |\<notin>| fmdom (proposals (state_of (run_behavior p to sm))) \<and>
      rankState p n |\<notin>| fmdom (votes (state_of (run_behavior p to sm))) \<and>
      rankState p n |\<notin>| fmdom (confirmations (state_of (run_behavior p to sm)))))"
  by (cases to) (auto simp: run_behavior_def behavior_defs Let_def
      split: option.splits sync_answer.splits if_splits)

text \<open>Claim C9. The active state changes in two ways only. Either the sync provider, asked about the
  old active state, answered with the new one; or a finalised state was waiting, it became
  the active state, and the round was cleared: no state waits any more, nothing is collected,
  and the liveness checks, proposals, votes and confirmations of its rank are gone.\<close>

theorem active_state_origin:
  assumes "sm = machine_of r" "sm' = machine_of (processEvents (p, a) r)"
    "activeState sm' \<noteq> activeState sm"
  shows "(\<exists>sync. synchronize p = Some sync \<and> sync (activeState sm) = SyncState (activeState sm')) \<or>
    (\<exists>n. nextState sm = Some n \<and> activeState sm' = Some n \<and> nextState sm' = None \<and>
       collected sm' = None \<and> rankState p n |\<notin>| fmdom (liveness sm') \<and>
       rankState p n |\<notin>| fmdom (proposals sm') \<and> rankState p n |\<notin>| fmdom (votes sm') \<and>
       rankState p n |\<notin>| fmdom (confirmations sm'))"
proof (cases r)
  case (Running s0)
  then obtain i where a: "a = Process i" and i: "i < length (eventChan s0)"
    using assms by (cases a) (auto simp: do_call_frame split: option.splits if_splits)
  let ?sm = "take_event i s0"
  obtain to where to: "transitionTo (machineState ?sm) (eventChan s0 ! i) = Some to"
    using assms a i Running
    by (cases "transitionTo (machineState ?sm) (eventChan s0 ! i)") (auto simp: handleEvent_def take_event_def)
  show ?thesis
    using assms a i to Running run_behavior_activeState [of p to "enter_state to ?sm"]
    by (auto simp: handleEvent_def executeTransition_fields enter_state_def take_event_def)
qed (use assms in \<open>cases a; simp add: do_call_frame\<close>)+

section \<open>The mutex\<close>

lemma do_call_keeps_proposal:
  "fmlookup (at_rank (proposals sm) r) i = Some v \<Longrightarrow>
   fmlookup (at_rank (proposals (do_call p c sm)) r) i = Some v"
  by (cases c) (auto simp: receive_defs Let_def lookup_put_new split: option.splits)

lemma yield_keeps_proposal [simp]:
  "fmlookup (at_rank (proposals sm) r) i = Some v \<Longrightarrow>
   fmlookup (at_rank (proposals (yield p k sm)) r) i = Some v"
  by (rule yield_induct [where P = "\<lambda>sm. fmlookup (at_rank (proposals sm) r) i = Some v"])
    (auto intro: do_call_keeps_proposal)

lemma run_behavior_Returns:
  assumes "activeState sm = Some s" "to = StateLivenessCheck \<Longrightarrow> collected sm \<noteq> None"
    "to = StatePublishing \<Longrightarrow>
       fmlookup (at_rank (proposals sm) (rankState p s + 1)) (identityPeer p (mid sm)) \<noteq> None"
  shows "\<exists>sm'. run_behavior p to sm = Returns sm'"
  using assms by (cases to) (auto simp: run_behavior_def behavior_defs Let_def
      split: option.splits sync_answer.splits if_splits)

text \<open>Claim C19. Handling an event gives the mutex back, so that the loop can go on, provided the
  machine has an active state, has something collected when it enters the liveness check, and
  has its own proposal for the next rank when it enters Publishing.\<close>

theorem handleEvent_releases_mutex:
  assumes "activeState sm = Some s"
    "transitionTo (machineState sm) e = Some StateLivenessCheck \<Longrightarrow> collected sm \<noteq> None"
    "transitionTo (machineState sm) e = Some StatePublishing \<Longrightarrow>
       fmlookup (at_rank (proposals sm) (rankState p s + 1)) (identityPeer p (mid sm)) \<noteq> None"
  shows "\<exists>sm'. snd (handleEvent p e sm) = Running sm'"
proof (cases "transitionTo (machineState sm) e")
  case (Some to)
  have "\<exists>sm'. run_behavior p to (enter_state to sm) = Returns sm'"
    using assms Some by (intro run_behavior_Returns [where s = s]) (simp_all add: enter_state_def)
  thus ?thesis using Some by (auto simp: handleEvent_def executeTransition_def)
qed (simp add: handleEvent_def)

text \<open>A node named \<open>a\<close> whose states, votes and collections are just their rank.\<close>

definition demo_providers :: "u64 \<Rightarrow> u64 option \<Rightarrow> (u64, u64, string, u64) providers" where
  "demo_providers synced proof =
     \<lparr>rankState = id, rankVote = id, rankCollected = id, identityVote = (\<lambda>_. ''v''),
      identityPeer = id, minimumProvers = 0, synchronize = Some (\<lambda>_. SyncState (Some synced)),
      getNextLeaders = (\<lambda>_. Some [''a'']), proveNextState = (\<lambda>_ _. proof), collect = Some (synced + 1),
      sendLiveness = (\<lambda>_ _. True), sendProposal = (\<lambda>_. True),
      decideAndSendVote = (\<lambda>_. Some (''a'', synced + 1)), isQuorum = (\<lambda>_. Some True),
      finalizeVotes = (\<lambda>_ _. Some (synced + 1, ''a'')), sendConfirmation = (\<lambda>_. True),
      during = (\<lambda>_. [])\<rparr>"

definition demo_schedule ::
  "((u64, u64, string, u64) providers \<times> (u64, u64, string, u64) act) list" where
  "demo_schedule =
     (let p = demo_providers 0 (Some 1); q = demo_providers 1 None
      in [(p, Send EventStart), (p, Process 0), (p, Fire), (p, Process 0), (p, Process 0),
          (p, Process 0), (p, Process 0), (p, Send EventInduceSync), (q, Process 1),
          (q, Process 1), (q, Process 1), (q, Process 1), (q, Process 0)])"

lemma fold_processEvents_reachable: "reachable r \<Longrightarrow> reachable (fold processEvents acts r)"
  by (induction acts arbitrary: r) (auto intro: reachable_step)

lemma fold_Stuck: "fold processEvents acts (Stuck sm) = Stuck sm"
  by (induction acts) auto

fun is_running :: "'s run \<Rightarrow> bool" where
  "is_running (Running s) = True"
| "is_running (Ended s) = False"
| "is_running (Stuck s) = False"

fun is_stuck :: "'s run \<Rightarrow> bool" where
  "is_stuck (Running s) = False"
| "is_stuck (Ended s) = False"
| "is_stuck (Stuck s) = True"

lemma is_running_iff: "is_running r \<longleftrightarrow> r = Running (machine_of r)"
  by (cases r) auto

lemma is_stuck_iff: "is_stuck r \<longleftrightarrow> r = Stuck (machine_of r)"
  by (cases r) auto

definition demo_run :: "nat \<Rightarrow> (u64, u64, string, u64) machine run" where
  "demo_run n = fold processEvents (take n demo_schedule) (Running (NewStateMachine ''a'' (Some 0) False))"

lemma demo_run_reachable: "reachable (demo_run n)"
  by (simp add: demo_run_def fold_processEvents_reachable reachable_new)

text \<open>Claim C20. The mutex is not always given back. A node synchronises and proves its proposal; before
  the event announcing the proof is handled, a sync is induced and the node arrives in
  Proving again one rank later, where no proof is produced; the old event then takes it to
  Publishing, whose behaviour returns with the mutex held as there is no proposal of its own to
  send. The machine has an active state and can never take another step.\<close>

theorem stale_proof_event_hangs:
  "\<exists>sm :: (u64, u64, string, u64) machine. reachable (Stuck sm) \<and> machineState sm = StatePublishing \<and>
     activeState sm = Some 1 \<and> (\<forall>acts. fold processEvents acts (Stuck sm) = Stuck sm)"
proof -
  have "is_stuck (demo_run 13)" by code_simp
  hence "reachable (Stuck (machine_of (demo_run 13)))"
    using demo_run_reachable [of 13] by (simp add: is_stuck_iff)
  moreover have "machineState (machine_of (demo_run 13)) = StatePublishing" by code_simp
  moreover have "activeState (machine_of (demo_run 13)) = Some 1" by code_simp
  ultimately show ?thesis using fold_Stuck by blast
qed

section \<open>Witnesses\<close>

definition demo_machine :: "State \<Rightarrow> Event list \<Rightarrow> (u64, u64, string, u64) machine" where
  "demo_machine s es = (NewStateMachine ''a'' (Some 0) False)\<lparr>machineState := s, eventChan := es,
     chosenProposer := Some ''a'', votes := put 1 ''b'' 1 fmempty,
     proposals := put 1 ''a'' 1 fmempty\<rparr>"


theorem recorded_vote_is_final_witness:
  "let sm = machine_of (processEvents (demo_providers 0 None, Call (CallReceiveVote ''a'' ''b'' 1))
         (Running (demo_machine StateVoting [])))
   in fmlookup (at_rank (votes sm) 1) ''b'' = Some 1 \<or> fmlookup (votes sm) 1 = None \<and>
     map_option (rankState (demo_providers 0 None)) (activeState sm) = Some 1"
  unfolding Let_def by (rule recorded_vote_is_final) code_simp+

theorem quorum_event_needs_quorum_witness:
  "\<exists>s. let sm' = machine_of (processEvents (demo_providers 0 None, Process 0)
           (Running (demo_machine StateVoting [EventVoteReceived]))) in
    activeState sm' = Some s \<and> chosenProposer sm' \<noteq> None \<and>
    isQuorum (demo_providers 0 None) (at_rank (votes sm') (rankState (demo_providers 0 None) s + 1)) = Some True \<and>
    sint (minimumProvers (demo_providers 0 None)) \<le>
      count (at_rank (proposals sm') (rankState (demo_providers 0 None) s + 1))"
  by (rule quorum_event_needs_quorum) code_simp

theorem active_state_origin_witness:
  "let sm = demo_machine StateStarting [EventInitComplete];
       sm' = machine_of (processEvents (demo_providers 1 None, Process 0) (Running sm))
   in (\<exists>sync. synchronize (demo_providers 1 None) = Some sync \<and>
         sync (activeState sm) = SyncState (activeState sm')) \<or>
      (\<exists>n. nextState sm = Some n \<and> activeState sm' = Some n \<and> nextState sm' = None \<and>
       collected sm' = None \<and> rankState (demo_providers 1 None) n |\<notin>| fmdom (liveness sm') \<and>
       rankState (demo_providers 1 None) n |\<notin>| fmdom (proposals sm') \<and>
       rankState (demo_providers 1 None) n |\<notin>| fmdom (votes sm') \<and>
       rankState (demo_providers 1 None) n |\<notin>| fmdom (confirmations sm'))"
  unfolding Let_def
  by (rule active_state_origin [where r = "Running (demo_machine StateStarting [EventInitComplete])" and a = "Process 0"])
    (simp, simp, code_simp)

theorem handleEvent_releases_mutex_witness:
  "\<exists>sm'. snd (handleEvent (demo_providers 0 None) EventProofComplete (demo_machine StateProving [])) = Running sm'"
  by (rule handleEvent_releases_mutex [where s = 0]) code_simp+

end
