(* ===== verification/Kv_Store.thy ===== *)
theory Kv_Store
  imports Prelude
begin

text \<open>
  The contract the tries of \<^verbatim>\<open>types/tries\<close> keep towards their clients: a finite map with lookup,
  insertion and deletion. A store may only promise its laws for key sets it can tell apart,
  which is what \<open>admissible\<close> says. Client lemmas are proved here once, for every store.
\<close>

locale kv_store =
  fixes inv :: "'t \<Rightarrow> bool"
    and abs :: "'t \<Rightarrow> 'k \<Rightarrow> 'v option"
    and admissible :: "'k set \<Rightarrow> bool"
    and empty :: 't
    and get :: "'t \<Rightarrow> 'k \<Rightarrow> 'v option"
    and put :: "'t \<Rightarrow> 'k \<Rightarrow> 'v \<Rightarrow> 't"
    and del :: "'t \<Rightarrow> 'k \<Rightarrow> 't"
  assumes admissible_mono: "admissible K \<Longrightarrow> K' \<subseteq> K \<Longrightarrow> admissible K'"
    and inv_empty: "inv empty"
    and abs_empty: "abs empty = Map.empty"
    and get_abs: "inv t \<Longrightarrow> get t k = abs t k"
    and inv_put: "inv t \<Longrightarrow> admissible (insert k (dom (abs t))) \<Longrightarrow> inv (put t k v)"
    and abs_put: "inv t \<Longrightarrow> admissible (insert k (dom (abs t))) \<Longrightarrow> abs (put t k v) = (abs t)(k \<mapsto> v)"
    and inv_del: "inv t \<Longrightarrow> inv (del t k)"
    and abs_del: "inv t \<Longrightarrow> abs (del t k) = (abs t)(k := None)"
begin

lemma get_put:
  assumes "inv t" "admissible (insert k (dom (abs t)))"
  shows "get (put t k v) k' = (if k' = k then Some v else get t k')"
  using assms by (simp add: get_abs inv_put abs_put)

lemma get_del: "inv t \<Longrightarrow> get (del t k) k' = (if k' = k then None else get t k')"
  by (simp add: get_abs inv_del abs_del)

lemma get_empty: "get empty k = None"
  by (simp add: get_abs inv_empty abs_empty)

lemma put_changes_nothing:
  assumes "inv t" "admissible (insert k (dom (abs t)))" "get t k = Some v"
  shows "get (put t k v) = get t"
  using assms by (auto simp: get_put)

lemma del_put_cancel:
  assumes "inv t" "admissible (insert k (dom (abs t)))" "get t k = None"
  shows "get (del (put t k v) k) = get t"
  using assms by (auto simp: get_put get_del inv_put)

text \<open>A run of updates, each one a deletion or a write computed from the value read.\<close>

definition exec :: "('k \<times> ('v option \<Rightarrow> 'v) option) \<Rightarrow> 't \<Rightarrow> 't" where
  "exec op t = (case op of (k, None) \<Rightarrow> del t k | (k, Some f) \<Rightarrow> put t k (f (get t k)))"

definition spec :: "('k \<times> ('v option \<Rightarrow> 'v) option) \<Rightarrow> ('k \<Rightarrow> 'v option) \<Rightarrow> 'k \<Rightarrow> 'v option" where
  "spec op m = (case op of (k, None) \<Rightarrow> m(k := None) | (k, Some f) \<Rightarrow> m(k \<mapsto> f (m k)))"

lemma exec_refines:
  assumes "inv t" "admissible (insert (fst op) (dom (abs t)))"
  shows "inv (exec op t) \<and> abs (exec op t) = spec op (abs t)"
  using assms by (auto simp: exec_def spec_def inv_put abs_put inv_del abs_del get_abs
      split: prod.split option.split)

lemma dom_spec: "dom (spec op m) \<subseteq> insert (fst op) (dom m)"
  by (auto simp: spec_def split: prod.splits option.splits if_splits)

lemma run_refines:
  assumes "inv t" "admissible (fst ` set ops \<union> dom (abs t))"
  shows "inv (fold exec ops t) \<and> abs (fold exec ops t) = fold spec ops (abs t)"
  using assms
proof (induction ops arbitrary: t)
  case (Cons op ops)
  have step: "inv (exec op t) \<and> abs (exec op t) = spec op (abs t)"
    using Cons.prems by (intro exec_refines) (auto elim: admissible_mono)
  have "admissible (fst ` set ops \<union> dom (abs (exec op t)))"
    using Cons.prems(2) step dom_spec [of op "abs t"] by (auto elim!: admissible_mono)
  thus ?case using Cons.IH [of "exec op t"] step by simp
qed simp

end

end
