(* ===== verification/Critbit_Trie.thy ===== *)
theory Critbit_Trie
  imports Kv_Store "HOL-Library.Sublist" "HOL-Library.Multiset"
begin

unbundle bit_operations_syntax

text \<open>
  The crit-bit tree of \<^verbatim>\<open>types/tries/critbit_trie.go\<close>. An inner node tests one bit of a key: the
  byte position \<open>Pos\<close> and the mask \<open>Other\<close>, which has all bits set but the tested one (and all
  bits set for the test whether the key has a byte there at all). A tree is a value here;
  the pointer the code writes through is the place the recursion rebuilds.
\<close>

section \<open>The tree\<close>

record Value =
  Key :: bytes
  EarliestFrame :: u64
  LatestFrame :: u64
  Count :: u64

datatype Node = INode Node Node nat u8 | ENode bytes Value

record Tree =
  Root :: "Node option"
  Size :: int

definition New :: Tree where
  "New = \<lparr>Root = None, Size = 0\<rparr>"

definition Len :: "Tree \<Rightarrow> int" where
  "Len t = Size t"

definition direction :: "bytes \<Rightarrow> nat \<Rightarrow> u8 \<Rightarrow> nat" where
  "direction k pos other =
     (if pos < length k then (1 + unat (other OR (k ! pos))) div 256
      else if other = 0xff then 0
      else (1 + unat (other OR 0)) div 256)"

text \<open>The leaf a key leads to, and the last inner node on the way that tests a byte of the key
  (or the first inner node).\<close>

fun lookup_from :: "bytes \<Rightarrow> Node option \<Rightarrow> Node \<Rightarrow> (bytes \<times> Value) \<times> Node option" where
  "lookup_from k tp (ENode key v) = ((key, v), tp)"
| "lookup_from k tp (INode c0 c1 pos other) =
     (let tp' = (if tp = None \<or> pos < length k then Some (INode c0 c1 pos other) else tp)
      in lookup_from k tp' (if direction k pos other = 0 then c0 else c1))"

definition lookup :: "Tree \<Rightarrow> bytes \<Rightarrow> ((bytes \<times> Value) \<times> Node option) option" where
  "lookup t k = map_option (lookup_from k None) (Root t)"

definition Get :: "Tree \<Rightarrow> bytes \<Rightarrow> Value option" where
  "Get t k = (case lookup t k of
      None \<Rightarrow> None
    | Some ((key, v), _) \<Rightarrow> if k = key then Some v else None)"

text \<open>The loop of \<^verbatim>\<open>findFirstDiffByte\<close> from position \<open>pos\<close> on; \<open>None\<close> is a match.\<close>

function findFirstDiffByte_from :: "bytes \<Rightarrow> bytes \<Rightarrow> nat \<Rightarrow> (nat \<times> u8) option" where
  "findFirstDiffByte_from k key pos =
     (if pos < length k
      then (let byt = (if pos < length key then key ! pos else 0)
            in if byt \<noteq> k ! pos then Some (pos, byt XOR (k ! pos))
               else findFirstDiffByte_from k key (pos + 1))
      else if pos < length key then Some (pos, key ! pos)
      else if pos = length key then None
      else Some (pos - 1, 0))"
  by pat_completeness auto
termination by (relation "measure (\<lambda>(k, key, pos). length k - pos)") auto

declare findFirstDiffByte_from.simps [simp del]

definition findFirstDiffByte :: "bytes \<Rightarrow> bytes \<Rightarrow> (nat \<times> u8) option" where
  "findFirstDiffByte k key = findFirstDiffByte_from k key 0"

text \<open>The mask that Insert computes from the differing bits: all bits but the highest one.\<close>

definition smear :: "u8 \<Rightarrow> u8" where
  "smear other =
     (let a = other OR drop_bit 1 other; b = a OR drop_bit 2 a in b OR drop_bit 4 b)"

definition crit_mask :: "u8 \<Rightarrow> u8" where
  "crit_mask other = (let s = smear other in NOT (s AND NOT (drop_bit 1 s)))"

text \<open>The write \<^verbatim>\<open>n.Value = v\<close> to the leaf that \<open>lookup\<close> returns.\<close>

fun set_value :: "bytes \<Rightarrow> Value \<Rightarrow> Node \<Rightarrow> Node" where
  "set_value k v (ENode key _) = ENode key v"
| "set_value k v (INode c0 c1 pos other) =
     (if direction k pos other = 0 then INode (set_value k v c0) c1 pos other
      else INode c0 (set_value k v c1) pos other)"

text \<open>A new inner node above \<open>child\<close>, which goes to side \<open>di\<close>, and the new leaf to the other.\<close>

definition split_node :: "bytes \<Rightarrow> Value \<Rightarrow> nat \<Rightarrow> u8 \<Rightarrow> nat \<Rightarrow> Node \<Rightarrow> Node" where
  "split_node key v pos other di child =
     (if di = 0 then INode child (ENode key v) pos other else INode (ENode key v) child pos other)"

text \<open>\<^verbatim>\<open>findInsertPos\<close> and the write through the pointer it returns.\<close>

fun insert_at :: "bytes \<Rightarrow> Value \<Rightarrow> nat \<Rightarrow> u8 \<Rightarrow> nat \<Rightarrow> Node \<Rightarrow> Node" where
  "insert_at k v pos other di (ENode key w) = split_node k v pos other di (ENode key w)"
| "insert_at k v pos other di (INode c0 c1 p o') =
     (if p > pos \<or> (p = pos \<and> o' > other) then split_node k v pos other di (INode c0 c1 p o')
      else if direction k p o' = 0 then INode (insert_at k v pos other di c0) c1 p o'
      else INode c0 (insert_at k v pos other di c1) p o')"

definition Insert :: "Tree \<Rightarrow> bytes \<Rightarrow> Value \<Rightarrow> (Value option \<times> bool) \<times> Tree" where
  "Insert t k v =
     (case Root t of
        None \<Rightarrow> ((None, True), t\<lparr>Root := Some (ENode k v), Size := Size t + 1\<rparr>)
      | Some r \<Rightarrow>
          let ((key, orig), _) = lookup_from k None r
          in (case findFirstDiffByte k key of
                None \<Rightarrow> ((Some orig, True), t\<lparr>Root := Some (set_value k v r)\<rparr>)
              | Some (pos, other) \<Rightarrow>
                  let o' = crit_mask other; di = direction key pos o'
                  in ((None, True),
                      t\<lparr>Root := Some (insert_at k v pos o' di r), Size := Size t + 1\<rparr>)))"

text \<open>The tree without the leaf a key leads to: its parent is replaced by the other child.\<close>

fun delete_leaf :: "bytes \<Rightarrow> Node \<Rightarrow> Node option" where
  "delete_leaf k (ENode key v) = None"
| "delete_leaf k (INode c0 c1 pos other) =
     (if direction k pos other = 0
      then (case delete_leaf k c0 of None \<Rightarrow> Some c1 | Some c \<Rightarrow> Some (INode c c1 pos other))
      else (case delete_leaf k c1 of None \<Rightarrow> Some c0 | Some c \<Rightarrow> Some (INode c0 c pos other)))"

fun find_leaf :: "bytes \<Rightarrow> Node \<Rightarrow> bytes \<times> Value" where
  "find_leaf k (ENode key v) = (key, v)"
| "find_leaf k (INode c0 c1 pos other) = find_leaf k (if direction k pos other = 0 then c0 else c1)"

definition Delete :: "Tree \<Rightarrow> bytes \<Rightarrow> (Value option \<times> bool) \<times> Tree" where
  "Delete t k =
     (case Root t of
        None \<Rightarrow> ((None, False), t)
      | Some r \<Rightarrow>
          let (key, v) = find_leaf k r
          in if k \<noteq> key then ((None, False), t)
             else ((Some v, True), t\<lparr>Root := delete_leaf k r, Size := Size t - 1\<rparr>))"

definition Clear :: "Tree \<Rightarrow> bool \<times> Tree" where
  "Clear t = (if Root t \<noteq> None then (True, t\<lparr>Root := None, Size := 0\<rparr>) else (False, t))"

fun leftmost :: "Node \<Rightarrow> bytes \<times> Value" where
  "leftmost (ENode k v) = (k, v)"
| "leftmost (INode c0 c1 _ _) = leftmost c0"

fun rightmost :: "Node \<Rightarrow> bytes \<times> Value" where
  "rightmost (ENode k v) = (k, v)"
| "rightmost (INode c0 c1 _ _) = rightmost c1"

definition Minimum :: "Tree \<Rightarrow> (bytes \<times> Value) option" where
  "Minimum t = map_option leftmost (Root t)"

definition Maximum :: "Tree \<Rightarrow> (bytes \<times> Value) option" where
  "Maximum t = map_option rightmost (Root t)"

fun longestPrefix :: "Node \<Rightarrow> bytes \<Rightarrow> (bytes \<times> Value) option" where
  "longestPrefix (ENode k v) pfx = (if prefix k pfx then Some (k, v) else None)"
| "longestPrefix (INode c0 c1 pos other) pfx =
     (let c = (if pos < length pfx then pfx ! pos else 0);
          di = (1 + unat (other OR c)) div 256
      in case longestPrefix (if di = 0 then c0 else c1) pfx of
           Some r \<Rightarrow> Some r
         | None \<Rightarrow> if di = 1 then longestPrefix c0 pfx else None)"

definition LongestPrefix :: "Tree \<Rightarrow> bytes \<Rightarrow> (bytes \<times> Value) option" where
  "LongestPrefix t pfx = (case Root t of None \<Rightarrow> None | Some r \<Rightarrow> longestPrefix r pfx)"

text \<open>A walk threads the callback's own state; the callback says when to stop.\<close>

type_synonym 's walkFn = "bytes \<Rightarrow> Value \<Rightarrow> 's \<Rightarrow> bool \<times> 's"

fun walk :: "'s walkFn \<Rightarrow> Node \<Rightarrow> 's \<Rightarrow> bool \<times> 's" where
  "walk fn (ENode k v) s = fn k v s"
| "walk fn (INode c0 c1 _ _) s =
     (case walk fn c0 s of (True, s') \<Rightarrow> (True, s') | (False, s') \<Rightarrow> walk fn c1 s')"

definition Walk :: "'s walkFn \<Rightarrow> Tree \<Rightarrow> 's \<Rightarrow> 's" where
  "Walk fn t s = (case Root t of None \<Rightarrow> s | Some r \<Rightarrow> snd (walk fn r s))"

text \<open>
  With a single leaf there is no inner node: the nil \<^verbatim>\<open>*INode\<close> that \<open>lookup\<close> returns is wrapped
  in a non-nil interface, passes the nil check of \<^verbatim>\<open>walk\<close> and is dereferenced. \<open>None\<close> is that panic.
\<close>

definition WalkPrefix :: "bytes \<Rightarrow> 's walkFn \<Rightarrow> Tree \<Rightarrow> 's \<Rightarrow> 's option" where
  "WalkPrefix pfx fn t s =
     (case lookup t pfx of
        None \<Rightarrow> Some s
      | Some ((key, _), tp) \<Rightarrow>
          if \<not> prefix pfx key then Some s
          else (case tp of
                  None \<Rightarrow> None
                | Some n \<Rightarrow>
                    Some (snd (walk (\<lambda>k v s. if prefix pfx k then fn k v s else (False, s)) n s))))"

fun walkPath :: "bytes \<Rightarrow> 's walkFn \<Rightarrow> Node \<Rightarrow> 's \<Rightarrow> bool \<times> 's" where
  "walkPath path fn (ENode k v) s = (if prefix k path then fn k v s else (False, s))"
| "walkPath path fn (INode c0 c1 pos other) s =
     (if direction path pos other = 1
      then (case walkPath path fn c0 s of
              (True, s') \<Rightarrow> (True, s')
            | (False, s') \<Rightarrow> walkPath path fn c1 s')
      else walkPath path fn c0 s)"

definition WalkPath :: "bytes \<Rightarrow> 's walkFn \<Rightarrow> Tree \<Rightarrow> 's \<Rightarrow> 's" where
  "WalkPath path fn t s = (case Root t of None \<Rightarrow> s | Some r \<Rightarrow> snd (walkPath path fn r s))"

section \<open>Keys as bit strings\<close>

definition pad_byte :: "bytes \<Rightarrow> nat \<Rightarrow> u8" where
  "pad_byte k i = (if i < length k then k ! i else 0)"

text \<open>The bits of a key, highest bit of the first byte first, zeros after its end.\<close>

definition kbit :: "bytes \<Rightarrow> nat \<Rightarrow> bool" where
  "kbit k m = bit (pad_byte k (m div 8)) (7 - m mod 8)"

definition node_mask :: "nat \<Rightarrow> u8" where
  "node_mask j = NOT (push_bit (7 - j) 1)"

lemma bit_node_mask: "bit (node_mask j) n \<longleftrightarrow> n < 8 \<and> n \<noteq> 7 - j"
  by (auto simp: node_mask_def bit_simps)

lemma kbit_index: "j < 8 \<Longrightarrow> kbit k (8 * pos + j) = bit (pad_byte k pos) (7 - j)"
  by (simp add: kbit_def)

lemma unat_full_u8: "(1 + unat (w :: u8)) div 256 = of_bool (w = - 1)"
proof -
  have "unat w < 256" using unsigned_less [of w] by simp
  moreover have "unat w = 255 \<longleftrightarrow> w = - 1"
  proof -
    have "unat (- 1 :: u8) = 255" by code_simp
    thus ?thesis by (metis word_unat_eq_iff)
  qed
  ultimately show ?thesis by (cases "unat w = 255") auto
qed

lemma node_mask_or: "j < 8 \<Longrightarrow> node_mask j OR c = - 1 \<longleftrightarrow> bit c (7 - j)"
proof -
  assume j: "j < 8"
  have "node_mask j OR c = - 1 \<longleftrightarrow> (\<forall>n < 8. n \<noteq> 7 - j \<or> bit c n)"
    by (auto simp: bit_eq_iff bit_simps bit_node_mask)
  thus ?thesis using j by auto
qed

lemma node_mask_not_full: "j < 8 \<Longrightarrow> node_mask j \<noteq> - 1"
  using node_mask_or [of j 0] by simp

lemma direction_mask: "j < 8 \<Longrightarrow> direction k pos (node_mask j) = of_bool (kbit k (8 * pos + j))"
  using node_mask_not_full [of j] unat_full_u8 [of "node_mask j"]
  by (auto simp: direction_def unat_full_u8 [unfolded plus_1_eq_Suc] node_mask_or kbit_index pad_byte_def)

lemma bit_u8_less: "bit (x :: u8) n \<Longrightarrow> n < 8"
  using bit_imp_le_length [of x n] by simp

lemma bit_smear:
  "bit (smear x) n \<longleftrightarrow> bit x n \<or> bit x (Suc n) \<or> bit x (Suc (Suc n)) \<or> bit x (Suc (Suc (Suc n))) \<or>
     bit x (n + 4) \<or> bit x (n + 5) \<or> bit x (n + 6) \<or> bit x (n + 7)"
  by (simp add: smear_def Let_def bit_simps add.commute)

lemma bit_smear_high:
  assumes "bit (x :: u8) b" "\<And>n. bit x n \<Longrightarrow> n \<le> b"
  shows "bit (smear x) n \<longleftrightarrow> n \<le> b"
proof
  assume "bit (smear x) n"
  thus "n \<le> b" unfolding bit_smear using assms(2) by fastforce
next
  assume "n \<le> b"
  moreover have "b < 8" using assms(1) by (rule bit_u8_less)
  ultimately have "b \<in> {n, Suc n, Suc (Suc n), Suc (Suc (Suc n)), n + 4, n + 5, n + 6, n + 7}" by auto
  thus "bit (smear x) n" unfolding bit_smear using assms(1) by blast
qed

lemma highest_bit:
  assumes "(x :: u8) \<noteq> 0"
  obtains b where "bit x b" "\<And>n. bit x n \<Longrightarrow> n \<le> b"
proof -
  have fin: "finite {n. bit x n}"
    by (rule finite_subset [of _ "{..<8}"]) (auto dest: bit_u8_less)
  have "{n. bit x n} \<noteq> {}" using assms by (auto simp: bit_eq_iff)
  thus ?thesis using Max_in [OF fin] Max_ge [OF fin] that by blast
qed

lemma crit_mask_eq:
  assumes "x \<noteq> 0"
  shows "\<exists>j < 8. crit_mask x = node_mask j \<and> bit x (7 - j) \<and> (\<forall>m < j. \<not> bit x (7 - m))"
proof -
  obtain b where b: "bit x b" and hi: "\<And>n. bit x n \<Longrightarrow> n \<le> b"
    using highest_bit [OF assms] by blast
  have b8: "b < 8" using b by (rule bit_u8_less)
  have "bit (crit_mask x) n \<longleftrightarrow> n < 8 \<and> n \<noteq> b" for n
    using b8 by (auto simp: crit_mask_def Let_def bit_simps bit_smear_high [OF b hi])
  hence "crit_mask x = node_mask (7 - b)"
    using b8 by (auto simp: bit_eq_iff bit_node_mask)
  moreover have "\<forall>m < 7 - b. \<not> bit x (7 - m)" using hi by fastforce
  ultimately show ?thesis using b b8 by (intro exI [of _ "7 - b"]) auto
qed

lemma node_mask_less: "j < 8 \<Longrightarrow> j' < 8 \<Longrightarrow> node_mask j < node_mask j' \<longleftrightarrow> j < j'"
proof -
  have "\<forall>j \<in> set [0..<8]. \<forall>j' \<in> set [0..<8]. node_mask j < node_mask j' \<longleftrightarrow> j < j'" by code_simp
  thus "j < 8 \<Longrightarrow> j' < 8 \<Longrightarrow> ?thesis" by simp
qed

lemma node_less:
  assumes "j < 8" "j' < 8"
  shows "(pos < p \<or> pos = p \<and> node_mask j < node_mask j') \<longleftrightarrow> 8 * pos + j < 8 * p + j'"
  using assms by (auto simp: node_mask_less)

section \<open>The first differing bit\<close>

definition no_zero_ext :: "bytes set \<Rightarrow> bool" where
  "no_zero_ext K \<longleftrightarrow> (\<forall>k \<in> K. \<forall>k' \<in> K. \<not> prefix (k @ [0]) k')"

lemma no_zero_ext_mono: "no_zero_ext K \<Longrightarrow> K' \<subseteq> K \<Longrightarrow> no_zero_ext K'"
  unfolding no_zero_ext_def by blast

lemma xor_eq_zero: "(a :: u8) XOR b = 0 \<longleftrightarrow> a = b"
  by (auto simp: bit_eq_iff bit_simps)

lemma zero_ext_prefix:
  assumes "length k < length k'" "\<forall>i \<le> length k. pad_byte k i = pad_byte k' i"
  shows "prefix (k @ [0]) k'"
proof -
  have "k ! i = k' ! i" if "i < length k" for i
    using that assms by (auto simp: pad_byte_def dest: spec [of _ i])
  hence "take (length k) k' = k" using assms(1) by (intro nth_equalityI) auto
  moreover have "k' ! length k = 0" using assms by (auto simp: pad_byte_def dest: spec [of _ "length k"])
  ultimately have "take (Suc (length k)) k' = k @ [0]"
    using assms(1) by (simp add: take_Suc_conv_app_nth)
  thus ?thesis by (metis take_is_prefix)
qed

lemma findFirstDiffByte_from_cases:
  assumes "\<forall>i < pos. pad_byte k i = pad_byte key i" "pos \<le> length k" "no_zero_ext {k, key}"
  shows "case findFirstDiffByte_from k key pos of
      None \<Rightarrow> k = key
    | Some (p, x) \<Rightarrow> (\<forall>i < p. pad_byte k i = pad_byte key i) \<and> x = pad_byte key p XOR pad_byte k p \<and> x \<noteq> 0"
  using assms
proof (induction k key pos rule: findFirstDiffByte_from.induct)
  case (1 k key pos)
  have zk: "\<not> prefix (k @ [0]) key" "\<not> prefix (key @ [0]) k"
    using 1(4) by (auto simp: no_zero_ext_def)
  consider (inside) "pos < length k" | (short) "pos = length k" "pos < length key"
    | (same) "pos = length k" "pos = length key" | (long) "pos = length k" "length key < pos"
    using 1(3) by linarith
  thus ?case
  proof cases
    case inside
    show ?thesis
    proof (cases "pad_byte key pos = k ! pos")
      case True
      hence "\<forall>i < pos + 1. pad_byte k i = pad_byte key i"
        using inside 1(2) by (auto simp: pad_byte_def less_Suc_eq)
      thus ?thesis
        using 1(1) [OF inside refl] True inside 1(4)
        by (simp add: findFirstDiffByte_from.simps [of k key pos] pad_byte_def Let_def)
    next
      case False
      thus ?thesis
        using inside 1(2)
        by (auto simp: findFirstDiffByte_from.simps [of k key pos] pad_byte_def Let_def xor_eq_zero)
    qed
  next
    case short
    have "key ! pos \<noteq> 0"
    proof
      assume "key ! pos = 0"
      hence "\<forall>i \<le> length k. pad_byte k i = pad_byte key i"
        using 1(2) short by (auto simp: le_less pad_byte_def)
      thus False using zero_ext_prefix [of k key] zk short by simp
    qed
    thus ?thesis using short 1(2) by (subst findFirstDiffByte_from.simps) (simp add: pad_byte_def)
  next
    case same
    hence "k = key" using 1(2) by (intro nth_equalityI) (auto simp: pad_byte_def)
    thus ?thesis using same by (subst findFirstDiffByte_from.simps) simp
  next
    case long
    hence "prefix (key @ [0]) k" using 1(2) by (intro zero_ext_prefix) auto
    thus ?thesis using zk by simp
  qed
qed

text \<open>The mask and the position that Insert computes name the first bit in which two keys differ.\<close>

lemma first_diff:
  assumes "no_zero_ext {k, key}" "findFirstDiffByte k key = Some (pos, x)"
  obtains j where "j < 8" "crit_mask x = node_mask j"
    "\<forall>m < 8 * pos + j. kbit k m = kbit key m" "kbit k (8 * pos + j) \<noteq> kbit key (8 * pos + j)"
proof -
  have d: "\<forall>i < pos. pad_byte k i = pad_byte key i" "x = pad_byte key pos XOR pad_byte k pos" "x \<noteq> 0"
    using findFirstDiffByte_from_cases [of 0 k key] assms by (auto simp: findFirstDiffByte_def)
  obtain j where j: "j < 8" "crit_mask x = node_mask j" "bit x (7 - j)" "\<forall>m < j. \<not> bit x (7 - m)"
    using crit_mask_eq [OF d(3)] by blast
  have "kbit k m = kbit key m" if "m < 8 * pos + j" for m
  proof (cases "m < 8 * pos")
    case True
    hence "m div 8 < pos" by simp
    thus ?thesis using d(1) by (simp add: kbit_def)
  next
    case False
    define i where "i = m - 8 * pos"
    have i: "m = 8 * pos + i" "i < j" using that False by (auto simp: i_def)
    hence "\<not> bit x (7 - i)" "i < 8" using j by auto
    thus ?thesis using d(2) by (simp add: i(1) kbit_index bit_simps)
  qed
  moreover have "kbit k (8 * pos + j) \<noteq> kbit key (8 * pos + j)"
    using j d(2) by (auto simp: kbit_index bit_simps)
  ultimately show ?thesis using j that by blast
qed

lemma no_diff: "no_zero_ext {k, key} \<Longrightarrow> findFirstDiffByte k key = None \<longleftrightarrow> k = key"
  using findFirstDiffByte_from_cases [of 0 k key]
  by (auto simp: findFirstDiffByte_def split: option.splits)

section \<open>The tree invariant\<close>

fun leaves :: "Node \<Rightarrow> (bytes \<times> Value) list" where
  "leaves (ENode k v) = [(k, v)]"
| "leaves (INode c0 c1 _ _) = leaves c0 @ leaves c1"

definition keys :: "Node \<Rightarrow> bytes set" where
  "keys n = fst ` set (leaves n)"

lemma keys_simps [simp]:
  "keys (ENode k v) = {k}" "keys (INode c0 c1 pos other) = keys c0 \<union> keys c1"
  by (auto simp: keys_def image_Un)

definition agree :: "nat \<Rightarrow> bytes set \<Rightarrow> bool" where
  "agree i K \<longleftrightarrow> (\<forall>k \<in> K. \<forall>k' \<in> K. \<forall>m < i. kbit k m = kbit k' m)"

text \<open>An inner node tests the first bit in which the keys below it differ.\<close>

fun node_wf :: "Node \<Rightarrow> bool" where
  "node_wf (ENode k v) = True"
| "node_wf (INode c0 c1 pos other) = (node_wf c0 \<and> node_wf c1 \<and>
     (\<exists>j < 8. other = node_mask j \<and> (\<forall>k \<in> keys c0. \<not> kbit k (8 * pos + j)) \<and>
        (\<forall>k \<in> keys c1. kbit k (8 * pos + j)) \<and> agree (8 * pos + j) (keys c0 \<union> keys c1)))"

lemma node_wf_INodeE:
  assumes "node_wf (INode c0 c1 pos other)"
  obtains j where "j < 8" "other = node_mask j" "node_wf c0" "node_wf c1"
    "\<forall>k \<in> keys c0. \<not> kbit k (8 * pos + j)" "\<forall>k \<in> keys c1. kbit k (8 * pos + j)"
    "agree (8 * pos + j) (keys c0 \<union> keys c1)"
    "\<And>k. direction k pos other = of_bool (kbit k (8 * pos + j))"
  using assms direction_mask by auto

lemma lookup_from_leaf: "fst (lookup_from k tp n) = find_leaf k n"
  by (induction n arbitrary: tp) (auto simp: Let_def)

lemma find_leaf_in: "find_leaf k n \<in> set (leaves n)"
  by (induction n) auto

lemma find_leaf_in_keys: "fst (find_leaf k n) \<in> keys n"
  using find_leaf_in by (auto simp: keys_def)

lemma find_leaf_key: "node_wf n \<Longrightarrow> k \<in> keys n \<Longrightarrow> fst (find_leaf k n) = k"
proof (induction n)
  case (INode c0 c1 pos other)
  obtain j where j: "node_wf c0" "node_wf c1" "\<forall>k \<in> keys c0. \<not> kbit k (8 * pos + j)"
    "\<forall>k \<in> keys c1. kbit k (8 * pos + j)" "direction k pos other = of_bool (kbit k (8 * pos + j))"
    using node_wf_INodeE [OF INode.prems(1)] by metis
  show ?case using INode.prems(2) INode.IH j by (cases "kbit k (8 * pos + j)") auto
qed simp

lemma leaves_distinct: "node_wf n \<Longrightarrow> distinct (map fst (leaves n))"
proof (induction n)
  case (INode c0 c1 pos other)
  then obtain j where "\<forall>k \<in> keys c0. \<not> kbit k (8 * pos + j)" "\<forall>k \<in> keys c1. kbit k (8 * pos + j)"
    using node_wf_INodeE by metis
  hence "keys c0 \<inter> keys c1 = {}" by blast
  thus ?case using INode by (auto simp: keys_def)
qed simp

lemma map_of_find_leaf:
  assumes "node_wf n"
  shows "map_of (leaves n) k = (if fst (find_leaf k n) = k then Some (snd (find_leaf k n)) else None)"
proof (cases "fst (find_leaf k n) = k")
  case True
  hence "(k, snd (find_leaf k n)) \<in> set (leaves n)" using find_leaf_in [of k n] by (metis prod.collapse)
  thus ?thesis using True leaves_distinct [OF assms] by simp
next
  case False
  hence "k \<notin> keys n" using find_leaf_key [OF assms] by blast
  thus ?thesis using False by (simp add: keys_def map_of_eq_None_iff)
qed

section \<open>Insertion and deletion\<close>

lemma keys_set_value: "keys (set_value k v n) = keys n"
  by (induction n) auto

lemma node_wf_set_value: "node_wf n \<Longrightarrow> node_wf (set_value k v n)"
  by (induction n) (auto simp: keys_set_value)

lemma find_leaf_set_value: "find_leaf k (set_value k v n) = (fst (find_leaf k n), v)"
  by (induction n) auto

lemma mset_set_value:
  "add_mset (find_leaf k n) (mset (leaves (set_value k v n))) =
     add_mset (fst (find_leaf k n), v) (mset (leaves n))"
  by (induction n) (auto simp: add_mset_commute)

lemma map_of_set_value:
  assumes "node_wf n" "fst (find_leaf k n) = k"
  shows "map_of (leaves (set_value k v n)) = (map_of (leaves n))(k \<mapsto> v)"
proof
  fix k'
  let ?xs = "leaves n" and ?ys = "leaves (set_value k v n)"
  have d: "distinct (map fst ?xs)" "distinct (map fst ?ys)"
    using assms leaves_distinct node_wf_set_value by blast+
  have "insert (find_leaf k n) (set ?ys) = insert (k, v) (set ?xs)"
    using mset_set_value [of k n v] assms(2) by (metis set_mset_add_mset_insert set_mset_mset)
  hence eq: "(k', w) \<in> set ?ys \<longleftrightarrow> (k', w) \<in> set ?xs" if "k' \<noteq> k" for w
    using that assms(2) by (metis fst_conv insert_iff)
  show "map_of ?ys k' = ((map_of ?xs)(k \<mapsto> v)) k'"
  proof (cases "k' = k")
    case True
    thus ?thesis
      using map_of_find_leaf [OF node_wf_set_value [OF assms(1)], of k v k] assms(2)
      by (simp add: find_leaf_set_value)
  next
    case False
    have "map_of ?ys k' = Some w \<longleftrightarrow> map_of ?xs k' = Some w" for w
      using eq [OF False] d by simp
    thus ?thesis using False by (metis fun_upd_apply not_Some_eq)
  qed
qed

lemma mset_insert_at: "mset (leaves (insert_at k v pos other di n)) = add_mset (k, v) (mset (leaves n))"
  by (induction n) (auto simp: split_node_def)

lemma keys_insert_at: "keys (insert_at k v pos other di n) = insert k (keys n)"
proof -
  have "set (leaves (insert_at k v pos other di n)) = insert (k, v) (set (leaves n))"
    using mset_insert_at [of k v pos other di n] by (metis set_mset_add_mset_insert set_mset_mset)
  thus ?thesis by (simp add: keys_def)
qed

lemma agree_insert: "agree i K \<Longrightarrow> k' \<in> K \<Longrightarrow> \<forall>m < i. kbit k m = kbit k' m \<Longrightarrow> agree i (insert k K)"
  unfolding agree_def by (metis insert_iff)

lemma agree_mono: "agree i K \<Longrightarrow> K' \<subseteq> K \<Longrightarrow> i' \<le> i \<Longrightarrow> agree i' K'"
  unfolding agree_def by (meson less_le_trans subsetD)

lemma node_wf_INode:
  assumes "node_wf c0" "node_wf c1" "j < 8" "\<forall>k \<in> keys c0. \<not> kbit k (8 * pos + j)"
    "\<forall>k \<in> keys c1. kbit k (8 * pos + j)" "agree (8 * pos + j) (keys c0 \<union> keys c1)"
  shows "node_wf (INode c0 c1 pos (node_mask j))"
  using assms by auto

lemma node_wf_split:
  assumes "node_wf n" "j < 8" "agree (Suc (8 * pos + j)) (keys n)" "key \<in> keys n"
    "\<forall>m < 8 * pos + j. kbit k m = kbit key m" "kbit k (8 * pos + j) \<noteq> kbit key (8 * pos + j)"
  shows "node_wf (split_node k v pos (node_mask j) (of_bool (kbit key (8 * pos + j))) n)"
proof -
  have side: "\<forall>k' \<in> keys n. kbit k' (8 * pos + j) = kbit key (8 * pos + j)"
    using assms(3,4) unfolding agree_def by blast
  have ag: "agree (8 * pos + j) (insert k (keys n))"
    using assms(3-5) by (intro agree_insert [of _ _ key]) (auto elim: agree_mono)
  show ?thesis
  proof (cases "kbit key (8 * pos + j)")
    case True
    thus ?thesis using assms(1,2,6) side ag by (simp add: split_node_def del: node_wf.simps)
        (rule node_wf_INode; simp)
  next
    case False
    thus ?thesis using assms(1,2,6) side ag by (simp add: split_node_def del: node_wf.simps)
        (rule node_wf_INode; simp)
  qed
qed

lemma node_wf_insert_at:
  assumes "node_wf n" "j < 8" "key = fst (find_leaf k n)"
    "\<forall>m < 8 * pos + j. kbit k m = kbit key m" "kbit k (8 * pos + j) \<noteq> kbit key (8 * pos + j)"
  shows "node_wf (insert_at k v pos (node_mask j) (of_bool (kbit key (8 * pos + j))) n)"
  using assms
proof (induction n)
  case (ENode key' w)
  thus ?case using node_wf_split [of "ENode key' w" j pos key k v] by (simp add: agree_def)
next
  case (INode c0 c1 p other)
  let ?n = "INode c0 c1 p other" and ?d = "8 * pos + j" and ?di = "of_bool (kbit key (8 * pos + j))"
  obtain j' where j: "j' < 8" "other = node_mask j'" "node_wf c0" "node_wf c1"
    "\<forall>k \<in> keys c0. \<not> kbit k (8 * p + j')" "\<forall>k \<in> keys c1. kbit k (8 * p + j')"
    "agree (8 * p + j') (keys c0 \<union> keys c1)" "direction k p other = of_bool (kbit k (8 * p + j'))"
    using node_wf_INodeE [OF INode.prems(1)] by metis
  have key: "key \<in> keys ?n" using find_leaf_in_keys [of k ?n] INode.prems(3) by simp
  have less: "(p > pos \<or> p = pos \<and> other > node_mask j) \<longleftrightarrow> ?d < 8 * p + j'"
    using INode.prems(2) j(1,2) node_less [of j j' pos p] by auto
  show ?case
  proof (cases "?d < 8 * p + j'")
    case True
    hence "agree (Suc ?d) (keys ?n)" using j(7) by (auto elim: agree_mono)
    hence "node_wf (split_node k v pos (node_mask j) ?di ?n)"
      using INode.prems key by (intro node_wf_split)
    thus ?thesis using True less by (simp del: node_wf.simps)
  next
    case False
    let ?c = "if kbit k (8 * p + j') then c1 else c0"
    have fk: "find_leaf k ?n = find_leaf k ?c" using j(8) by simp
    have "key \<in> keys ?c" using find_leaf_in_keys [of k ?c] INode.prems(3) fk by simp
    hence kk: "kbit key (8 * p + j') = kbit k (8 * p + j')" using j(5,6) by (auto split: if_splits)
    hence lt: "8 * p + j' < ?d" using False INode.prems(5) by (metis linorder_cases)
    hence ag: "agree (8 * p + j') (insert k (keys c0 \<union> keys c1))"
      using j(7) key INode.prems(4) by (intro agree_insert [of _ _ key]) auto
    have nless: "\<not> (p > pos \<or> p = pos \<and> other > node_mask j)" using False less by blast
    show ?thesis
    proof (cases "kbit k (8 * p + j')")
      case True
      have "insert_at k v pos (node_mask j) ?di ?n = INode c0 (insert_at k v pos (node_mask j) ?di c1) p other"
        unfolding insert_at.simps if_not_P [OF nless] using True j(8) by simp
      moreover have "node_wf (insert_at k v pos (node_mask j) ?di c1)"
        using True INode.IH(2) j(4) fk INode.prems by simp
      ultimately show ?thesis
        using True j ag node_wf_INode [of c0 "insert_at k v pos (node_mask j) ?di c1" j' p]
        by (simp add: keys_insert_at del: node_wf.simps)
    next
      case False
      have "insert_at k v pos (node_mask j) ?di ?n = INode (insert_at k v pos (node_mask j) ?di c0) c1 p other"
        unfolding insert_at.simps if_not_P [OF nless] using False j(8) by simp
      moreover have "node_wf (insert_at k v pos (node_mask j) ?di c0)"
        using False INode.IH(1) j(3) fk INode.prems by simp
      ultimately show ?thesis
        using False j ag node_wf_INode [of "insert_at k v pos (node_mask j) ?di c0" c1 j' p]
        by (simp add: keys_insert_at del: node_wf.simps)
    qed
  qed
qed

lemma delete_leaf_mset:
  "case delete_leaf k n of None \<Rightarrow> leaves n = [find_leaf k n]
   | Some n' \<Rightarrow> mset (leaves n) = add_mset (find_leaf k n) (mset (leaves n'))"
  by (induction n) (auto split: option.splits)

lemma delete_leaf_keys: "delete_leaf k n = Some n' \<Longrightarrow> keys n' \<subseteq> keys n"
  by (induction n arbitrary: n') (auto split: if_splits option.splits)

lemma node_wf_delete_leaf: "node_wf n \<Longrightarrow> delete_leaf k n = Some n' \<Longrightarrow> node_wf n'"
proof (induction n arbitrary: n')
  case (INode c0 c1 pos other)
  obtain j where j: "j < 8" "other = node_mask j" "node_wf c0" "node_wf c1"
    "\<forall>k \<in> keys c0. \<not> kbit k (8 * pos + j)" "\<forall>k \<in> keys c1. kbit k (8 * pos + j)"
    "agree (8 * pos + j) (keys c0 \<union> keys c1)"
    using node_wf_INodeE [OF INode.prems(1)] by metis
  have wf: "node_wf (INode c c' pos other)"
    if "node_wf c" "node_wf c'" "keys c \<subseteq> keys c0" "keys c' \<subseteq> keys c1" for c c'
  proof -
    have "agree (8 * pos + j) (keys c \<union> keys c')" using j(7) that by (auto elim!: agree_mono)
    thus ?thesis using that j(1,5,6) unfolding j(2) by (intro node_wf_INode) auto
  qed
  show ?case
    using INode.prems(2) INode.IH j(3,4)
    by (auto split: if_splits option.splits intro!: wf dest: delete_leaf_keys simp del: node_wf.simps)
qed simp

section \<open>The map a tree stands for\<close>

definition tree_leaves :: "Tree \<Rightarrow> (bytes \<times> Value) list" where
  "tree_leaves t = (case Root t of None \<Rightarrow> [] | Some r \<Rightarrow> leaves r)"

definition tree_map :: "Tree \<Rightarrow> bytes \<Rightarrow> Value option" where
  "tree_map t = map_of (tree_leaves t)"

definition tree_inv :: "Tree \<Rightarrow> bool" where
  "tree_inv t \<longleftrightarrow> (case Root t of None \<Rightarrow> True | Some r \<Rightarrow> node_wf r) \<and>
     Size t = int (length (tree_leaves t)) \<and> no_zero_ext (dom (tree_map t))"

lemma dom_tree_map: "dom (tree_map t) = (case Root t of None \<Rightarrow> {} | Some r \<Rightarrow> keys r)"
  by (auto simp: tree_map_def tree_leaves_def keys_def dom_map_of_conv_image_fst split: option.splits)

lemma Get_find_leaf:
  "Get t k = (case Root t of None \<Rightarrow> None
     | Some r \<Rightarrow> if fst (find_leaf k r) = k then Some (snd (find_leaf k r)) else None)"
proof (cases "Root t")
  case (Some r)
  thus ?thesis using lookup_from_leaf [of k None r]
    by (cases "lookup_from k None r"; cases "find_leaf k r") (auto simp: Get_def lookup_def)
qed (simp add: Get_def lookup_def)

lemma Get_map: "tree_inv t \<Longrightarrow> Get t k = tree_map t k"
  by (cases "Root t") (auto simp: Get_find_leaf tree_inv_def tree_map_def tree_leaves_def map_of_find_leaf)

lemma map_of_mset_eq:
  assumes "mset xs = mset ys" "distinct (map fst ys)"
  shows "map_of xs = map_of ys"
proof
  fix k
  have "distinct (map fst xs)" using assms by (metis mset_eq_imp_distinct_iff mset_map)
  hence "map_of xs k = Some v \<longleftrightarrow> map_of ys k = Some v" for v
    using assms mset_eq_setD [OF assms(1)] by simp
  thus "map_of xs k = map_of ys k" by (metis not_Some_eq)
qed

lemma Insert_map:
  assumes "tree_inv t" "no_zero_ext (insert k (dom (tree_map t)))"
  shows "tree_inv (snd (Insert t k v)) \<and> tree_map (snd (Insert t k v)) = (tree_map t)(k \<mapsto> v) \<and>
    fst (Insert t k v) = (tree_map t k, True)"
proof (cases "Root t")
  case None
  thus ?thesis using assms
    by (auto simp: Insert_def tree_inv_def tree_map_def tree_leaves_def)
next
  case (Some r)
  obtain key orig where key: "find_leaf k r = (key, orig)" by fastforce
  obtain tp where lk: "lookup_from k None r = ((key, orig), tp)"
    using lookup_from_leaf [of k None r] key by (metis prod.collapse)
  have wf: "node_wf r" using assms Some by (simp add: tree_inv_def)
  have "key \<in> keys r" using find_leaf_in_keys [of k r] key by simp
  hence z: "no_zero_ext {k, key}"
    using assms(2) Some by (auto simp: dom_tree_map elim: no_zero_ext_mono)
  show ?thesis
  proof (cases "findFirstDiffByte k key")
    case None
    hence "key = k" using no_diff [OF z] by simp
    hence "tree_map (t\<lparr>Root := Some (set_value k v r)\<rparr>) = (tree_map t)(k \<mapsto> v)"
      "tree_map t k = Some orig"
      using map_of_set_value [OF wf, of k v] map_of_find_leaf [OF wf, of k] key Some
      by (simp_all add: tree_map_def tree_leaves_def)
    moreover have "length (leaves (set_value k v r)) = length (leaves r)"
      using mset_set_value [of k r v] by (metis size_add_mset size_mset nat.inject)
    ultimately show ?thesis
      using None Some lk wf assms
      by (simp add: Insert_def tree_inv_def node_wf_set_value tree_leaves_def)
  next
    case (Some pd)
    obtain pos x where px: "findFirstDiffByte k key = Some (pos, x)" using Some by (cases pd) auto
    obtain j where j: "j < 8" "crit_mask x = node_mask j"
      "\<forall>m < 8 * pos + j. kbit k m = kbit key m" "kbit k (8 * pos + j) \<noteq> kbit key (8 * pos + j)"
      using first_diff [OF z px] by blast
    let ?n = "insert_at k v pos (node_mask j) (of_bool (kbit key (8 * pos + j))) r"
    have ins: "Insert t k v = ((None, True), t\<lparr>Root := Some ?n, Size := Size t + 1\<rparr>)"
      using \<open>Root t = Some r\<close> lk px j by (simp add: Insert_def direction_mask)
    have wfn: "node_wf ?n" using wf j key by (intro node_wf_insert_at) simp_all
    have "key \<noteq> k" using j(4) by blast
    hence kn: "k \<notin> keys r" using find_leaf_key [OF wf, of k] key by auto
    have ms: "mset (leaves ?n) = mset ((k, v) # leaves r)" by (simp add: mset_insert_at)
    have "map_of (leaves ?n) = map_of ((k, v) # leaves r)"
      using ms leaves_distinct [OF wf] kn by (intro map_of_mset_eq) (auto simp: keys_def)
    moreover have "length (leaves ?n) = Suc (length (leaves r))" using ms by (metis length_Cons size_mset)
    moreover have "map_of (leaves r) k = None" using kn by (simp add: keys_def map_of_eq_None_iff)
    ultimately show ?thesis
      using ins wfn assms \<open>Root t = Some r\<close> by (simp add: tree_inv_def tree_map_def tree_leaves_def)
  qed
qed

lemma Delete_map:
  assumes "tree_inv t"
  shows "tree_inv (snd (Delete t k)) \<and> tree_map (snd (Delete t k)) = (tree_map t)(k := None) \<and>
    fst (Delete t k) = (tree_map t k, tree_map t k \<noteq> None)"
proof (cases "Root t")
  case None
  thus ?thesis using assms by (auto simp: Delete_def tree_map_def tree_leaves_def)
next
  case (Some r)
  obtain key v where key: "find_leaf k r = (key, v)" by fastforce
  have wf: "node_wf r" using assms Some by (simp add: tree_inv_def)
  have m: "tree_map t k = (if key = k then Some v else None)"
    using map_of_find_leaf [OF wf, of k] key Some by (simp add: tree_map_def tree_leaves_def)
  show ?thesis
  proof (cases "key = k")
    case False
    thus ?thesis using m key Some assms by (auto simp: Delete_def)
  next
    case True
    let ?t = "t\<lparr>Root := delete_leaf k r, Size := Size t - 1\<rparr>"
    have ms: "mset (leaves r) = mset ((k, v) # tree_leaves ?t)"
      using delete_leaf_mset [of r k] key True by (auto simp: tree_leaves_def split: option.splits)
    have d: "distinct (map fst ((k, v) # tree_leaves ?t))"
      using ms leaves_distinct [OF wf] by (metis mset_eq_imp_distinct_iff mset_map)
    have "map_of (leaves r) = map_of ((k, v) # tree_leaves ?t)" by (rule map_of_mset_eq [OF ms d])
    moreover have "map_of (tree_leaves ?t) k = None" using d by (simp add: map_of_eq_None_iff)
    ultimately have mp: "tree_map ?t = (tree_map t)(k := None)"
      using Some by (auto simp: tree_map_def tree_leaves_def [of t])
    have "length (leaves r) = Suc (length (tree_leaves ?t))" using ms by (metis length_Cons size_mset)
    moreover have "no_zero_ext (dom (tree_map ?t))"
      using assms unfolding mp tree_inv_def by (auto elim: no_zero_ext_mono)
    ultimately have "tree_inv ?t"
      using wf assms Some node_wf_delete_leaf [OF wf, of k]
      by (auto simp: tree_inv_def tree_leaves_def [of t] split: option.splits)
    thus ?thesis using m True key Some mp by (simp add: Delete_def)
  qed
qed

lemma New_map: "tree_inv New" "tree_map New = Map.empty"
  by (auto simp: New_def tree_inv_def tree_map_def tree_leaves_def no_zero_ext_def)

interpretation critbit: kv_store tree_inv tree_map no_zero_ext New Get
  "\<lambda>t k v. snd (Insert t k v)" "\<lambda>t k. snd (Delete t k)"
  by unfold_locales (auto simp: Get_map Insert_map Delete_map New_map elim: no_zero_ext_mono)

section \<open>Order of the leaves\<close>

lemma pad_byte_eqI:
  assumes "\<forall>j < 8. kbit k (8 * i + j) = kbit k' (8 * i + j)"
  shows "pad_byte k i = pad_byte k' i"
proof -
  have "bit (pad_byte k i) n = bit (pad_byte k' i) n" if "n < 8" for n
    using assms [rule_format, of "7 - n"] that kbit_index [of "7 - n" k i] kbit_index [of "7 - n" k' i]
    by simp
  thus ?thesis by (auto simp: bit_eq_iff dest: bit_u8_less)
qed

lemma u8_less_bitI:
  assumes "\<not> bit (a :: u8) n" "bit b n" "\<And>m. n < m \<Longrightarrow> bit a m = bit b m"
  shows "a < b"
proof -
  have n: "n < 8" using assms(2) by (rule bit_u8_less)
  have "bit (uint a) m = bit (uint b) m" if "n < m" for m
    using assms(3) [OF that] by (simp add: bit_uint_iff)
  hence "drop_bit (Suc n) (uint a) = drop_bit (Suc n) (uint b)"
    by (auto simp: bit_eq_iff bit_simps)
  hence h: "uint a div 2 ^ n div 2 = uint b div 2 ^ n div 2"
    by (simp add: drop_bit_eq_div power_Suc2 zdiv_zmult2_eq del: power_Suc)
  have "\<not> bit (uint a) n" "bit (uint b) n" using assms(1,2) n by (simp_all add: bit_uint_iff)
  hence "even (uint a div 2 ^ n)" "odd (uint b div 2 ^ n)" by (simp_all add: bit_iff_odd)
  moreover have "A < B" if "even A" "odd B" "A div 2 = B div 2" for A B :: int
    using that by presburger
  ultimately have "uint a div 2 ^ n < uint b div 2 ^ n" using h by blast
  hence "uint a < uint b" by (meson linorder_not_less zdiv_mono1 zero_less_numeral zero_less_power)
  thus ?thesis by (simp add: word_less_def)
qed

definition bytes_less :: "bytes \<Rightarrow> bytes \<Rightarrow> bool" where
  "bytes_less k k' \<longleftrightarrow> (k, k') \<in> lexord {(a, b). a < b}"

lemma kbit_less:
  assumes "\<not> kbit k i" "kbit k' i" "\<forall>m < i. kbit k m = kbit k' m" "no_zero_ext {k, k'}"
  shows "bytes_less k k'"
proof -
  let ?p = "i div 8" and ?j = "i mod 8"
  have i: "i = 8 * ?p + ?j" "?j < 8" by simp_all
  have eq: "pad_byte k q = pad_byte k' q" if "q < ?p" for q
    using that assms(3) by (intro pad_byte_eqI) auto
  have lt: "pad_byte k ?p < pad_byte k' ?p"
  proof (rule u8_less_bitI [of _ "7 - ?j"])
    show "bit (pad_byte k ?p) m = bit (pad_byte k' ?p) m" if "7 - ?j < m" for m
    proof (cases "m < 8")
      case True
      hence "8 * ?p + (7 - m) < i" using i that by linarith
      hence "kbit k (8 * ?p + (7 - m)) = kbit k' (8 * ?p + (7 - m))" using assms(3) by blast
      thus ?thesis using True kbit_index [of "7 - m" k ?p] kbit_index [of "7 - m" k' ?p] by simp
    qed (auto dest: bit_u8_less)
  qed (use assms(1,2) kbit_index [of ?j _ ?p] in auto)
  hence p': "?p < length k'" by (auto simp: pad_byte_def split: if_splits)
  have le: "length k \<le> ?p \<Longrightarrow> length k = ?p"
  proof (rule ccontr)
    assume "length k \<le> ?p" "length k \<noteq> ?p"
    hence "prefix (k @ [0]) k'" using p' eq by (intro zero_ext_prefix) auto
    thus False using assms(4) by (simp add: no_zero_ext_def)
  qed
  have take: "take ?p k = take ?p k'" if "?p \<le> length k"
    using that p' eq by (intro nth_equalityI) (auto simp: pad_byte_def split: if_splits)
  show ?thesis
  proof (cases "?p < length k")
    case True
    have "k = take ?p k @ k ! ?p # drop (Suc ?p) k" "k' = take ?p k @ k' ! ?p # drop (Suc ?p) k'"
      using id_take_nth_drop [OF True] id_take_nth_drop [OF p'] take True by simp_all
    moreover have "(k ! ?p # drop (Suc ?p) k, k' ! ?p # drop (Suc ?p) k') \<in> lexord {(a, b). a < b}"
      using lt True p' by (simp add: pad_byte_def)
    ultimately show ?thesis unfolding bytes_less_def by (metis lexord_append_leftI)
  next
    case False
    hence "length k = ?p" using le by simp
    hence "k' = k @ k' ! ?p # drop (Suc ?p) k'" using take p' by (metis id_take_nth_drop order_refl take_all)
    thus ?thesis unfolding bytes_less_def by (metis lexord_append_rightI)
  qed
qed

lemma leaves_sorted:
  "node_wf n \<Longrightarrow> no_zero_ext (keys n) \<Longrightarrow> sorted_wrt bytes_less (map fst (leaves n))"
proof (induction n)
  case (INode c0 c1 pos other)
  obtain j where j: "node_wf c0" "node_wf c1" "\<forall>k \<in> keys c0. \<not> kbit k (8 * pos + j)"
    "\<forall>k \<in> keys c1. kbit k (8 * pos + j)" "agree (8 * pos + j) (keys c0 \<union> keys c1)"
    using node_wf_INodeE [OF INode.prems(1)] by metis
  have "bytes_less k k'" if "k \<in> keys c0" "k' \<in> keys c1" for k k'
  proof (rule kbit_less [of _ "8 * pos + j"])
    show "no_zero_ext {k, k'}" using INode.prems(2) that by (auto elim: no_zero_ext_mono)
    show "\<forall>m < 8 * pos + j. kbit k m = kbit k' m"
      using j(5) that unfolding agree_def by blast
  qed (use that j in auto)
  moreover have "no_zero_ext (keys c0)" "no_zero_ext (keys c1)"
    using INode.prems(2) by (auto elim: no_zero_ext_mono)
  ultimately show ?case using INode.IH j(1,2) by (auto simp: sorted_wrt_append keys_def)
qed simp

lemma leaves_ne: "leaves n \<noteq> []"
  by (induction n) auto

lemma leftmost_hd: "leftmost n = hd (leaves n)"
  by (induction n) (auto simp: leaves_ne)

lemma rightmost_last: "rightmost n = last (leaves n)"
  by (induction n) (auto simp: leaves_ne)

section \<open>Walks\<close>

fun visit :: "'s walkFn \<Rightarrow> (bytes \<times> Value) list \<Rightarrow> 's \<Rightarrow> bool \<times> 's" where
  "visit fn [] s = (False, s)"
| "visit fn ((k, v) # xs) s = (case fn k v s of (True, s') \<Rightarrow> (True, s') | (False, s') \<Rightarrow> visit fn xs s')"

lemma visit_append:
  "visit fn (xs @ ys) s = (case visit fn xs s of (True, s') \<Rightarrow> (True, s') | (False, s') \<Rightarrow> visit fn ys s')"
  by (induction fn xs s rule: visit.induct) (auto split: prod.splits bool.splits)

lemma visit_single: "visit fn [(k, v)] s = fn k v s"
  by (auto split: prod.splits bool.splits)

lemma walk_visit: "walk fn n s = visit fn (leaves n) s"
  by (induction n arbitrary: s)
    (auto simp: visit_append visit_single simp del: visit.simps split: prod.splits bool.splits)

lemma visit_filter:
  "visit (\<lambda>k v s. if P k then fn k v s else (False, s)) xs s = visit fn (filter (\<lambda>(k, v). P k) xs) s"
  by (induction xs arbitrary: s) (auto split: prod.splits bool.splits)

lemma filter_none: "\<forall>k \<in> keys n. \<not> P k \<Longrightarrow> filter (\<lambda>(k, v). P k) (leaves n) = []"
  by (force simp: filter_empty_conv keys_def)

lemma prefix_kbit:
  assumes "prefix k path" "kbit k i"
  shows "kbit path i"
proof -
  have "i div 8 < length k" using assms(2) by (auto simp: kbit_def pad_byte_def split: if_splits)
  thus ?thesis using assms by (auto simp: kbit_def pad_byte_def prefix_def nth_append)
qed

lemma walkPath_visit:
  "node_wf n \<Longrightarrow> walkPath path fn n s = visit fn (filter (\<lambda>(k, v). prefix k path) (leaves n)) s"
proof (induction n arbitrary: s)
  case (INode c0 c1 pos other)
  obtain j where j: "node_wf c0" "node_wf c1" "\<forall>k \<in> keys c1. kbit k (8 * pos + j)"
    "direction path pos other = of_bool (kbit path (8 * pos + j))"
    using node_wf_INodeE [OF INode.prems(1)] by metis
  show ?case
  proof (cases "kbit path (8 * pos + j)")
    case True
    thus ?thesis using j INode.IH by (simp add: visit_append split: prod.splits bool.splits)
  next
    case False
    have "\<forall>k \<in> keys c1. \<not> prefix k path" using False j(3) prefix_kbit by blast
    hence "filter (\<lambda>(k, v). prefix k path) (leaves c1) = []" by (rule filter_none)
    thus ?thesis using False j INode.IH by simp
  qed
qed (auto simp: visit_single simp del: visit.simps(2))

text \<open>Below a node that tests a byte of the prefix, the keys with the prefix are on its side.\<close>

lemma kbit_prefix:
  assumes "prefix pfx k" "i div 8 < length pfx"
  shows "kbit k i = kbit pfx i"
  using assms by (auto simp: kbit_def pad_byte_def prefix_def nth_append)

lemma agree_prefix:
  assumes "prefix pfx k" "\<forall>m < 8 * length pfx. kbit k m = kbit k' m" "no_zero_ext {k, k'}"
  shows "prefix pfx k'"
proof -
  have eq: "pad_byte k i = pad_byte k' i" if "i < length pfx" for i
    using that assms(2) by (intro pad_byte_eqI) auto
  have le: "length pfx \<le> length k" using assms(1) by (rule prefix_length_le)
  have "length pfx \<le> length k'"
  proof (rule ccontr)
    assume "\<not> length pfx \<le> length k'"
    hence "prefix (k' @ [0]) k" using le eq by (intro zero_ext_prefix) auto
    thus False using assms(3) by (simp add: no_zero_ext_def)
  qed
  hence "take (length pfx) k' = take (length pfx) k"
    using eq le by (intro nth_equalityI) (auto simp: pad_byte_def split: if_splits)
  moreover have "take (length pfx) k = pfx" using assms(1) by (auto simp: prefix_def)
  ultimately show ?thesis by (metis take_is_prefix)
qed

lemma filter_prefix_side:
  assumes "node_wf (INode c0 c1 pos other)" "pos < length pfx"
  shows "filter (\<lambda>(k, v). prefix pfx k) (leaves (INode c0 c1 pos other)) =
    filter (\<lambda>(k, v). prefix pfx k) (leaves (if direction pfx pos other = 0 then c0 else c1))"
proof -
  obtain j where j: "j < 8" "\<forall>k \<in> keys c0. \<not> kbit k (8 * pos + j)" "\<forall>k \<in> keys c1. kbit k (8 * pos + j)"
    "direction pfx pos other = of_bool (kbit pfx (8 * pos + j))"
    using node_wf_INodeE [OF assms(1)] by metis
  have side: "kbit k (8 * pos + j) = kbit pfx (8 * pos + j)" if "prefix pfx k" for k
    using that assms(2) j(1) by (intro kbit_prefix) auto
  have "\<forall>k \<in> keys (if direction pfx pos other = 0 then c1 else c0). \<not> prefix pfx k"
  proof (cases "kbit pfx (8 * pos + j)")
    case True
    hence "\<forall>k \<in> keys c0. \<not> prefix pfx k" using j(2) side by metis
    thus ?thesis using True j(4) by simp
  next
    case False
    hence "\<forall>k \<in> keys c1. \<not> prefix pfx k" using j(3) side by metis
    thus ?thesis using False j(4) by simp
  qed
  hence "filter (\<lambda>(k, v). prefix pfx k) (leaves (if direction pfx pos other = 0 then c1 else c0)) = []"
    by (rule filter_none)
  thus ?thesis by (auto split: if_splits)
qed

lemma keys_ne: "keys n \<noteq> {}"
  by (simp add: keys_def leaves_ne)

lemma child_pos:
  assumes "node_wf (INode c0 c1 pos other)" "INode d0 d1 pos' other' \<in> {c0, c1}"
  shows "pos \<le> pos'"
proof (rule ccontr)
  assume lt: "\<not> pos \<le> pos'"
  obtain j where j: "node_wf c0" "node_wf c1" "agree (8 * pos + j) (keys c0 \<union> keys c1)"
    using node_wf_INodeE [OF assms(1)] by metis
  have wf: "node_wf (INode d0 d1 pos' other')" using assms(2) j by auto
  obtain j' where j': "j' < 8" "\<forall>k \<in> keys d0. \<not> kbit k (8 * pos' + j')" "\<forall>k \<in> keys d1. kbit k (8 * pos' + j')"
    using node_wf_INodeE [OF wf] by metis
  obtain k k' where k: "k \<in> keys d0" "k' \<in> keys d1" using keys_ne by blast
  hence "k \<in> keys c0 \<union> keys c1" "k' \<in> keys c0 \<union> keys c1" using assms(2) by auto
  moreover have "8 * pos' + j' < 8 * pos + j" using lt j'(1) by simp
  ultimately have "kbit k (8 * pos' + j') = kbit k' (8 * pos' + j')" using j(3) unfolding agree_def by blast
  thus False using j' k by auto
qed

lemma lookup_top_filter:
  assumes "node_wf n" "lookup_from pfx (Some tp) n = (l, tp')"
    "case n of INode _ _ pos _ \<Rightarrow> pos < length pfx \<longrightarrow>
        filter (\<lambda>(k, v). prefix pfx k) (leaves n) = filter (\<lambda>(k, v). prefix pfx k) (leaves tp)
      | ENode _ _ \<Rightarrow> True"
  shows "\<exists>m. tp' = Some m \<and>
    filter (\<lambda>(k, v). prefix pfx k) (leaves m) = filter (\<lambda>(k, v). prefix pfx k) (leaves tp)"
  using assms
proof (induction n arbitrary: tp)
  case (INode c0 c1 pos other)
  let ?F = "\<lambda>n. filter (\<lambda>(k, v). prefix pfx k) (leaves n)" and ?n = "INode c0 c1 pos other"
  let ?c = "if direction pfx pos other = 0 then c0 else c1"
  let ?tp = "if pos < length pfx then ?n else tp"
  have lk: "lookup_from pfx (Some ?tp) ?c = (l, tp')"
    using INode.prems(2) by (auto simp: Let_def split: if_splits)
  have F: "?F ?tp = ?F tp" using INode.prems(3) by auto
  have wf: "node_wf c0" "node_wf c1" using INode.prems(1) by auto
  have C: "case ?c of INode _ _ pos' _ \<Rightarrow> pos' < length pfx \<longrightarrow> ?F ?c = ?F ?tp | ENode _ _ \<Rightarrow> True"
  proof (cases ?c)
    case (INode d0 d1 pos' other')
    have "?F ?c = ?F ?tp" if "pos' < length pfx"
    proof -
      have "pos \<le> pos'" using child_pos [OF INode.prems(1), of d0 d1 pos' other'] INode by (auto split: if_splits)
      hence "pos < length pfx" using that by simp
      thus ?thesis using filter_prefix_side [OF INode.prems(1)] by simp
    qed
    thus ?thesis using INode by simp
  qed simp
  have "\<exists>m. tp' = Some m \<and> ?F m = ?F ?tp"
  proof (cases "direction pfx pos other = 0")
    case True
    show ?thesis using INode.IH(1) [OF wf(1), of ?tp] lk C unfolding if_P [OF True] by blast
  next
    case False
    show ?thesis using INode.IH(2) [OF wf(2), of ?tp] lk C unfolding if_not_P [OF False] by blast
  qed
  thus ?case unfolding F .
qed auto

lemma lookup_prefix:
  assumes "node_wf n" "no_zero_ext (keys n)" "k \<in> keys n" "prefix pfx k"
  shows "prefix pfx (fst (find_leaf pfx n))"
  using assms
proof (induction n)
  case (INode c0 c1 pos other)
  let ?n = "INode c0 c1 pos other" and ?c = "if direction pfx pos other = 0 then c0 else c1"
  obtain j where j: "j < 8" "node_wf c0" "node_wf c1" "agree (8 * pos + j) (keys c0 \<union> keys c1)"
    using node_wf_INodeE [OF INode.prems(1)] by metis
  show ?case
  proof (cases "pos < length pfx")
    case True
    obtain v where v: "(k, v) \<in> set (leaves ?n)" using INode.prems(3)
      unfolding keys_def by (metis imageE prod.collapse)
    hence "(k, v) \<in> set (filter (\<lambda>(k, v). prefix pfx k) (leaves ?n))" using INode.prems(4) by simp
    hence "(k, v) \<in> set (leaves ?c)" unfolding filter_prefix_side [OF INode.prems(1) True] by simp
    hence "k \<in> keys ?c" by (force simp: keys_def)
    moreover have "no_zero_ext (keys c0)" "no_zero_ext (keys c1)"
      using INode.prems(2) by (auto elim: no_zero_ext_mono)
    ultimately show ?thesis using INode.IH j INode.prems(4) by (auto split: if_splits)
  next
    case False
    let ?k = "fst (find_leaf pfx ?n)"
    have in_n: "?k \<in> keys ?n" by (rule find_leaf_in_keys)
    hence both: "k \<in> keys c0 \<union> keys c1" "?k \<in> keys c0 \<union> keys c1"
      using INode.prems(3) by (simp_all only: keys_simps)
    show ?thesis
    proof (rule agree_prefix [OF INode.prems(4)])
      show "\<forall>m < 8 * length pfx. kbit k m = kbit ?k m"
      proof (intro allI impI)
        fix m assume "m < 8 * length pfx"
        hence "m < 8 * pos + j" using False by simp
        thus "kbit k m = kbit ?k m" using j(4) both unfolding agree_def by blast
      qed
      show "no_zero_ext {k, ?k}" using INode.prems(2,3) in_n by (auto elim: no_zero_ext_mono)
    qed
  qed
qed simp

lemma WalkPrefix_visit:
  assumes "tree_inv t" "Root t = Some (INode c0 c1 pos other)"
  shows "WalkPrefix pfx fn t s =
    Some (snd (visit fn (filter (\<lambda>(k, v). prefix pfx k) (tree_leaves t)) s))"
proof -
  let ?n = "INode c0 c1 pos other" and ?F = "\<lambda>xs. filter (\<lambda>(k, v). prefix pfx k) xs"
  have wf: "node_wf ?n" using assms by (simp add: tree_inv_def)
  have zk: "no_zero_ext (keys ?n)" using assms dom_tree_map [of t] by (simp add: tree_inv_def)
  obtain key v tp where lk: "lookup_from pfx None ?n = ((key, v), tp)" by (metis prod.exhaust)
  hence key: "find_leaf pfx ?n = (key, v)" using lookup_from_leaf [of pfx None ?n] by simp
  have "lookup_from pfx (Some ?n) ?n = ((key, v), tp)" using lk by (simp add: Let_def)
  then obtain m where m: "tp = Some m" "?F (leaves m) = ?F (leaves ?n)"
    using lookup_top_filter [OF wf, of pfx ?n] by (auto simp del: leaves.simps)
  show ?thesis
  proof (cases "prefix pfx key")
    case True
    thus ?thesis using assms lk m
      by (simp add: WalkPrefix_def lookup_def walk_visit visit_filter tree_leaves_def
          del: leaves.simps lookup_from.simps)
  next
    case False
    hence "\<forall>k \<in> keys ?n. \<not> prefix pfx k" using lookup_prefix [OF wf zk] key by (metis fst_conv)
    hence "?F (leaves ?n) = []" by (rule filter_none)
    thus ?thesis using assms lk False
      by (simp add: WalkPrefix_def lookup_def tree_leaves_def del: leaves.simps lookup_from.simps)
  qed
qed

section \<open>Longest prefix\<close>

lemma longestPrefix_spec:
  "node_wf n \<Longrightarrow> (case longestPrefix n pfx of
     None \<Rightarrow> \<forall>k \<in> keys n. \<not> prefix k pfx
   | Some (k, v) \<Rightarrow> (k, v) \<in> set (leaves n) \<and> prefix k pfx \<and>
       (\<forall>k' \<in> keys n. prefix k' pfx \<longrightarrow> length k' \<le> length k))"
proof (induction n)
  case (INode c0 c1 pos other)
  obtain j where j: "j < 8" "other = node_mask j" "node_wf c0" "node_wf c1"
    "\<forall>k \<in> keys c0. \<not> kbit k (8 * pos + j)" "\<forall>k \<in> keys c1. kbit k (8 * pos + j)"
    using node_wf_INodeE [OF INode.prems(1)] by metis
  let ?c = "if pos < length pfx then pfx ! pos else 0"
  have di: "(1 + unat (other OR ?c)) div 256 = of_bool (kbit pfx (8 * pos + j))"
    unfolding unat_full_u8 j(2) node_mask_or [OF j(1)] by (simp add: kbit_index [OF j(1)] pad_byte_def)
  show ?case
  proof (cases "kbit pfx (8 * pos + j)")
    case False
    hence "longestPrefix (INode c0 c1 pos other) pfx = longestPrefix c0 pfx"
      unfolding longestPrefix.simps Let_def di by (simp split: option.splits)
    moreover have "\<forall>k \<in> keys c1. \<not> prefix k pfx" using False j(6) prefix_kbit by blast
    ultimately show ?thesis
      using INode.IH(1) [OF j(3)] by (auto split: option.splits)
  next
    case True
    hence lp: "longestPrefix (INode c0 c1 pos other) pfx =
        (case longestPrefix c1 pfx of Some r \<Rightarrow> Some r | None \<Rightarrow> longestPrefix c0 pfx)"
      unfolding longestPrefix.simps Let_def di by (simp split: option.splits)
    have short: "length k \<le> pos" if "k \<in> keys c0" "prefix k pfx" for k
    proof (rule ccontr)
      assume "\<not> length k \<le> pos"
      hence "kbit pfx (8 * pos + j) = kbit k (8 * pos + j)" using that(2) j(1) by (intro kbit_prefix) auto
      thus False using True that(1) j(5) by blast
    qed
    have long: "pos < length k" if "k \<in> keys c1" for k
      using that j(1,6) by (force simp: kbit_index pad_byte_def split: if_splits)
    show ?thesis
    proof (cases "longestPrefix c1 pfx")
      case None
      thus ?thesis
        using lp INode.IH(1) [OF j(3)] INode.IH(2) [OF j(4)] by (auto split: option.splits)
    next
      case (Some r)
      obtain k v where r: "r = (k, v)" by fastforce
      have k: "(k, v) \<in> set (leaves c1)" "prefix k pfx"
        "\<forall>k' \<in> keys c1. prefix k' pfx \<longrightarrow> length k' \<le> length k"
        using INode.IH(2) [OF j(4)] Some r by simp_all
      have "pos < length k" using k(1) by (intro long) (force simp: keys_def)
      hence "\<forall>k' \<in> keys c0. prefix k' pfx \<longrightarrow> length k' \<le> length k" using short by fastforce
      thus ?thesis using lp Some r k by auto
    qed
  qed
qed simp

section \<open>Properties\<close>

datatype trie_op = Ins bytes Value | Del bytes

fun op_key :: "trie_op \<Rightarrow> bytes" where
  "op_key (Ins k v) = k"
| "op_key (Del k) = k"

fun exec_trie :: "trie_op \<Rightarrow> Tree \<Rightarrow> Tree" where
  "exec_trie (Ins k v) t = snd (Insert t k v)"
| "exec_trie (Del k) t = snd (Delete t k)"

fun map_op :: "trie_op \<Rightarrow> (bytes \<Rightarrow> Value option) \<Rightarrow> bytes \<Rightarrow> Value option" where
  "map_op (Ins k v) m = m(k \<mapsto> v)"
| "map_op (Del k) m = m(k := None)"

fun store_op :: "trie_op \<Rightarrow> bytes \<times> (Value option \<Rightarrow> Value) option" where
  "store_op (Ins k v) = (k, Some (\<lambda>_. v))"
| "store_op (Del k) = (k, None)"

lemma exec_trie_store: "exec_trie op = critbit.exec (store_op op)"
  by (cases op) (auto simp: critbit.exec_def fun_eq_iff)

lemma map_op_store: "map_op op = critbit.spec (store_op op)"
  by (cases op) (auto simp: critbit.spec_def fun_eq_iff)

lemma fst_store_op: "fst (store_op op) = op_key op"
  by (cases op) auto

lemma fold_store:
  "fold exec_trie ops = fold critbit.exec (map store_op ops)"
  "fold map_op ops = fold critbit.spec (map store_op ops)"
  by (induction ops) (auto simp: exec_trie_store map_op_store)

lemma trie_run:
  assumes "no_zero_ext (op_key ` set ops)"
  shows "tree_inv (fold exec_trie ops New) \<and> tree_map (fold exec_trie ops New) = fold map_op ops Map.empty"
  using critbit.run_refines [of New "map store_op ops"] assms
  by (simp add: New_map fold_store image_image fst_store_op)

lemma Len_card: "tree_inv t \<Longrightarrow> Len t = int (card (dom (tree_map t)))"
proof -
  assume inv: "tree_inv t"
  have "distinct (map fst (tree_leaves t))"
    using inv leaves_distinct by (auto simp: tree_inv_def tree_leaves_def split: option.splits)
  hence "length (tree_leaves t) = card (dom (tree_map t))"
    by (metis distinct_card dom_map_of_conv_image_fst length_map list.set_map tree_map_def)
  thus ?thesis using inv by (simp add: Len_def tree_inv_def)
qed

definition entries :: "Tree \<Rightarrow> (bytes \<times> Value) list" where
  "entries t = Walk (\<lambda>k v s. (False, s @ [(k, v)])) t []"

lemma visit_collect: "visit (\<lambda>k v s. (False, s @ [(k, v)])) xs s = (False, s @ xs)"
  by (induction xs arbitrary: s) auto

lemma entries_leaves: "entries t = tree_leaves t"
  by (simp add: entries_def Walk_def walk_visit visit_collect tree_leaves_def split: option.splits)

text \<open>Claim C10. The crit-bit tree is a finite map: after any sequence of insertions and deletions
  on a new tree, for keys of which none is another one followed by a zero byte (so for keys
  of one length, and for keys without zero bytes), looking up any key gives the value last
  inserted and not deleted since, and \<open>Len\<close> is the number of keys held.\<close>

theorem critbit_is_map:
  assumes "no_zero_ext (op_key ` set ops)"
  shows "Get (fold exec_trie ops New) k = fold map_op ops Map.empty k \<and>
    Len (fold exec_trie ops New) = int (card (dom (fold map_op ops Map.empty)))"
  using trie_run [OF assms] by (simp add: Get_map Len_card)



text \<open>LongestPrefix returns the longest key that is a prefix of the given bytes, with its
  value, and nothing exactly if no key is.\<close>

theorem critbit_longest_prefix:
  assumes "no_zero_ext (op_key ` set ops)"
  defines "m \<equiv> fold map_op ops Map.empty"
  shows "case LongestPrefix (fold exec_trie ops New) pfx of
      None \<Rightarrow> \<forall>k \<in> dom m. \<not> prefix k pfx
    | Some (k, v) \<Rightarrow> m k = Some v \<and> prefix k pfx \<and> (\<forall>k' \<in> dom m. prefix k' pfx \<longrightarrow> length k' \<le> length k)"
proof -
  let ?t = "fold exec_trie ops New"
  have t: "tree_inv ?t" "tree_map ?t = m"
    using trie_run [OF assms(1)] by (simp_all add: m_def)
  show ?thesis
  proof (cases "Root ?t")
    case None
    thus ?thesis using t(2) by (auto simp: LongestPrefix_def tree_map_def tree_leaves_def)
  next
    case (Some r)
    have wf: "node_wf r" using t(1) Some by (simp add: tree_inv_def)
    have m: "dom m = keys r" using dom_tree_map [of ?t] t(2) Some by simp
    have "m k = Some v" if "(k, v) \<in> set (leaves r)" for k v
      using that t(2) Some leaves_distinct [OF wf] by (auto simp: tree_map_def tree_leaves_def)
    thus ?thesis
      using longestPrefix_spec [OF wf, of pfx] Some by (auto simp: LongestPrefix_def m split: option.splits)
  qed
qed

definition some_value :: Value where
  "some_value = \<lparr>Key = [], EarliestFrame = 0, LatestFrame = 0, Count = 0\<rparr>"

text \<open>Keys that extend one another by zero bytes do get lost: of the three keys 61,
  61 00 62 and 61 00, inserted in this order, the second one can no longer be found, while
  \<open>Len\<close> says three.\<close>

theorem critbit_loses_zero_extended_key:
  "let t = fold exec_trie [Ins [0x61] some_value, Ins [0x61, 0, 0x62] some_value, Ins [0x61, 0] some_value] New
   in Get t [0x61, 0, 0x62] = None \<and> Len t = 3"
  by code_simp

text \<open>Walking a prefix that the only key of a tree has makes the code dereference a nil
  node, whatever the callback.\<close>

theorem critbit_walk_prefix_single_panics:
  "prefix pfx k \<Longrightarrow> WalkPrefix pfx fn (snd (Insert New k v)) s = None"
  by (simp add: WalkPrefix_def Insert_def New_def lookup_def)

section \<open>Witnesses\<close>

definition demo_ops :: "trie_op list" where
  "demo_ops = [Ins [1, 2] some_value, Ins [1, 3] some_value, Ins [1] some_value, Del [1, 3]]"

lemma demo_ops_ok: "no_zero_ext (op_key ` set demo_ops)"
  by (auto simp: no_zero_ext_def demo_ops_def)

theorem critbit_is_map_witness:
  "Get (fold exec_trie demo_ops New) [1, 2] = fold map_op demo_ops Map.empty [1, 2] \<and>
    Len (fold exec_trie demo_ops New) = int (card (dom (fold map_op demo_ops Map.empty)))"
  by (rule critbit_is_map [OF demo_ops_ok])



theorem critbit_longest_prefix_witness:
  "case LongestPrefix (fold exec_trie demo_ops New) [1, 2, 3] of
      None \<Rightarrow> \<forall>k \<in> dom (fold map_op demo_ops Map.empty). \<not> prefix k [1, 2, 3]
    | Some (k, v) \<Rightarrow> fold map_op demo_ops Map.empty k = Some v \<and> prefix k [1, 2, 3] \<and>
       (\<forall>k' \<in> dom (fold map_op demo_ops Map.empty). prefix k' [1, 2, 3] \<longrightarrow> length k' \<le> length k)"
  by (rule critbit_longest_prefix [OF demo_ops_ok])

theorem critbit_walk_prefix_single_panics_witness:
  "WalkPrefix [1] (\<lambda>k v s. (False, k # s)) (snd (Insert New [1, 2] some_value)) [] = None"
  by (rule critbit_walk_prefix_single_panics) simp

end
