(* ===== verification/Frecency_Trie.thy ===== *)
theory Frecency_Trie
  imports Critbit_Trie "HOL-Library.Product_Lexorder"
begin

text \<open>
  The rolling frecency trie of \<^verbatim>\<open>types/tries/rolling_frecency_critbit_trie.go\<close>, a client of the
  crit-bit tree, and the modular distance of \<^verbatim>\<open>utils/math.go\<close> it sorts by. The field modulus
  comes from a library and is a parameter. Every method first creates a missing tree, so
  reads return the trie too. The gob encoding of the tree is left out.
\<close>

section \<open>Distances\<close>

text \<open>\<^verbatim>\<open>big.Int.SetBytes\<close>: big-endian.\<close>

definition SetBytes :: "bytes \<Rightarrow> int" where
  "SetBytes bs = foldl (\<lambda>n b. 256 * n + uint b) 0 bs"

definition AbsoluteModularMinimumDistance :: "int \<Rightarrow> int \<Rightarrow> int \<Rightarrow> int" where
  "AbsoluteModularMinimumDistance targetInt keyInt modulus =
     (let diff = \<bar>targetInt - keyInt\<bar>; modComplement = modulus - diff
      in if diff > modComplement then modComplement else diff)"

section \<open>The trie\<close>

record RollingFrecencyCritbitTrie =
  Trie :: "Tree option"

definition ensure_trie :: "RollingFrecencyCritbitTrie \<Rightarrow> Tree" where
  "ensure_trie t = (case Trie t of None \<Rightarrow> New | Some x \<Rightarrow> x)"

definition zero_value :: Value where
  "zero_value = \<lparr>Key = [], EarliestFrame = 0, LatestFrame = 0, Count = 0\<rparr>"

definition Contains :: "RollingFrecencyCritbitTrie \<Rightarrow> bytes \<Rightarrow> bool \<times> RollingFrecencyCritbitTrie" where
  "Contains t address = (let x = ensure_trie t in (Get x address \<noteq> None, t\<lparr>Trie := Some x\<rparr>))"

definition Get_value :: "RollingFrecencyCritbitTrie \<Rightarrow> bytes \<Rightarrow> Value \<times> RollingFrecencyCritbitTrie" where
  "Get_value t address =
     (let x = ensure_trie t
      in (case Get x address of None \<Rightarrow> zero_value | Some p \<Rightarrow> p, t\<lparr>Trie := Some x\<rparr>))"

text \<open>\<^verbatim>\<open>sort.Slice\<close> promises nothing on the order of entries with equal distance and equal
  key number; \<open>sort_key\<close> keeps them as they are.\<close>

definition FindNearestAndApproximateNeighbors ::
  "int \<Rightarrow> RollingFrecencyCritbitTrie \<Rightarrow> bytes \<Rightarrow> Value list \<times> RollingFrecencyCritbitTrie" where
  "FindNearestAndApproximateNeighbors modulus t address =
     (let x = ensure_trie t;
          ret = Walk (\<lambda>k v s. (False, s @ [v])) x [];
          targetInt = SetBytes address;
          valuesWithDist = map (\<lambda>v. let keyInt = SetBytes (Key v)
            in (v, AbsoluteModularMinimumDistance targetInt keyInt modulus, keyInt)) ret
      in (map fst (sort_key snd valuesWithDist), t\<lparr>Trie := Some x\<rparr>))"

definition FindNearest ::
  "int \<Rightarrow> RollingFrecencyCritbitTrie \<Rightarrow> bytes \<Rightarrow> Value \<times> RollingFrecencyCritbitTrie" where
  "FindNearest modulus t address =
     (let (find, t') = FindNearestAndApproximateNeighbors modulus (t\<lparr>Trie := Some (ensure_trie t)\<rparr>) address
      in (if find = [] then zero_value else hd find, t'))"

definition Add :: "RollingFrecencyCritbitTrie \<Rightarrow> bytes \<Rightarrow> u64 \<Rightarrow> RollingFrecencyCritbitTrie" where
  "Add t address latestFrame =
     (let x = ensure_trie t;
          v = (case Get x address of
                 None \<Rightarrow> \<lparr>Key = address, EarliestFrame = latestFrame, LatestFrame = latestFrame, Count = 0\<rparr>
               | Some i \<Rightarrow> i)
      in t\<lparr>Trie := Some (snd (Insert x address (v\<lparr>LatestFrame := latestFrame\<rparr>)))\<rparr>)"

definition Remove :: "RollingFrecencyCritbitTrie \<Rightarrow> bytes \<Rightarrow> RollingFrecencyCritbitTrie" where
  "Remove t address = t\<lparr>Trie := Some (snd (Delete (ensure_trie t) address))\<rparr>"

section \<open>Histories\<close>

datatype frec_op = AddOp bytes u64 | RemoveOp bytes

fun frec_key :: "frec_op \<Rightarrow> bytes" where
  "frec_key (AddOp a f) = a"
| "frec_key (RemoveOp a) = a"

fun exec_frec :: "frec_op \<Rightarrow> RollingFrecencyCritbitTrie \<Rightarrow> RollingFrecencyCritbitTrie" where
  "exec_frec (AddOp a f) t = Add t a f"
| "exec_frec (RemoveOp a) t = Remove t a"

text \<open>What a history of operations says of one address: the frames added since it was last
  removed.\<close>

fun frames_since_removal :: "bytes \<Rightarrow> frec_op list \<Rightarrow> u64 list \<Rightarrow> u64 list" where
  "frames_since_removal a [] fs = fs"
| "frames_since_removal a (AddOp b f # ops) fs = frames_since_removal a ops (if a = b then fs @ [f] else fs)"
| "frames_since_removal a (RemoveOp b # ops) fs = frames_since_removal a ops (if a = b then [] else fs)"

definition value_of_frames :: "bytes \<Rightarrow> u64 list \<Rightarrow> Value option" where
  "value_of_frames a fs = (if fs = [] then None
     else Some \<lparr>Key = a, EarliestFrame = hd fs, LatestFrame = last fs, Count = 0\<rparr>)"

fun frec_store_op :: "frec_op \<Rightarrow> bytes \<times> (Value option \<Rightarrow> Value) option" where
  "frec_store_op (AddOp a f) = (a, Some (\<lambda>i. (case i of
       None \<Rightarrow> \<lparr>Key = a, EarliestFrame = f, LatestFrame = f, Count = 0\<rparr> | Some i \<Rightarrow> i)\<lparr>LatestFrame := f\<rparr>))"
| "frec_store_op (RemoveOp a) = (a, None)"

lemma exec_frec_store: "ensure_trie (exec_frec op t) = critbit.exec (frec_store_op op) (ensure_trie t)"
  by (cases op) (auto simp: Add_def Remove_def ensure_trie_def critbit.exec_def Let_def split: option.splits)

lemma fold_exec_frec: "ensure_trie (fold exec_frec ops t) = fold critbit.exec (map frec_store_op ops) (ensure_trie t)"
  by (induction ops arbitrary: t) (auto simp: exec_frec_store)

lemma frec_spec_frames:
  "m a = value_of_frames a fs \<Longrightarrow>
   fold critbit.spec (map frec_store_op ops) m a = value_of_frames a (frames_since_removal a ops fs)"
proof (induction ops arbitrary: m fs)
  case (Cons op ops)
  show ?case
  proof (cases op)
    case (AddOp b f)
    have "critbit.spec (frec_store_op op) m a = value_of_frames a (if a = b then fs @ [f] else fs)"
      using Cons.prems AddOp by (auto simp: critbit.spec_def value_of_frames_def hd_append)
    thus ?thesis using Cons.IH AddOp by simp
  next
    case (RemoveOp b)
    have "critbit.spec (frec_store_op op) m a = value_of_frames a (if a = b then [] else fs)"
      using Cons.prems RemoveOp by (auto simp: critbit.spec_def value_of_frames_def)
    thus ?thesis using Cons.IH RemoveOp by simp
  qed
qed simp

lemma frec_run:
  assumes "no_zero_ext (frec_key ` set ops)"
  shows "tree_inv (ensure_trie (fold exec_frec ops \<lparr>Trie = None\<rparr>)) \<and>
    tree_map (ensure_trie (fold exec_frec ops \<lparr>Trie = None\<rparr>)) a = value_of_frames a (frames_since_removal a ops [])"
proof -
  have k: "fst (frec_store_op op) = frec_key op" for op by (cases op) auto
  have "tree_inv (fold critbit.exec (map frec_store_op ops) New) \<and>
      tree_map (fold critbit.exec (map frec_store_op ops) New) =
        fold critbit.spec (map frec_store_op ops) (tree_map New)"
    using assms by (intro critbit.run_refines) (simp_all add: New_map image_image k)
  moreover have "ensure_trie \<lparr>Trie = None\<rparr> = New" by (simp add: ensure_trie_def)
  ultimately show ?thesis
    using frec_spec_frames [of Map.empty a "[]" ops] by (simp add: fold_exec_frec New_map value_of_frames_def)
qed


section \<open>Nearest entries\<close>

lemma walk_values: "Walk (\<lambda>k v s. (False, s @ [v])) x [] = map snd (tree_leaves x)"
proof -
  have "visit (\<lambda>k v s. (False, s @ [v])) xs s = (False, s @ map snd xs)" for xs :: "(bytes \<times> Value) list" and s
    by (induction xs arbitrary: s) auto
  thus ?thesis by (simp add: Walk_def walk_visit tree_leaves_def split: option.splits)
qed

definition dist_key :: "int \<Rightarrow> bytes \<Rightarrow> Value \<Rightarrow> int \<times> int" where
  "dist_key modulus address v =
     (AbsoluteModularMinimumDistance (SetBytes address) (SetBytes (Key v)) modulus, SetBytes (Key v))"

lemma insort_key_pair:
  "insort_key snd (v, g v) (map (\<lambda>v. (v, g v)) ys) = map (\<lambda>v. (v, g v)) (insort_key g v ys)"
  by (induction ys) auto

lemma sort_key_pair: "sort_key snd (map (\<lambda>v. (v, g v)) vs) = map (\<lambda>v. (v, g v)) (sort_key g vs)"
  by (induction vs) (auto simp: insort_key_pair)

lemma neighbors_sorted:
  "fst (FindNearestAndApproximateNeighbors modulus t address) =
     sort_key (dist_key modulus address) (map snd (tree_leaves (ensure_trie t)))"
  by (simp add: FindNearestAndApproximateNeighbors_def Let_def walk_values sort_key_pair comp_def
      flip: dist_key_def)

text \<open>The neighbours of an address are all values of the trie, each as often as it is
  held, by ascending modular distance to the address and, at equal distance, by ascending key.
  FindNearest returns one that no other value is nearer than.\<close>

theorem nearest_neighbors_sorted:
  fixes t :: RollingFrecencyCritbitTrie and modulus :: int and address :: bytes
  defines "vs \<equiv> map snd (entries (ensure_trie t))"
    and "near \<equiv> fst (FindNearestAndApproximateNeighbors modulus t address)"
  assumes "vs \<noteq> []"
  shows "mset near = mset vs \<and>
    sorted_wrt (\<lambda>v w. dist_key modulus address v \<le> dist_key modulus address w) near \<and>
    fst (FindNearest modulus t address) \<in> set vs \<and>
    (\<forall>v \<in> set vs. dist_key modulus address (fst (FindNearest modulus t address)) \<le> dist_key modulus address v)"
proof -
  have near: "near = sort_key (dist_key modulus address) vs"
    by (simp add: near_def vs_def neighbors_sorted entries_leaves)
  hence ne: "near \<noteq> []" "set near = set vs" "sorted (map (dist_key modulus address) near)"
    using assms by (metis length_0_conv length_sort, simp, simp)
  have hd: "fst (FindNearest modulus t address) = hd near"
    using ne(1) unfolding near_def
    by (simp add: FindNearest_def case_prod_beta neighbors_sorted ensure_trie_def)
  have "dist_key modulus address (hd near) \<le> dist_key modulus address v" if "v \<in> set vs" for v
  proof -
    have "v \<in> set near" using that ne(2) by simp
    thus ?thesis using ne(3) by (cases near) auto
  qed
  moreover have "hd near \<in> set vs" using ne hd_in_set by metis
  moreover have "mset near = mset vs" by (simp add: near)
  ultimately show ?thesis using ne(3) unfolding hd sorted_map by blast
qed

text \<open>The distance is the one on the circle of integers modulo the field size: for two
  numbers below it, it is symmetric, at most half of it, zero exactly for equal numbers, and
  one of the two ways around.\<close>

theorem modular_distance_circle:
  assumes "0 \<le> a" "a < m" "0 \<le> b" "b < m"
  shows "AbsoluteModularMinimumDistance a b m = AbsoluteModularMinimumDistance b a m \<and>
    0 \<le> AbsoluteModularMinimumDistance a b m \<and> 2 * AbsoluteModularMinimumDistance a b m \<le> m \<and>
    (AbsoluteModularMinimumDistance a b m = 0 \<longleftrightarrow> a = b) \<and>
    AbsoluteModularMinimumDistance a b m = min ((a - b) mod m) ((b - a) mod m)"
proof -
  have "x mod m = (if 0 \<le> x then x else x + m)" if "- m < x" "x < m" for x
  proof (cases "0 \<le> x")
    case False
    have "x mod m = (x + m) mod m" by simp
    also have "\<dots> = x + m" using that False by (intro mod_pos_pos_trivial) auto
    finally show ?thesis using False by simp
  qed (use that in simp)
  hence "(a - b) mod m = (if b \<le> a then a - b else a - b + m)"
    "(b - a) mod m = (if a \<le> b then b - a else b - a + m)" using assms by simp_all
  thus ?thesis using assms by (auto simp: AbsoluteModularMinimumDistance_def Let_def min_def)
qed

section \<open>Witnesses\<close>

definition demo_frec :: "frec_op list" where
  "demo_frec = [AddOp [1] 5, AddOp [2] 6, AddOp [1] 9, RemoveOp [2]]"

lemma demo_frec_ok: "no_zero_ext (frec_key ` set demo_frec)"
  by (auto simp: demo_frec_def no_zero_ext_def)


theorem nearest_neighbors_sorted_witness:
  "fst (FindNearest 101 (fold exec_frec demo_frec \<lparr>Trie = None\<rparr>) [7]) \<in>
     set (map snd (entries (ensure_trie (fold exec_frec demo_frec \<lparr>Trie = None\<rparr>))))"
proof -
  have "map snd (entries (ensure_trie (fold exec_frec demo_frec \<lparr>Trie = None\<rparr>))) \<noteq> []" by code_simp
  from nearest_neighbors_sorted [OF this] show ?thesis by blast
qed

theorem modular_distance_circle_witness:
  "2 * AbsoluteModularMinimumDistance 3 99 101 \<le> 101"
  using modular_distance_circle [of 3 101 99] by simp

end
