(* ===== verification/Min_Heap.thy ===== *)
theory Min_Heap
  imports Prelude "HOL-Library.Multiset"
begin

text \<open>
  The binary heap of \<^verbatim>\<open>types/tries/minheap.go\<close>. The \<^verbatim>\<open>Item\<close> interface is the function \<open>prio\<close> of
  an item type; the slice is a list, and the loops of \<open>upheap\<close> and \<open>downheap\<close> are recursive
  functions whose termination is proved. The locale \<open>priority_queue\<close> is the contract of such
  a queue over multisets, of which the heap is shown to be an instance.
\<close>

section \<open>Priority queues\<close>

locale priority_queue =
  fixes prio :: "'a \<Rightarrow> 'p::linorder"
    and inv :: "'q \<Rightarrow> bool"
    and contents :: "'q \<Rightarrow> 'a multiset"
    and empty :: 'q
    and push :: "'q \<Rightarrow> 'a \<Rightarrow> 'q"
    and pop :: "'q \<Rightarrow> ('a \<times> 'q) option"
  assumes inv_empty: "inv empty"
    and contents_empty: "contents empty = {#}"
    and inv_push: "inv q \<Longrightarrow> inv (push q x)"
    and contents_push: "inv q \<Longrightarrow> contents (push q x) = add_mset x (contents q)"
    and pop_None: "inv q \<Longrightarrow> pop q = None \<longleftrightarrow> contents q = {#}"
    and inv_pop: "inv q \<Longrightarrow> pop q = Some (x, q') \<Longrightarrow> inv q'"
    and contents_pop: "inv q \<Longrightarrow> pop q = Some (x, q') \<Longrightarrow> contents q = add_mset x (contents q')"
    and pop_least: "inv q \<Longrightarrow> pop q = Some (x, q') \<Longrightarrow> y \<in># contents q \<Longrightarrow> prio x \<le> prio y"
begin

primrec drain :: "nat \<Rightarrow> 'q \<Rightarrow> 'a list" where
  "drain 0 q = []"
| "drain (Suc n) q = (case pop q of None \<Rightarrow> [] | Some (x, q') \<Rightarrow> x # drain n q')"

lemma drain_sorted:
  assumes "inv q" "size (contents q) \<le> n"
  shows "mset (drain n q) = contents q \<and> sorted_wrt (\<lambda>x y. prio x \<le> prio y) (drain n q)"
  using assms
proof (induction n arbitrary: q)
  case (Suc n)
  show ?case
  proof (cases "pop q")
    case None
    thus ?thesis using pop_None [OF Suc.prems(1)] by simp
  next
    case (Some xq)
    obtain x q' where x: "pop q = Some (x, q')" using Some by (cases xq) auto
    have c: "contents q = add_mset x (contents q')" by (rule contents_pop [OF Suc.prems(1) x])
    have d: "mset (drain n q') = contents q'" "sorted_wrt (\<lambda>x y. prio x \<le> prio y) (drain n q')"
      using Suc.IH [OF inv_pop [OF Suc.prems(1) x]] Suc.prems(2) c by auto
    have "\<forall>y \<in> set (drain n q'). prio x \<le> prio y"
      using pop_least [OF Suc.prems(1) x] c d(1) by (metis set_mset_mset insert_iff set_mset_add_mset_insert)
    thus ?thesis using x c d by simp
  qed
qed (simp add: pop_None)

lemma fill: "inv (foldl push empty xs) \<and> contents (foldl push empty xs) = mset xs"
proof -
  have "inv (foldl push q xs) \<and> contents (foldl push q xs) = contents q + mset xs" if "inv q" for q
    using that by (induction xs arbitrary: q) (auto simp: inv_push contents_push)
  thus ?thesis using inv_empty contents_empty by simp
qed

lemma heap_sort:
  "mset (drain (length xs) (foldl push empty xs)) = mset xs \<and>
   sorted_wrt (\<lambda>x y. prio x \<le> prio y) (drain (length xs) (foldl push empty xs))"
  using drain_sorted [of "foldl push empty xs" "length xs"] fill [of xs] by simp

end

section \<open>The heap\<close>

record 'a MinHeap =
  items :: "'a list"

definition NewMinHeap :: "'a MinHeap" where
  "NewMinHeap = \<lparr>items = []\<rparr>"

definition exchange :: "nat \<Rightarrow> nat \<Rightarrow> 'a list \<Rightarrow> 'a list" where
  "exchange i j xs = (let a = xs ! i; b = xs ! j in xs[i := b, j := a])"

lemma length_exchange [simp]: "length (exchange i j xs) = length xs"
  unfolding exchange_def Let_def by simp

function upheap :: "('a \<Rightarrow> u64) \<Rightarrow> 'a list \<Rightarrow> nat \<Rightarrow> 'a list" where
  "upheap prio xs i =
     (if i > 0
      then (let parent = (i - 1) div 2
            in if prio (xs ! i) \<ge> prio (xs ! parent) then xs
               else upheap prio (exchange i parent xs) parent)
      else xs)"
  by pat_completeness auto
termination by (relation "measure (\<lambda>(prio, xs, i). i)") auto

definition smallest_child :: "('a \<Rightarrow> u64) \<Rightarrow> 'a list \<Rightarrow> nat \<Rightarrow> nat" where
  "smallest_child prio xs i =
     (let left = 2 * i + 1; right = 2 * i + 2; smallest = i;
          smallest = (if left < length xs \<and> prio (xs ! left) < prio (xs ! smallest) then left else smallest)
      in if right < length xs \<and> prio (xs ! right) < prio (xs ! smallest) then right else smallest)"

lemma smallest_child_bounds:
  "smallest_child prio xs i \<noteq> i \<Longrightarrow> i < smallest_child prio xs i \<and> smallest_child prio xs i < length xs"
  by (auto simp: smallest_child_def Let_def split: if_splits)

function downheap :: "('a \<Rightarrow> u64) \<Rightarrow> 'a list \<Rightarrow> nat \<Rightarrow> 'a list" where
  "downheap prio xs i =
     (let smallest = smallest_child prio xs i
      in if smallest = i then xs else downheap prio (exchange i smallest xs) smallest)"
  by pat_completeness auto
termination
  by (relation "measure (\<lambda>(prio, xs, i). length xs - i)") (auto dest: smallest_child_bounds)

declare upheap.simps [simp del] downheap.simps [simp del]

definition Push :: "('a \<Rightarrow> u64) \<Rightarrow> 'a MinHeap \<Rightarrow> 'a \<Rightarrow> 'a MinHeap" where
  "Push prio h item =
     (let xs = items h @ [item] in h\<lparr>items := upheap prio xs (length xs - 1)\<rparr>)"

definition Pop :: "('a \<Rightarrow> u64) \<Rightarrow> 'a MinHeap \<Rightarrow> ('a \<times> 'a MinHeap) option" where
  "Pop prio h =
     (if length (items h) = 0 then None
      else
        let min = items h ! 0;
            lastIdx = length (items h) - 1;
            xs = take lastIdx ((items h)[0 := items h ! lastIdx])
        in Some (min, h\<lparr>items := (if length xs > 0 then downheap prio xs 0 else xs)\<rparr>))"

definition Peek :: "'a MinHeap \<Rightarrow> 'a option" where
  "Peek h = (if length (items h) = 0 then None else Some (items h ! 0))"

definition Size :: "'a MinHeap \<Rightarrow> nat" where
  "Size h = length (items h)"

text \<open>The two loops of \<^verbatim>\<open>All\<close>: exchange whenever a later item is smaller.\<close>

function all_inner :: "('a \<Rightarrow> u64) \<Rightarrow> nat \<Rightarrow> nat \<Rightarrow> 'a list \<Rightarrow> 'a list" where
  "all_inner prio i j result =
     (if j < length result
      then all_inner prio i (j + 1)
        (if prio (result ! j) < prio (result ! i) then exchange i j result else result)
      else result)"
  by pat_completeness auto
termination by (relation "measure (\<lambda>(prio, i, j, result). length result - j)") auto

lemma length_all_inner [simp]: "length (all_inner prio i j result) = length result"
proof (induction prio i j result rule: all_inner.induct)
  case (1 prio i j result)
  thus ?case by (subst all_inner.simps) (simp del: all_inner.simps)
qed

function all_outer :: "('a \<Rightarrow> u64) \<Rightarrow> nat \<Rightarrow> 'a list \<Rightarrow> 'a list" where
  "all_outer prio i result =
     (if i < length result then all_outer prio (i + 1) (all_inner prio i (i + 1) result) else result)"
  by pat_completeness auto
termination
  by (relation "measure (\<lambda>(prio, i, result). length result - i)") (auto simp del: all_inner.simps)

declare all_inner.simps [simp del] all_outer.simps [simp del]

definition All :: "('a \<Rightarrow> u64) \<Rightarrow> 'a MinHeap \<Rightarrow> 'a list" where
  "All prio h = (if length (items h) = 0 then [] else all_outer prio 0 (items h))"

section \<open>Heap order\<close>

lemma mset_exchange [simp]: "{i, j} \<subseteq> {..<length xs} \<Longrightarrow> mset (exchange i j xs) = mset xs"
  unfolding exchange_def Let_def by (intro mset_swap) auto

lemma nth_exchange:
  assumes "i < length xs" and "j < length xs"
  shows "exchange i j xs ! k = xs ! (if k = i then j else if k = j then i else k)"
  using assms unfolding exchange_def Let_def by (cases "k = i"; cases "k = j") simp_all

definition par :: "nat \<Rightarrow> nat" where
  "par j = (j - 1) div 2"

lemma par_less: "0 < j \<Longrightarrow> par j < j"
  by (auto simp: par_def)

lemma par_child: "0 < j \<Longrightarrow> par j = i \<longleftrightarrow> j = 2 * i + 1 \<or> j = 2 * i + 2"
  by (auto simp: par_def)

definition heap :: "('a \<Rightarrow> u64) \<Rightarrow> 'a list \<Rightarrow> bool" where
  "heap prio xs \<longleftrightarrow> (\<forall>j < length xs. 0 < j \<longrightarrow> prio (xs ! par j) \<le> prio (xs ! j))"

text \<open>Heap order but between \<open>i\<close> and its parent, or but between \<open>i\<close> and its children.\<close>

definition up_heap :: "('a \<Rightarrow> u64) \<Rightarrow> 'a list \<Rightarrow> nat \<Rightarrow> bool" where
  "up_heap prio xs i \<longleftrightarrow>
     (\<forall>j < length xs. 0 < j \<and> j \<noteq> i \<longrightarrow> prio (xs ! par j) \<le> prio (xs ! j)) \<and>
     (\<forall>j < length xs. 0 < j \<and> par j = i \<and> 0 < i \<longrightarrow> prio (xs ! par i) \<le> prio (xs ! j))"

definition down_heap :: "('a \<Rightarrow> u64) \<Rightarrow> 'a list \<Rightarrow> nat \<Rightarrow> bool" where
  "down_heap prio xs i \<longleftrightarrow>
     (\<forall>j < length xs. 0 < j \<and> par j \<noteq> i \<longrightarrow> prio (xs ! par j) \<le> prio (xs ! j)) \<and>
     (\<forall>j < length xs. 0 < j \<and> par j = i \<and> 0 < i \<longrightarrow> prio (xs ! par i) \<le> prio (xs ! j))"

lemma up_heap_step:
  assumes up: "up_heap prio xs i" and i: "0 < i" "i < length xs" and lt: "prio (xs ! i) < prio (xs ! par i)"
  shows "up_heap prio (exchange i (par i) xs) (par i)"
proof -
  let ?p = "par i" and ?ys = "exchange i (par i) xs"
  have p: "?p < i" "?p < length xs" using par_less [OF i(1)] i by auto
  have nth: "?ys ! k = (if k = i then xs ! ?p else if k = ?p then xs ! i else xs ! k)" for k
    using i p by (simp add: nth_exchange)
  have h: "prio (xs ! par j) \<le> prio (xs ! j)" if "j < length xs" "0 < j" "j \<noteq> i" for j
    using up that by (auto simp: up_heap_def)
  have g: "prio (xs ! ?p) \<le> prio (xs ! j)" if "j < length xs" "0 < j" "par j = i" for j
    using up that i by (auto simp: up_heap_def)
  have "prio (?ys ! par j) \<le> prio (?ys ! j)" if j: "j < length xs" "0 < j" "j \<noteq> ?p" for j
  proof (cases "j = i")
    case True
    thus ?thesis using lt p by (simp add: nth)
  next
    case False
    consider "par j = i" | "par j = ?p" | "par j \<noteq> i" "par j \<noteq> ?p" by blast
    thus ?thesis
    proof cases
      case 1
      thus ?thesis using g [OF j(1,2)] j False by (simp add: nth)
    next
      case 2
      have "prio (xs ! i) \<le> prio (xs ! j)" using h [OF j(1,2) False] lt 2 by simp
      thus ?thesis using 2 j False p by (simp add: nth)
    next
      case 3
      thus ?thesis using h [OF j(1,2) False] j False by (simp add: nth)
    qed
  qed
  moreover have "prio (?ys ! par ?p) \<le> prio (?ys ! j)" if j: "j < length xs" "0 < j" "par j = ?p" "0 < ?p" for j
  proof -
    have pp: "par ?p < ?p" using par_less j(4) by simp
    have gp: "prio (xs ! par ?p) \<le> prio (xs ! ?p)" using h [of ?p] p j(4) by simp
    have "?p < j" using par_less [OF j(2)] j(3) by simp
    show ?thesis
    proof (cases "j = i")
      case True
      thus ?thesis using gp pp p by (simp add: nth)
    next
      case False
      have "prio (xs ! ?p) \<le> prio (xs ! j)" using h [OF j(1,2) False] j(3) by simp
      hence "prio (xs ! par ?p) \<le> prio (xs ! j)" using gp by (rule order_trans [rotated])
      thus ?thesis using pp p False \<open>?p < j\<close> by (simp add: nth)
    qed
  qed
  ultimately show ?thesis by (simp add: up_heap_def)
qed

lemma upheap_heap:
  "up_heap prio xs i \<Longrightarrow> i < length xs \<Longrightarrow> heap prio (upheap prio xs i) \<and> mset (upheap prio xs i) = mset xs"
proof (induction prio xs i rule: upheap.induct)
  case (1 prio xs i)
  consider (root) "i = 0" | (stop) "0 < i" "prio (xs ! i) \<ge> prio (xs ! par i)"
    | (step) "0 < i" "prio (xs ! i) < prio (xs ! par i)" by fastforce
  thus ?case
  proof cases
    case root
    hence "upheap prio xs i = xs" by (subst upheap.simps) simp
    thus ?thesis using 1(2) root by (simp add: up_heap_def heap_def)
  next
    case stop
    hence "upheap prio xs i = xs" by (subst upheap.simps) (simp add: par_def Let_def)
    thus ?thesis using 1(2) stop(2) by (auto simp: up_heap_def heap_def)
  next
    case step
    hence eq: "upheap prio xs i = upheap prio (exchange i (par i) xs) (par i)"
      by (subst upheap.simps) (auto simp: par_def Let_def)
    have "par i < length xs" using par_less [OF step(1)] 1(3) by simp
    thus ?thesis
      using 1(1) [OF step(1) refl] step 1(2,3) up_heap_step [OF 1(2) step(1) 1(3) step(2)]
      unfolding eq by (auto simp: par_def)
  qed
qed

lemma smallest_child_least:
  assumes "j < length xs" "0 < j" "par j = i"
  shows "prio (xs ! smallest_child prio xs i) \<le> prio (xs ! j)"
  using assms par_child [OF assms(2), of i] by (auto simp: smallest_child_def Let_def)

lemma smallest_child_le: "prio (xs ! smallest_child prio xs i) \<le> prio (xs ! i)"
  by (auto simp: smallest_child_def Let_def)

lemma par_smallest_child: "smallest_child prio xs i \<noteq> i \<Longrightarrow> par (smallest_child prio xs i) = i"
  by (auto simp: smallest_child_def Let_def par_def split: if_splits)

lemma down_heap_step:
  assumes down: "down_heap prio xs i" and i: "i < length xs"
    and s: "s = smallest_child prio xs i" "s \<noteq> i"
  shows "down_heap prio (exchange i s xs) s"
proof -
  let ?ys = "exchange i s xs"
  have b: "i < s" "s < length xs" "par s = i"
    using smallest_child_bounds [of prio xs i] par_smallest_child [of prio xs i] s by auto
  have nth: "?ys ! k = (if k = i then xs ! s else if k = s then xs ! i else xs ! k)" for k
    using i b by (simp add: nth_exchange)
  have le: "prio (xs ! s) \<le> prio (xs ! i)" using smallest_child_le [of prio xs i] s(1) by simp
  have least: "prio (xs ! s) \<le> prio (xs ! j)" if "j < length xs" "0 < j" "par j = i" for j
    using smallest_child_least [OF that] s by simp
  have h: "prio (xs ! par j) \<le> prio (xs ! j)" if "j < length xs" "0 < j" "par j \<noteq> i" for j
    using down that by (auto simp: down_heap_def)
  have "prio (?ys ! par j) \<le> prio (?ys ! j)" if j: "j < length xs" "0 < j" "par j \<noteq> s" for j
  proof (cases "par j = i")
    case True
    hence "j \<noteq> i" using par_less [OF j(2)] by auto
    thus ?thesis using True least [OF j(1,2) True] le s(2) by (simp add: nth)
  next
    case False
    show ?thesis
    proof (cases "j = i")
      case True
      have "prio (xs ! par i) \<le> prio (xs ! s)"
        using down b True j(2) by (auto simp: down_heap_def)
      thus ?thesis using True False j(3) by (simp add: nth)
    next
      case False2: False
      thus ?thesis using h [OF j(1,2) False] False j(3) b by (auto simp: nth)
    qed
  qed
  moreover have "prio (?ys ! par s) \<le> prio (?ys ! j)" if j: "j < length xs" "0 < j" "par j = s" for j
  proof -
    have "s < j" using par_less [OF j(2)] j(3) by simp
    thus ?thesis using h [OF j(1,2)] j(3) b s(2) by (auto simp: nth)
  qed
  ultimately show ?thesis by (simp add: down_heap_def)
qed

lemma downheap_heap:
  "down_heap prio xs i \<Longrightarrow> i < length xs \<Longrightarrow> heap prio (downheap prio xs i) \<and> mset (downheap prio xs i) = mset xs"
proof (induction prio xs i rule: downheap.induct)
  case (1 prio xs i)
  let ?s = "smallest_child prio xs i"
  show ?case
  proof (cases "?s = i")
    case True
    hence eq: "downheap prio xs i = xs" by (subst downheap.simps) simp
    have "prio (xs ! par j) \<le> prio (xs ! j)" if "j < length xs" "0 < j" for j
      using 1(2) that smallest_child_least [OF that refl, of prio] True
      by (cases "par j = i") (auto simp: down_heap_def)
    thus ?thesis by (simp add: eq heap_def)
  next
    case False
    hence eq: "downheap prio xs i = downheap prio (exchange i ?s xs) ?s"
      by (subst downheap.simps) (simp add: Let_def)
    have "?s < length xs" using smallest_child_bounds [OF False] by simp
    thus ?thesis
      using 1(1) [OF refl False] down_heap_step [OF 1(2,3) refl False] 1(3) unfolding eq by simp
  qed
qed

lemma heap_root_least:
  assumes "heap prio xs" "j < length xs"
  shows "prio (xs ! 0) \<le> prio (xs ! j)"
  using assms(2)
proof (induction j rule: less_induct)
  case (less j)
  show ?case
  proof (cases "j = 0")
    case False
    hence "par j < j" using par_less by simp
    hence "prio (xs ! 0) \<le> prio (xs ! par j)" using less by simp
    also have "\<dots> \<le> prio (xs ! j)" using assms(1) less.prems False by (simp add: heap_def)
    finally show ?thesis .
  qed simp
qed

lemma Push_heap:
  assumes "heap prio (items h)"
  shows "heap prio (items (Push prio h x)) \<and> mset (items (Push prio h x)) = add_mset x (mset (items h))"
proof -
  let ?xs = "items h @ [x]"
  have "up_heap prio ?xs (length (items h))"
    unfolding up_heap_def
  proof (intro conjI allI impI)
    fix j assume "j < length ?xs" "0 < j \<and> j \<noteq> length (items h)"
    thus "prio (?xs ! par j) \<le> prio (?xs ! j)"
      using assms par_less [of j] by (simp add: heap_def nth_append)
  next
    fix j assume "j < length ?xs" "0 < j \<and> par j = length (items h) \<and> 0 < length (items h)"
    thus "prio (?xs ! par (length (items h))) \<le> prio (?xs ! j)" using par_less [of j] by simp
  qed
  thus ?thesis using upheap_heap [of prio ?xs "length (items h)"] by (simp add: Push_def)
qed

lemma Pop_heap:
  assumes "heap prio (items h)" "Pop prio h = Some (x, h')"
  shows "heap prio (items h') \<and> mset (items h) = add_mset x (mset (items h')) \<and>
    (\<forall>y \<in> set (items h). prio x \<le> prio y)"
proof -
  let ?n = "length (items h) - 1"
  let ?xs = "take ?n ((items h)[0 := items h ! ?n])"
  have ne: "items h \<noteq> []" using assms(2) by (auto simp: Pop_def)
  have x: "x = items h ! 0" "items h' = (if length ?xs > 0 then downheap prio ?xs 0 else ?xs)"
    using assms(2) ne by (auto simp: Pop_def Let_def)
  have least: "\<forall>y \<in> set (items h). prio x \<le> prio y"
    using heap_root_least [OF assms(1)] x by (auto simp: in_set_conv_nth)
  have "mset ((items h)[0 := items h ! ?n, ?n := items h ! 0]) = mset (items h)"
    using ne by (intro Multiset.mset_swap) auto
  moreover have "(items h)[0 := items h ! ?n, ?n := items h ! 0] = ?xs @ [items h ! 0]"
    using ne by (intro nth_equalityI) (auto simp: nth_append nth_list_update)
  ultimately have ms: "mset (items h) = add_mset x (mset ?xs)" using x by simp
  have "down_heap prio ?xs 0"
    unfolding down_heap_def
  proof (intro conjI allI impI)
    fix j assume "j < length ?xs" "0 < j \<and> par j \<noteq> 0"
    thus "prio (?xs ! par j) \<le> prio (?xs ! j)"
      using assms(1) par_less [of j] by (simp add: heap_def nth_list_update)
  qed simp
  hence "heap prio (items h') \<and> mset (items h') = mset ?xs"
    using downheap_heap [of prio ?xs 0] x(2) by (auto simp: heap_def)
  thus ?thesis using ms least by simp
qed

interpretation minheap: priority_queue prio "\<lambda>h. heap prio (items h)" "\<lambda>h. mset (items h)"
  NewMinHeap "Push prio" "Pop prio" for prio :: "'a \<Rightarrow> u64"
proof unfold_locales
  show "heap prio (items NewMinHeap)" "mset (items NewMinHeap) = {#}"
    by (simp_all add: NewMinHeap_def heap_def)
  fix q q' :: "'a MinHeap" and x y
  assume h: "heap prio (items q)"
  show "heap prio (items (Push prio q x))" "mset (items (Push prio q x)) = add_mset x (mset (items q))"
    using Push_heap [OF h] by blast+
  show "(Pop prio q = None) = (mset (items q) = {#})" by (simp add: Pop_def Let_def)
  assume p: "Pop prio q = Some (x, q')"
  show "heap prio (items q')" "mset (items q) = add_mset x (mset (items q'))"
    using Pop_heap [OF h p] by blast+
  show "prio x \<le> prio y" if "y \<in># mset (items q)" using Pop_heap [OF h p] that by (metis set_mset_mset)
qed

section \<open>Sorting by exchange\<close>

lemma all_inner_spec:
  assumes "i < j" "i < length xs" "\<forall>k. i < k \<and> k < j \<and> k < length xs \<longrightarrow> prio (xs ! i) \<le> prio (xs ! k)"
  shows "mset (all_inner prio i j xs) = mset xs \<and> (\<forall>k < i. all_inner prio i j xs ! k = xs ! k) \<and>
    (\<forall>k. i \<le> k \<and> k < length xs \<longrightarrow> (\<exists>c \<ge> i. c < length xs \<and> all_inner prio i j xs ! k = xs ! c)) \<and>
    (\<forall>k. i < k \<and> k < length xs \<longrightarrow> prio (all_inner prio i j xs ! i) \<le> prio (all_inner prio i j xs ! k))"
  using assms
proof (induction prio i j xs rule: all_inner.induct)
  case (1 prio i j xs)
  show ?case
  proof (cases "j < length xs")
    case False
    hence "all_inner prio i j xs = xs" by (subst all_inner.simps) simp
    thus ?thesis using 1(2-4) False by auto
  next
    case True
    let ?ys = "if prio (xs ! j) < prio (xs ! i) then exchange i j xs else xs"
    have eq: "all_inner prio i j xs = all_inner prio i (j + 1) ?ys"
      using True by (subst all_inner.simps) simp
    have nth: "exchange i j xs ! k = (if k = i then xs ! j else if k = j then xs ! i else xs ! k)" for k
      using True 1(3) by (simp add: nth_exchange)
    have inv: "\<forall>k. i < k \<and> k < j + 1 \<and> k < length ?ys \<longrightarrow> prio (?ys ! i) \<le> prio (?ys ! k)"
      using 1(2-4) True by (fastforce simp: nth less_Suc_eq)
    have ms: "mset ?ys = mset xs" "length ?ys = length xs" "\<forall>k < i. ?ys ! k = xs ! k"
      using True 1(2,3) by (auto simp: nth)
    have from_xs: "\<exists>c \<ge> i. c < length xs \<and> ?ys ! k = xs ! c" if "i \<le> k" "k < length xs" for k
      using that True 1(2,3) by (auto simp: nth intro: exI [of _ i] exI [of _ j])
    note IH = 1(1) [OF True, of, unfolded ms(2), OF _ 1(3) inv [unfolded ms(2)]]
    show ?thesis
      using IH 1(2) ms(1,3) from_xs unfolding eq by (auto simp: ms(2))
  qed
qed

lemma all_outer_spec:
  assumes "\<forall>a b. a < i \<and> a < b \<and> b < length xs \<longrightarrow> prio (xs ! a) \<le> prio (xs ! b)"
  shows "mset (all_outer prio i xs) = mset xs \<and>
    sorted_wrt (\<lambda>x y. prio x \<le> prio y) (all_outer prio i xs)"
  using assms
proof (induction prio i xs rule: all_outer.induct)
  case (1 prio i xs)
  show ?case
  proof (cases "i < length xs")
    case False
    hence "all_outer prio i xs = xs" by (subst all_outer.simps) simp
    thus ?thesis using 1(2) False by (auto simp: sorted_wrt_iff_nth_less)
  next
    case True
    let ?ys = "all_inner prio i (i + 1) xs"
    have eq: "all_outer prio i xs = all_outer prio (i + 1) ?ys" using True by (subst all_outer.simps) simp
    have vac: "\<forall>k. i < k \<and> k < i + 1 \<and> k < length xs \<longrightarrow> prio (xs ! i) \<le> prio (xs ! k)" by auto
    have s: "mset ?ys = mset xs" "\<forall>k < i. ?ys ! k = xs ! k"
      "\<forall>k. i \<le> k \<and> k < length xs \<longrightarrow> (\<exists>c \<ge> i. c < length xs \<and> ?ys ! k = xs ! c)"
      "\<forall>k. i < k \<and> k < length xs \<longrightarrow> prio (?ys ! i) \<le> prio (?ys ! k)"
      using all_inner_spec [OF _ True vac] by simp_all
    have "prio (?ys ! a) \<le> prio (?ys ! b)" if ab: "a < i + 1" "a < b" "b < length xs" for a b
    proof (cases "a = i")
      case True
      thus ?thesis using s(4) that by simp
    next
      case False
      hence a: "a < i" using that by simp
      show ?thesis
      proof (cases "b < i")
        case True
        thus ?thesis using 1(2) s(2) a that by simp
      next
        case False
        then obtain c where "c \<ge> i" "c < length xs" "?ys ! b = xs ! c" using s(3) ab by (metis not_less)
        thus ?thesis using 1(2) s(2) a by simp
      qed
    qed
    thus ?thesis using 1(1) [OF True] s(1) unfolding eq by simp
  qed
qed

lemma All_spec: "mset (All prio h) = mset (items h) \<and> sorted_wrt (\<lambda>x y. prio x \<le> prio y) (All prio h)"
  using all_outer_spec [of 0 "items h" prio] by (auto simp: All_def)

section \<open>Properties\<close>

datatype 'a heap_op = PushOp 'a | PopOp

fun exec_heap :: "('a \<Rightarrow> u64) \<Rightarrow> 'a heap_op \<Rightarrow> 'a MinHeap \<Rightarrow> 'a MinHeap" where
  "exec_heap prio (PushOp x) h = Push prio h x"
| "exec_heap prio PopOp h = (case Pop prio h of None \<Rightarrow> h | Some (_, h') \<Rightarrow> h')"

interpretation heap_ops: op_system "exec_heap prio" "\<lambda>h. heap prio (items h)" for prio :: "'a \<Rightarrow> u64"
proof unfold_locales
  fix op and h :: "'a MinHeap"
  assume "heap prio (items h)"
  thus "heap prio (items (exec_heap prio op h))"
    by (cases op) (auto simp: minheap.inv_push dest: minheap.inv_pop split: option.splits)
qed

text \<open>Claim C39. After any sequence of pushes and pops on a new heap, Pop fails exactly on an empty
  heap; otherwise it returns the item that Peek shows, whose priority is the least one held,
  and leaves exactly the other items.\<close>

theorem min_heap_pops_least:
  fixes prio :: "'a \<Rightarrow> u64"
  defines "h \<equiv> \<lambda>ops. fold (exec_heap prio) ops NewMinHeap"
  shows "case Pop prio (h ops) of
      None \<Rightarrow> Size (h ops) = 0 \<and> Peek (h ops) = None
    | Some (x, h') \<Rightarrow> Peek (h ops) = Some x \<and> mset (items (h ops)) = add_mset x (mset (items h')) \<and>
        Size (h ops) = Suc (Size h') \<and> Min (prio ` set (items (h ops))) = prio x"
proof -
  have inv: "heap prio (items (h ops))"
    unfolding h_def by (rule heap_ops.run_inv) (rule minheap.inv_empty)
  show ?thesis
  proof (cases "Pop prio (h ops)")
    case None
    thus ?thesis using minheap.pop_None [OF inv] by (simp add: Size_def Peek_def)
  next
    case (Some xh)
    obtain x h' where p: "Pop prio (h ops) = Some (x, h')" using Some by (cases xh) auto
    have c: "mset (items (h ops)) = add_mset x (mset (items h'))" by (rule minheap.contents_pop [OF inv p])
    have "Min (prio ` set (items (h ops))) = prio x"
      using c minheap.pop_least [OF inv p]
      by (intro Min_eqI) (auto simp flip: set_mset_mset)
    moreover have "Peek (h ops) = Some x" using p by (auto simp: Pop_def Peek_def Let_def split: if_splits)
    moreover have "Size (h ops) = Suc (Size h')" using c unfolding Size_def by (metis size_add_mset size_mset)
    ultimately show ?thesis using p c by simp
  qed
qed

primrec pop_all :: "('a \<Rightarrow> u64) \<Rightarrow> nat \<Rightarrow> 'a MinHeap \<Rightarrow> 'a list" where
  "pop_all prio 0 h = []"
| "pop_all prio (Suc n) h = (case Pop prio h of None \<Rightarrow> [] | Some (x, h') \<Rightarrow> x # pop_all prio n h')"

lemma pop_all_drain: "pop_all prio n h = minheap.drain prio n h"
  by (induction n arbitrary: h) (auto split: option.splits)

lemma sorted_same_prio:
  assumes "mset xs = mset ys" "sorted_wrt (\<lambda>x y. prio x \<le> (prio y :: u64)) xs"
    "sorted_wrt (\<lambda>x y. prio x \<le> prio y) ys"
  shows "map prio xs = map prio ys"
proof -
  have "sorted (map prio xs)" "sorted (map prio ys)" using assms(2,3) by (simp_all add: sorted_map)
  moreover have "mset (map prio xs) = mset (map prio ys)" using assms(1) by simp
  ultimately show ?thesis by (metis properties_for_sort)
qed

text \<open>\<open>All\<close> returns the items of the heap in ascending order of priority and leaves them
  as they are; popping the heap of a list empty gives the same priorities in the same order.\<close>

theorem min_heap_all_sorted:
  fixes prio :: "'a \<Rightarrow> u64"
  defines "h \<equiv> \<lambda>xs. foldl (Push prio) NewMinHeap xs"
  shows "mset (All prio (h xs)) = mset xs \<and> sorted (map prio (All prio (h xs))) \<and>
    mset (pop_all prio (length xs) (h xs)) = mset xs \<and>
    map prio (pop_all prio (length xs) (h xs)) = map prio (All prio (h xs))"
proof -
  have "mset (pop_all prio (length xs) (h xs)) = mset xs \<and>
      sorted_wrt (\<lambda>x y. prio x \<le> prio y) (pop_all prio (length xs) (h xs))"
    unfolding pop_all_drain h_def by (rule minheap.heap_sort)
  moreover have "mset (All prio (h xs)) = mset xs \<and> sorted_wrt (\<lambda>x y. prio x \<le> prio y) (All prio (h xs))"
    using All_spec [of prio "h xs"] minheap.fill [of prio xs] by (simp add: h_def)
  ultimately show ?thesis using sorted_same_prio [of "pop_all prio (length xs) (h xs)"]
    by (simp add: sorted_map)
qed

end
