(* ===== verification/Fork_Choice.thy ===== *)
theory Fork_Choice
  imports Prelude "HOL-Library.Monad_Syntax"
begin

text \<open>
  The fork choice rule of \<^verbatim>\<open>node/consensus/time/fork_choice.go\<close>. Scores are unbounded integers
  (\<^verbatim>\<open>big.Int\<close>), \<^verbatim>\<open>Quo\<close> truncates towards zero and panics on a zero divisor, and an index out of
  range panics; \<open>None\<close> is a panic.
\<close>

section \<open>Scores\<close>

definition SCALE :: int where
  "SCALE = 0xffffffffffffffff"

record Frame =
  Distance :: int
  Seniority :: u64
  ProverAddress :: bytes

record Branch =
  Frames :: "Frame list"

record Params =
  RMax :: int
  WrNumer :: u64
  WpNumer :: u64
  WDenom :: u64
  AlNumer :: u64
  AlDenom :: u64
  BlendWindow :: int
  BetaNumer :: u64
  BetaDenom :: u64
  Epsilon :: u64

definition DefaultForkChoiceParams :: Params where
  "DefaultForkChoiceParams = \<lparr>RMax = 0xffffffffffffffff, WrNumer = 7, WpNumer = 3, WDenom = 10,
     AlNumer = 9, AlDenom = 10, BlendWindow = 5, BetaNumer = 1, BetaDenom = 10, Epsilon = 0\<rparr>"

definition Quo :: "int \<Rightarrow> int \<Rightarrow> int option" where
  "Quo a b = (if b = 0 then None else Some (a sdiv b))"

definition rhoScaled :: "int \<Rightarrow> int \<Rightarrow> int option" where
  "rhoScaled rank rMax = do {
     tmp \<leftarrow> Quo ((rMax - rank) * SCALE) rMax;
     Some (if tmp < 0 then 0 else if tmp > SCALE then SCALE else tmp)
   }"

definition clamp :: "u64 \<Rightarrow> u64 \<Rightarrow> u64 \<Rightarrow> u64" where
  "clamp x lo hi = (if x < lo then lo else if x > hi then hi else x)"

definition frame_score :: "Params \<Rightarrow> Frame \<Rightarrow> int option" where
  "frame_score cfg frame = do {
     rho \<leftarrow> rhoScaled (Distance frame) (RMax cfg);
     let pi = uint (clamp (Seniority frame) 0 (word_of_int SCALE));
     Quo (uint (WrNumer cfg) * rho + uint (WpNumer cfg) * pi) (uint (WDenom cfg))
   }"

text \<open>The loop over the frames, oldest first.\<close>

fun raw_score :: "Params \<Rightarrow> Frame list \<Rightarrow> int \<Rightarrow> int option" where
  "raw_score cfg [] raw = Some raw"
| "raw_score cfg (frame # frames) raw = do {
     frameScore \<leftarrow> frame_score cfg frame;
     decayed \<leftarrow> Quo (raw * uint (AlNumer cfg)) (uint (AlDenom cfg));
     raw_score cfg frames (decayed + frameScore)
   }"

definition uniq_provers :: "Frame list \<Rightarrow> bytes list" where
  "uniq_provers frames = remdups (map ProverAddress (filter (\<lambda>f. Seniority f > 0) frames))"

text \<open>A negative window starts the second loop beyond the end of the frames, so that it counts
  nothing, and is converted to a divisor of its own size below \<open>2 ^ 64\<close>.\<close>

definition branchScore :: "Branch \<Rightarrow> Params \<Rightarrow> int option" where
  "branchScore br cfg =
     (if length (Frames br) = 0 then Some 0
      else do {
        raw \<leftarrow> raw_score cfg (Frames br) 0;
        let n = int (length (Frames br));
        let m = (if BlendWindow cfg > n then n else BlendWindow cfg);
        if m = 0 then Some 0
        else do {
          let uniq = uniq_provers (drop (nat (n - m)) (Frames br));
          blendScaled \<leftarrow> Quo (int (length uniq) * SCALE) (uint (word_of_int m :: u64));
          bonus \<leftarrow> Quo (uint (BetaNumer cfg) * blendScaled) (uint (BetaDenom cfg));
          Quo (raw * (SCALE + bonus)) SCALE
        }
      })"

section \<open>The choice\<close>

fun choose_branch :: "Params \<Rightarrow> Branch list \<Rightarrow> nat \<Rightarrow> int \<Rightarrow> int \<Rightarrow> int option" where
  "choose_branch cfg [] i bestIdx bestScore = Some bestIdx"
| "choose_branch cfg (br # brs) i bestIdx bestScore = do {
     score \<leftarrow> branchScore br cfg;
     if score > bestScore + uint (Epsilon cfg)
     then choose_branch cfg brs (i + 1) (int i) score
     else choose_branch cfg brs (i + 1) bestIdx bestScore
   }"

definition ForkChoice :: "Branch list \<Rightarrow> Params \<Rightarrow> int \<Rightarrow> int option" where
  "ForkChoice branches cfg prevChoice =
     (if prevChoice < int (length branches)
      then (if prevChoice < 0 then None
            else do {
              bestScore \<leftarrow> branchScore (branches ! nat prevChoice) cfg;
              choose_branch cfg branches 0 prevChoice bestScore
            })
      else choose_branch cfg branches 0 prevChoice 0)"

section \<open>Scores under usable parameters\<close>

text \<open>Parameters under which no division fails and every number stays non-negative.\<close>

definition params_ok :: "Params \<Rightarrow> bool" where
  "params_ok cfg \<longleftrightarrow> 0 < RMax cfg \<and> 0 < WDenom cfg \<and> 0 < AlDenom cfg \<and> 0 < BetaDenom cfg \<and>
     0 < BlendWindow cfg \<and> BlendWindow cfg < 2 ^ 63"

lemma SCALE_pos: "0 < SCALE"
  by (simp add: SCALE_def)

lemma Quo_pos: "0 < b \<Longrightarrow> Quo a b = Some (a sdiv b)"
  by (simp add: Quo_def)

lemma sdiv_nonneg: "0 \<le> a \<Longrightarrow> 0 < b \<Longrightarrow> 0 \<le> a sdiv (b :: int)"
  by (simp add: sdiv_pos_eq pos_imp_zdiv_nonneg_iff)

lemma uint_pos: "0 < w \<Longrightarrow> 0 < uint w" for w :: u64
  by (simp add: word_less_def)

lemma clamp_id: "clamp x 0 (word_of_int SCALE) = x"
proof -
  have "word_of_int SCALE = (- 1 :: u64)" by (simp add: SCALE_def)
  thus ?thesis by (simp add: clamp_def)
qed

lemma rhoScaled_range:
  assumes "0 < rMax"
  obtains r where "rhoScaled rank rMax = Some r" "0 \<le> r" "r \<le> SCALE"
  using assms SCALE_pos by (auto simp: rhoScaled_def Quo_pos)

lemma rhoScaled_mono:
  assumes "0 < rMax" "rank \<le> rank'" "rhoScaled rank rMax = Some r" "rhoScaled rank' rMax = Some r'"
  shows "r' \<le> r"
proof -
  have "((rMax - rank') * SCALE) sdiv rMax \<le> ((rMax - rank) * SCALE) sdiv rMax"
    using assms(1,2) SCALE_pos by (intro sdiv_pos_mono) (auto intro: mult_right_mono)
  thus ?thesis using assms SCALE_pos by (auto simp: rhoScaled_def Quo_pos split: if_splits)
qed

definition frame_better :: "Frame \<Rightarrow> Frame \<Rightarrow> bool" where
  "frame_better f g \<longleftrightarrow> Distance f \<le> Distance g \<and> Seniority g \<le> Seniority f \<and>
     ProverAddress f = ProverAddress g"

lemma frame_score_ok:
  assumes "params_ok cfg"
  obtains s where "frame_score cfg f = Some s" "0 \<le> s"
proof -
  obtain r where "rhoScaled (Distance f) (RMax cfg) = Some r" "0 \<le> r"
    using rhoScaled_range [of "RMax cfg" "Distance f"] assms by (auto simp: params_ok_def)
  moreover have "0 < uint (WDenom cfg)" using assms uint_pos by (simp add: params_ok_def)
  ultimately show ?thesis
    by (intro that [of "(uint (WrNumer cfg) * r + uint (WpNumer cfg) * uint (Seniority f)) sdiv uint (WDenom cfg)"])
      (simp_all add: frame_score_def clamp_id Quo_pos sdiv_nonneg)
qed

lemma frame_score_mono:
  assumes "params_ok cfg" "frame_better f g" "frame_score cfg f = Some s" "frame_score cfg g = Some s'"
  shows "s' \<le> s"
proof -
  have pos: "0 < RMax cfg" "0 < uint (WDenom cfg)"
    using assms(1) uint_pos by (auto simp: params_ok_def)
  obtain r r' where r: "rhoScaled (Distance f) (RMax cfg) = Some r" "rhoScaled (Distance g) (RMax cfg) = Some r'"
    using rhoScaled_range [OF pos(1)] by metis
  have "r' \<le> r" using rhoScaled_mono [OF pos(1) _ r] assms(2) by (simp add: frame_better_def)
  moreover have "uint (Seniority g) \<le> uint (Seniority f)"
    using assms(2) by (simp add: frame_better_def word_le_def)
  ultimately have "uint (WrNumer cfg) * r' + uint (WpNumer cfg) * uint (Seniority g) \<le>
      uint (WrNumer cfg) * r + uint (WpNumer cfg) * uint (Seniority f)"
    by (intro add_mono mult_left_mono) auto
  thus ?thesis
    using assms(3,4) r pos by (auto simp: frame_score_def clamp_id Quo_pos intro: sdiv_pos_mono)
qed

lemma raw_score_ok:
  assumes "params_ok cfg" "0 \<le> raw"
  obtains s where "raw_score cfg fs raw = Some s" "0 \<le> s"
proof -
  have "\<exists>s. raw_score cfg fs raw = Some s \<and> 0 \<le> s" if "0 \<le> raw"
    using that
  proof (induction fs arbitrary: raw)
    case (Cons f fs)
    obtain s where s: "frame_score cfg f = Some s" "0 \<le> s" using frame_score_ok [OF assms(1)] by blast
    have pos: "0 < uint (AlDenom cfg)" using assms(1) uint_pos by (auto simp: params_ok_def)
    show ?case using Cons.IH [of "(raw * uint (AlNumer cfg)) sdiv uint (AlDenom cfg) + s"]
        s Cons.prems pos by (simp add: Quo_pos sdiv_nonneg)
  qed simp
  thus ?thesis using that assms(2) by blast
qed

lemma raw_score_mono:
  assumes "params_ok cfg" "list_all2 frame_better fs gs" "raw' \<le> raw"
    "raw_score cfg fs raw = Some s" "raw_score cfg gs raw' = Some s'"
  shows "s' \<le> s"
  using assms(2-5)
proof (induction fs gs arbitrary: raw raw' rule: list_all2_induct)
  case (Cons f fs g gs)
  obtain a b where ab: "frame_score cfg f = Some a" "frame_score cfg g = Some b"
    using frame_score_ok [OF assms(1)] by metis
  have pos: "0 < uint (AlDenom cfg)" using assms(1) uint_pos by (auto simp: params_ok_def)
  have "b \<le> a" using frame_score_mono [OF assms(1) Cons.hyps(1) ab] .
  moreover have "(raw' * uint (AlNumer cfg)) sdiv uint (AlDenom cfg) \<le> (raw * uint (AlNumer cfg)) sdiv uint (AlDenom cfg)"
    using Cons.prems(1) pos by (intro sdiv_pos_mono mult_right_mono) auto
  ultimately show ?case
    using Cons.IH [of "(raw' * uint (AlNumer cfg)) sdiv uint (AlDenom cfg) + b"
        "(raw * uint (AlNumer cfg)) sdiv uint (AlDenom cfg) + a"] Cons.prems ab pos
    by (simp add: Quo_pos)
qed simp

definition bonus :: "Params \<Rightarrow> Frame list \<Rightarrow> int" where
  "bonus cfg fs =
     (let n = int (length fs); m = min n (BlendWindow cfg)
      in (uint (BetaNumer cfg) * ((int (length (uniq_provers (drop (nat (n - m)) fs))) * SCALE) sdiv m))
           sdiv uint (BetaDenom cfg))"

lemma branchScore_eq:
  assumes "params_ok cfg" "Frames br \<noteq> []" "raw_score cfg (Frames br) 0 = Some raw"
  shows "branchScore br cfg = Some ((raw * (SCALE + bonus cfg (Frames br))) sdiv SCALE)"
proof -
  let ?n = "int (length (Frames br))" and ?m = "min (int (length (Frames br))) (BlendWindow cfg)"
  have m: "(if BlendWindow cfg > ?n then ?n else BlendWindow cfg) = ?m" by auto
  have n0: "0 < ?m" using assms(1,2) by (simp add: params_ok_def)
  have "?m \<le> BlendWindow cfg" "BlendWindow cfg < 2 ^ 63" using assms(1) by (simp_all add: params_ok_def)
  hence "?m < 2 ^ 64" by simp
  hence um: "uint (word_of_int ?m :: u64) = ?m" using n0 by (intro uint_word_of_int_small) auto
  have pos: "0 < uint (BetaDenom cfg)" using assms(1) uint_pos by (auto simp: params_ok_def)
  define q where "q = ?m"
  have "0 < q" "uint (word_of_int q :: u64) = q" using n0 um by (simp_all only: q_def)
  thus ?thesis
    using assms(2,3) pos SCALE_pos unfolding branchScore_def Let_def m bonus_def q_def [symmetric]
    by (simp add: Quo_pos)
qed

lemma bonus_nonneg: "params_ok cfg \<Longrightarrow> fs \<noteq> [] \<Longrightarrow> 0 \<le> bonus cfg fs"
  using SCALE_pos uint_pos [of "BetaDenom cfg"]
  by (auto simp: bonus_def Let_def params_ok_def intro!: sdiv_nonneg mult_nonneg_nonneg)

lemma uniq_provers_card:
  "length (uniq_provers fs) = card (ProverAddress ` {f \<in> set fs. Seniority f > 0})"
proof -
  have "set (uniq_provers fs) = ProverAddress ` {f \<in> set fs. Seniority f > 0}" by (simp add: uniq_provers_def)
  moreover have "distinct (uniq_provers fs)" by (simp add: uniq_provers_def)
  ultimately show ?thesis by (metis distinct_card)
qed

lemma uniq_provers_mono:
  assumes "list_all2 frame_better fs gs"
  shows "length (uniq_provers gs) \<le> length (uniq_provers fs)"
proof -
  have "ProverAddress g \<in> ProverAddress ` {f \<in> set fs. Seniority f > 0}"
    if g: "g \<in> set gs" "Seniority g > 0" for g
  proof -
    obtain i where "i < length gs" "gs ! i = g" using g by (auto simp: in_set_conv_nth)
    hence "frame_better (fs ! i) g" "fs ! i \<in> set fs"
      using assms by (auto simp: list_all2_conv_all_nth)
    thus ?thesis using g(2) by (auto simp: frame_better_def intro!: rev_image_eqI [of "fs ! i"])
  qed
  thus ?thesis unfolding uniq_provers_card by (intro card_mono) auto
qed

lemma bonus_mono:
  assumes "params_ok cfg" "list_all2 frame_better fs gs" "fs \<noteq> []"
  shows "bonus cfg gs \<le> bonus cfg fs"
proof -
  let ?m = "min (int (length fs)) (BlendWindow cfg)"
  have len: "length gs = length fs" using assms(2) by (simp add: list_all2_lengthD)
  have "list_all2 frame_better (drop (nat (int (length fs) - ?m)) fs) (drop (nat (int (length fs) - ?m)) gs)"
    using assms(2) by (rule list_all2_dropI)
  hence "length (uniq_provers (drop (nat (int (length fs) - ?m)) gs)) \<le>
      length (uniq_provers (drop (nat (int (length fs) - ?m)) fs))" by (rule uniq_provers_mono)
  moreover have "0 < ?m" using assms by (simp add: params_ok_def)
  moreover have "0 < uint (BetaDenom cfg)" using assms(1) uint_pos by (auto simp: params_ok_def)
  ultimately show ?thesis
    using SCALE_pos unfolding bonus_def Let_def len
    by (intro sdiv_pos_mono mult_left_mono mult_right_mono) auto
qed

lemma branchScore_ok:
  assumes "params_ok cfg"
  obtains s where "branchScore br cfg = Some s" "0 \<le> s"
proof (cases "Frames br = []")
  case True
  thus ?thesis using that by (simp add: branchScore_def)
next
  case False
  obtain raw where raw: "raw_score cfg (Frames br) 0 = Some raw" "0 \<le> raw"
    using raw_score_ok [OF assms] by blast
  have "0 \<le> (raw * (SCALE + bonus cfg (Frames br))) sdiv SCALE"
    using raw(2) bonus_nonneg [OF assms False] SCALE_pos by (intro sdiv_nonneg mult_nonneg_nonneg) auto
  thus ?thesis using that branchScore_eq [OF assms False raw(1)] by blast
qed

section \<open>Properties\<close>


lemma choose_branch_spec:
  assumes "\<And>i. i < length brs \<Longrightarrow> branchScore (brs ! i) cfg = Some (sc (int (k + i)))"
  shows "\<exists>r. choose_branch cfg brs k b (sc b) = Some r \<and> sc b \<le> sc r \<and>
    (r = b \<or> (int k \<le> r \<and> r < int (k + length brs) \<and> sc b + uint (Epsilon cfg) < sc r)) \<and>
    (\<forall>i < length brs. sc (int (k + i)) \<le> sc r + uint (Epsilon cfg))"
  using assms
proof (induction brs arbitrary: k b)
  case (Cons br brs)
  have br: "branchScore br cfg = Some (sc (int k))" using Cons.prems [of 0] by simp
  have tl: "branchScore (brs ! i) cfg = Some (sc (int (Suc k + i)))" if "i < length brs" for i
    using Cons.prems [of "Suc i"] that by simp
  define b' where "b' = (if sc (int k) > sc b + uint (Epsilon cfg) then int k else b)"
  have eps: "0 \<le> uint (Epsilon cfg)" by simp
  obtain r where r: "choose_branch cfg brs (Suc k) b' (sc b') = Some r" "sc b' \<le> sc r"
    "r = b' \<or> (int (Suc k) \<le> r \<and> r < int (Suc k + length brs) \<and> sc b' + uint (Epsilon cfg) < sc r)"
    "\<forall>i < length brs. sc (int (Suc k + i)) \<le> sc r + uint (Epsilon cfg)"
    using Cons.IH [of "Suc k" b', OF tl] by blast
  have "choose_branch cfg (br # brs) k b (sc b) = Some r"
    using r(1) br by (auto simp: b'_def split: if_splits)
  moreover have "sc (int (k + i)) \<le> sc r + uint (Epsilon cfg)" if "i < length (br # brs)" for i
  proof (cases i)
    case 0
    have "sc (int k) \<le> sc b' + uint (Epsilon cfg)" 
      unfolding b'_def using eps by (cases "sc b + uint (Epsilon cfg) < sc (int k)") auto
    thus ?thesis using r(2) 0 by simp
  next
    case (Suc n)
    thus ?thesis using r(4) [rule_format, of n] that by simp
  qed
  moreover have "sc b \<le> sc r" "r = b \<or> (int k \<le> r \<and> r < int (k + length (br # brs)) \<and>
      sc b + uint (Epsilon cfg) < sc r)"
    using r(2,3) eps unfolding b'_def by (auto split: if_splits; linarith)+
  ultimately show ?case by blast
qed simp

text \<open>Claim C11. With usable parameters and a valid previous choice the rule returns a branch, and
  no branch scores more than the tie margin above it; it leaves the previous choice only for a
  branch that beats it by more than the margin. With the default margin of zero this is a
  best branch, and the previous choice if that is one.\<close>

theorem fork_choice_best_and_sticky:
  assumes "params_ok cfg" "0 \<le> prev" "prev < int (length branches)"
  defines "score \<equiv> \<lambda>i. the (branchScore (branches ! nat i) cfg)"
  shows "\<exists>r. ForkChoice branches cfg prev = Some r \<and> 0 \<le> r \<and> r < int (length branches) \<and>
    (\<forall>i. 0 \<le> i \<and> i < int (length branches) \<longrightarrow> score i \<le> score r + uint (Epsilon cfg)) \<and>
    (r \<noteq> prev \<longrightarrow> score prev + uint (Epsilon cfg) < score r)"
proof -
  have sc: "branchScore (branches ! nat i) cfg = Some (score i)" for i
    using branchScore_ok [OF assms(1), of "branches ! nat i"] by (metis option.sel score_def)
  have "\<And>i. i < length branches \<Longrightarrow> branchScore (branches ! i) cfg = Some (score (int (0 + i)))"
    using sc by (metis add_0 nat_int)
  from choose_branch_spec [OF this, of prev] obtain r where
    r: "choose_branch cfg branches 0 prev (score prev) = Some r"
    "r = prev \<or> (0 \<le> r \<and> r < int (length branches) \<and> score prev + uint (Epsilon cfg) < score r)"
    "\<forall>i < length branches. score (int i) \<le> score r + uint (Epsilon cfg)" by auto
  have "score i \<le> score r + uint (Epsilon cfg)" if "0 \<le> i" "i < int (length branches)" for i
    using r(3) [rule_format, of "nat i"] that by simp
  moreover have "ForkChoice branches cfg prev = Some r"
    using assms(2,3) sc [of prev] r(1) by (simp add: ForkChoice_def)
  ultimately show ?thesis using r(2) assms(2,3) by auto
qed

text \<open>Claim C29. Better frames never make a branch score lower: if two branches have the same provers
  frame by frame, and one has at most the distance and at least the seniority of the other
  everywhere, it scores at least as much.\<close>

theorem better_frames_score_higher:
  assumes "params_ok cfg" "list_all2 frame_better (Frames b1) (Frames b2)"
  shows "\<exists>s1 s2. branchScore b1 cfg = Some s1 \<and> branchScore b2 cfg = Some s2 \<and> 0 \<le> s2 \<and> s2 \<le> s1"
proof (cases "Frames b1 = []")
  case True
  thus ?thesis using assms(2) by (simp add: branchScore_def)
next
  case False
  hence ne2: "Frames b2 \<noteq> []" using assms(2) by auto
  obtain r1 r2 where r: "raw_score cfg (Frames b1) 0 = Some r1" "0 \<le> r1"
    "raw_score cfg (Frames b2) 0 = Some r2" "0 \<le> r2"
    using raw_score_ok [OF assms(1), of 0] by (metis order_refl)
  have "r2 \<le> r1" using raw_score_mono [OF assms _ r(1,3)] by simp
  moreover have "bonus cfg (Frames b2) \<le> bonus cfg (Frames b1)" by (rule bonus_mono [OF assms False])
  moreover have "0 \<le> bonus cfg (Frames b2)" by (rule bonus_nonneg [OF assms(1) ne2])
  ultimately have "(r2 * (SCALE + bonus cfg (Frames b2))) sdiv SCALE \<le> (r1 * (SCALE + bonus cfg (Frames b1))) sdiv SCALE"
    using r(2,4) SCALE_pos by (intro sdiv_pos_mono mult_mono) auto
  moreover have "0 \<le> (r2 * (SCALE + bonus cfg (Frames b2))) sdiv SCALE"
    using r(4) \<open>0 \<le> bonus cfg (Frames b2)\<close> SCALE_pos by (intro sdiv_nonneg mult_nonneg_nonneg) auto
  ultimately show ?thesis
    using branchScore_eq [OF assms(1) False r(1)] branchScore_eq [OF assms(1) ne2 r(3)] by blast
qed

section \<open>Witnesses\<close>

definition demo_frame :: "int \<Rightarrow> u64 \<Rightarrow> Frame" where
  "demo_frame d s = \<lparr>Distance = d, Seniority = s, ProverAddress = [1]\<rparr>"

lemma default_params_ok: "params_ok DefaultForkChoiceParams"
  by (simp add: params_ok_def DefaultForkChoiceParams_def)

theorem fork_choice_best_and_sticky_witness:
  "\<exists>r. ForkChoice [\<lparr>Frames = [demo_frame 9 1]\<rparr>, \<lparr>Frames = [demo_frame 3 1]\<rparr>] DefaultForkChoiceParams 0 = Some r"
  using fork_choice_best_and_sticky [OF default_params_ok, of 0
      "[\<lparr>Frames = [demo_frame 9 1]\<rparr>, \<lparr>Frames = [demo_frame 3 1]\<rparr>]"] by auto

theorem better_frames_score_higher_witness:
  "\<exists>s1 s2. branchScore \<lparr>Frames = [demo_frame 3 2]\<rparr> DefaultForkChoiceParams = Some s1 \<and>
     branchScore \<lparr>Frames = [demo_frame 9 1]\<rparr> DefaultForkChoiceParams = Some s2 \<and> 0 \<le> s2 \<and> s2 \<le> s1"
  by (rule better_frames_score_higher [OF default_params_ok]) (simp add: frame_better_def demo_frame_def)

end
