(* ===== verification/Canonical_Types.thy ===== *)
theory Canonical_Types
  imports Prelude
begin

text \<open>
  The type prefixes of \<^verbatim>\<open>src/protobufs/canonical_types.go\<close>: the first four bytes of every
  canonical encoding, one constant per message type.
\<close>

definition MessageType :: u32 where
  "MessageType = 0x0100"

definition PeerInfoType :: u32 where
  "PeerInfoType = 0x0101"

definition CapabilityType :: u32 where
  "CapabilityType = 0x0102"

definition Ed448PublicKeyType :: u32 where
  "Ed448PublicKeyType = 0x0110"

definition Ed448PrivateKeyType :: u32 where
  "Ed448PrivateKeyType = 0x0111"

definition Ed448SignatureType :: u32 where
  "Ed448SignatureType = 0x0112"

definition X448PublicKeyType :: u32 where
  "X448PublicKeyType = 0x0113"

definition X448PrivateKeyType :: u32 where
  "X448PrivateKeyType = 0x0114"

definition PCASPublicKeyType :: u32 where
  "PCASPublicKeyType = 0x0115"

definition PCASPrivateKeyType :: u32 where
  "PCASPrivateKeyType = 0x0116"

definition BLS48581G2PublicKeyType :: u32 where
  "BLS48581G2PublicKeyType = 0x0117"

definition BLS48581G2PrivateKeyType :: u32 where
  "BLS48581G2PrivateKeyType = 0x0118"

definition BLS48581SignatureType :: u32 where
  "BLS48581SignatureType = 0x0119"

definition BLS48581SignatureWithProofOfPossessionType :: u32 where
  "BLS48581SignatureWithProofOfPossessionType = 0x011A"

definition BLS48581AddressedSignatureType :: u32 where
  "BLS48581AddressedSignatureType = 0x011B"

definition BLS48581AggregateSignatureType :: u32 where
  "BLS48581AggregateSignatureType = 0x011C"

definition Decaf448PublicKeyType :: u32 where
  "Decaf448PublicKeyType = 0x011D"

definition Decaf448PrivateKeyType :: u32 where
  "Decaf448PrivateKeyType = 0x011E"

definition Decaf448SignatureType :: u32 where
  "Decaf448SignatureType = 0x011F"

definition SignedX448KeyType :: u32 where
  "SignedX448KeyType = 0x0120"

definition SignedDevicePreKeyType :: u32 where
  "SignedDevicePreKeyType = 0x0121"

definition KeyCollectionType :: u32 where
  "KeyCollectionType = 0x0122"

definition KeyRegistryType :: u32 where
  "KeyRegistryType = 0x0123"

definition P2PChannelEnvelopeType :: u32 where
  "P2PChannelEnvelopeType = 0x0200"

definition MessageCiphertextType :: u32 where
  "MessageCiphertextType = 0x0201"

definition InboxMessageType :: u32 where
  "InboxMessageType = 0x0202"

definition HubAddInboxType :: u32 where
  "HubAddInboxType = 0x0203"

definition HubDeleteInboxType :: u32 where
  "HubDeleteInboxType = 0x0204"

definition LegacyProverRequestType :: u32 where
  "LegacyProverRequestType = 0x0300"

definition ProverJoinType :: u32 where
  "ProverJoinType = 0x0301"

definition ProverLeaveType :: u32 where
  "ProverLeaveType = 0x0302"

definition ProverPauseType :: u32 where
  "ProverPauseType = 0x0303"

definition ProverResumeType :: u32 where
  "ProverResumeType = 0x0304"

definition ProverConfirmType :: u32 where
  "ProverConfirmType = 0x0305"

definition ProverRejectType :: u32 where
  "ProverRejectType = 0x0306"

definition ProverKickType :: u32 where
  "ProverKickType = 0x0307"

definition ProverUpdateType :: u32 where
  "ProverUpdateType = 0x0308"

definition GlobalFrameHeaderType :: u32 where
  "GlobalFrameHeaderType = 0x0309"

definition FrameHeaderType :: u32 where
  "FrameHeaderType = 0x030A"

definition ProverLivenessCheckType :: u32 where
  "ProverLivenessCheckType = 0x030B"

definition FrameVoteType :: u32 where
  "FrameVoteType = 0x030C"

definition FrameConfirmationType :: u32 where
  "FrameConfirmationType = 0x030D"

definition GlobalFrameType :: u32 where
  "GlobalFrameType = 0x030E"

definition AppShardFrameType :: u32 where
  "AppShardFrameType = 0x030F"

definition SeniorityMergeType :: u32 where
  "SeniorityMergeType = 0x0310"

definition MessageRequestType :: u32 where
  "MessageRequestType = 0x0311"

definition MessageBundleType :: u32 where
  "MessageBundleType = 0x0312"

definition MultiproofType :: u32 where
  "MultiproofType = 0x0313"

definition PathType :: u32 where
  "PathType = 0x0314"

definition TraversalSubProofType :: u32 where
  "TraversalSubProofType = 0x0315"

definition TraversalProofType :: u32 where
  "TraversalProofType = 0x0316"

definition HypergraphConfigurationType :: u32 where
  "HypergraphConfigurationType = 0x0401"

definition HypergraphDeploymentType :: u32 where
  "HypergraphDeploymentType = 0x0402"

definition HypergraphUpdateType :: u32 where
  "HypergraphUpdateType = 0x0403"

definition VertexAddType :: u32 where
  "VertexAddType = 0x0404"

definition VertexRemoveType :: u32 where
  "VertexRemoveType = 0x0405"

definition HyperedgeAddType :: u32 where
  "HyperedgeAddType = 0x0406"

definition HyperedgeRemoveType :: u32 where
  "HyperedgeRemoveType = 0x0407"

definition AuthorityType :: u32 where
  "AuthorityType = 0x0500"

definition FeeBasisStructType :: u32 where
  "FeeBasisStructType = 0x0501"

definition TokenMintStrategyType :: u32 where
  "TokenMintStrategyType = 0x0502"

definition TokenConfigurationType :: u32 where
  "TokenConfigurationType = 0x0503"

definition TokenDeploymentType :: u32 where
  "TokenDeploymentType = 0x0504"

definition TokenUpdateType :: u32 where
  "TokenUpdateType = 0x0505"

definition RecipientBundleType :: u32 where
  "RecipientBundleType = 0x0506"

definition TransactionInputType :: u32 where
  "TransactionInputType = 0x0507"

definition TransactionOutputType :: u32 where
  "TransactionOutputType = 0x0508"

definition TransactionType :: u32 where
  "TransactionType = 0x0509"

definition PendingTransactionInputType :: u32 where
  "PendingTransactionInputType = 0x050A"

definition PendingTransactionOutputType :: u32 where
  "PendingTransactionOutputType = 0x050B"

definition PendingTransactionType :: u32 where
  "PendingTransactionType = 0x050C"

definition MintTransactionInputType :: u32 where
  "MintTransactionInputType = 0x050D"

definition MintTransactionOutputType :: u32 where
  "MintTransactionOutputType = 0x050E"

definition MintTransactionType :: u32 where
  "MintTransactionType = 0x050F"

definition ComputeConfigurationType :: u32 where
  "ComputeConfigurationType = 0x0600"

definition ComputeDeploymentType :: u32 where
  "ComputeDeploymentType = 0x0601"

definition ComputeUpdateType :: u32 where
  "ComputeUpdateType = 0x0602"

definition CodeDeploymentType :: u32 where
  "CodeDeploymentType = 0x0603"

definition ApplicationType :: u32 where
  "ApplicationType = 0x0604"

definition IntrinsicExecutionInputType :: u32 where
  "IntrinsicExecutionInputType = 0x0605"

definition IntrinsicExecutionOutputType :: u32 where
  "IntrinsicExecutionOutputType = 0x0606"

definition ExecutionDependencyType :: u32 where
  "ExecutionDependencyType = 0x0607"

definition ExecuteOperationType :: u32 where
  "ExecuteOperationType = 0x0608"

definition ExecutionNodeType :: u32 where
  "ExecutionNodeType = 0x0609"

definition ExecutionDAGType :: u32 where
  "ExecutionDAGType = 0x060A"

definition ExecutionStageType :: u32 where
  "ExecutionStageType = 0x060B"

definition CodeExecuteType :: u32 where
  "CodeExecuteType = 0x060C"

definition StateTransitionType :: u32 where
  "StateTransitionType = 0x060D"

definition ExecutionResultType :: u32 where
  "ExecutionResultType = 0x060E"

definition CodeFinalizeType :: u32 where
  "CodeFinalizeType = 0x060F"

definition GlobalAlertType :: u32 where
  "GlobalAlertType = 0x0911"

text \<open>All of them, in the order of the file.\<close>

definition canonical_types :: "u32 list" where
  "canonical_types =
     [MessageType, PeerInfoType, CapabilityType, Ed448PublicKeyType, Ed448PrivateKeyType,
      Ed448SignatureType, X448PublicKeyType, X448PrivateKeyType, PCASPublicKeyType,
      PCASPrivateKeyType, BLS48581G2PublicKeyType, BLS48581G2PrivateKeyType,
      BLS48581SignatureType, BLS48581SignatureWithProofOfPossessionType,
      BLS48581AddressedSignatureType, BLS48581AggregateSignatureType, Decaf448PublicKeyType,
      Decaf448PrivateKeyType, Decaf448SignatureType, SignedX448KeyType, SignedDevicePreKeyType,
      KeyCollectionType, KeyRegistryType, P2PChannelEnvelopeType, MessageCiphertextType,
      InboxMessageType, HubAddInboxType, HubDeleteInboxType, LegacyProverRequestType,
      ProverJoinType, ProverLeaveType, ProverPauseType, ProverResumeType, ProverConfirmType,
      ProverRejectType, ProverKickType, ProverUpdateType, GlobalFrameHeaderType, FrameHeaderType,
      ProverLivenessCheckType, FrameVoteType, FrameConfirmationType, GlobalFrameType,
      AppShardFrameType, SeniorityMergeType, MessageRequestType, MessageBundleType,
      MultiproofType, PathType, TraversalSubProofType, TraversalProofType,
      HypergraphConfigurationType, HypergraphDeploymentType, HypergraphUpdateType, VertexAddType,
      VertexRemoveType, HyperedgeAddType, HyperedgeRemoveType, AuthorityType, FeeBasisStructType,
      TokenMintStrategyType, TokenConfigurationType, TokenDeploymentType, TokenUpdateType,
      RecipientBundleType, TransactionInputType, TransactionOutputType, TransactionType,
      PendingTransactionInputType, PendingTransactionOutputType, PendingTransactionType,
      MintTransactionInputType, MintTransactionOutputType, MintTransactionType,
      ComputeConfigurationType, ComputeDeploymentType, ComputeUpdateType, CodeDeploymentType,
      ApplicationType, IntrinsicExecutionInputType, IntrinsicExecutionOutputType,
      ExecutionDependencyType, ExecuteOperationType, ExecutionNodeType, ExecutionDAGType,
      ExecutionStageType, CodeExecuteType, StateTransitionType, ExecutionResultType,
      CodeFinalizeType, GlobalAlertType]"

lemmas canonical_type_defs =
  MessageType_def PeerInfoType_def CapabilityType_def Ed448PublicKeyType_def
  Ed448PrivateKeyType_def Ed448SignatureType_def X448PublicKeyType_def X448PrivateKeyType_def
  PCASPublicKeyType_def PCASPrivateKeyType_def BLS48581G2PublicKeyType_def
  BLS48581G2PrivateKeyType_def BLS48581SignatureType_def
  BLS48581SignatureWithProofOfPossessionType_def BLS48581AddressedSignatureType_def
  BLS48581AggregateSignatureType_def Decaf448PublicKeyType_def Decaf448PrivateKeyType_def
  Decaf448SignatureType_def SignedX448KeyType_def SignedDevicePreKeyType_def
  KeyCollectionType_def KeyRegistryType_def P2PChannelEnvelopeType_def MessageCiphertextType_def
  InboxMessageType_def HubAddInboxType_def HubDeleteInboxType_def LegacyProverRequestType_def
  ProverJoinType_def ProverLeaveType_def ProverPauseType_def ProverResumeType_def
  ProverConfirmType_def ProverRejectType_def ProverKickType_def ProverUpdateType_def
  GlobalFrameHeaderType_def FrameHeaderType_def ProverLivenessCheckType_def FrameVoteType_def
  FrameConfirmationType_def GlobalFrameType_def AppShardFrameType_def SeniorityMergeType_def
  MessageRequestType_def MessageBundleType_def MultiproofType_def PathType_def
  TraversalSubProofType_def TraversalProofType_def HypergraphConfigurationType_def
  HypergraphDeploymentType_def HypergraphUpdateType_def VertexAddType_def VertexRemoveType_def
  HyperedgeAddType_def HyperedgeRemoveType_def AuthorityType_def FeeBasisStructType_def
  TokenMintStrategyType_def TokenConfigurationType_def TokenDeploymentType_def
  TokenUpdateType_def RecipientBundleType_def TransactionInputType_def TransactionOutputType_def
  TransactionType_def PendingTransactionInputType_def PendingTransactionOutputType_def
  PendingTransactionType_def MintTransactionInputType_def MintTransactionOutputType_def
  MintTransactionType_def ComputeConfigurationType_def ComputeDeploymentType_def
  ComputeUpdateType_def CodeDeploymentType_def ApplicationType_def
  IntrinsicExecutionInputType_def IntrinsicExecutionOutputType_def ExecutionDependencyType_def
  ExecuteOperationType_def ExecutionNodeType_def ExecutionDAGType_def ExecutionStageType_def
  CodeExecuteType_def StateTransitionType_def ExecutionResultType_def CodeFinalizeType_def
  GlobalAlertType_def

lemma canonical_types_distinct: "distinct canonical_types"
  by code_simp

end
