(* ===== verification/Canonical_Codec.thy ===== *)
theory Canonical_Codec
  imports Canonical_Types "HOL-Library.Monad_Syntax"
begin

unbundle bit_operations_syntax

text \<open>
  The canonical wire format of the messages under \<^verbatim>\<open>src/protobufs\<close>.

  Every message type has a hand-written pair \<^verbatim>\<open>ToCanonicalBytes\<close> and
  \<^verbatim>\<open>FromCanonicalBytes\<close> made of a few patterns over \<^verbatim>\<open>encoding/binary\<close> and
  \<^verbatim>\<open>bytes.Buffer\<close>: a big-endian type prefix, scalars, length-prefixed byte strings, optional
  and repeated length-prefixed submessages.  This theory models those two library interfaces and
  the patterns, and states in the locale \<open>codec\<close> what a pair promises.  The message theories
  write each method as its sequence of patterns and interpret the locale.

  Writers return \<open>fault + bytes\<close>: an error value, or the panic of a nil dereference, or the
  bytes written.  Readers take the unread part of the buffer and return the value with what is
  left, or \<^const>\<open>None\<close> for a returned error; no reader panics.
\<close>

datatype fault = Err | Panic

section \<open>Big-endian integers\<close>

text \<open>\<^verbatim>\<open>binary.BigEndian.PutUint32\<close> and \<^verbatim>\<open>PutUint64\<close>, and their inverses.\<close>

definition u32_be :: "u32 \<Rightarrow> bytes" where
  "u32_be v = [ucast (drop_bit 24 v), ucast (drop_bit 16 v), ucast (drop_bit 8 v), ucast v]"

definition u64_be :: "u64 \<Rightarrow> bytes" where
  "u64_be v =
     [ucast (drop_bit 56 v), ucast (drop_bit 48 v), ucast (drop_bit 40 v), ucast (drop_bit 32 v),
      ucast (drop_bit 24 v), ucast (drop_bit 16 v), ucast (drop_bit 8 v), ucast v]"

fun be_u32 :: "bytes \<Rightarrow> (u32 \<times> bytes) option" where
  "be_u32 (a # b # c # d # buf) =
     Some (ucast d OR push_bit 8 (ucast c) OR push_bit 16 (ucast b) OR push_bit 24 (ucast a), buf)"
| "be_u32 _ = None"

fun be_u64 :: "bytes \<Rightarrow> (u64 \<times> bytes) option" where
  "be_u64 (a # b # c # d # e # f # g # h # buf) =
     Some (ucast h OR push_bit 8 (ucast g) OR push_bit 16 (ucast f) OR push_bit 24 (ucast e) OR
           push_bit 32 (ucast d) OR push_bit 40 (ucast c) OR push_bit 48 (ucast b) OR
           push_bit 56 (ucast a), buf)"
| "be_u64 _ = None"

lemma bit_nth_byte:
  fixes v :: "'a::len word"
  shows "bit (push_bit k (ucast (ucast (drop_bit k v) :: u8)) :: 'a word) n \<longleftrightarrow>
    k \<le> n \<and> n < k + 8 \<and> bit v n"
  by (auto simp: bit_simps dest: bit_imp_le_length)

lemmas bit_nth_byte_0 = bit_nth_byte [of 0, simplified]

lemma be_u32_u32_be [simp]: "be_u32 (u32_be v @ buf) = Some (v, buf)"
proof -
  have "n < 8 \<or> 8 \<le> n \<and> n < 16 \<or> 16 \<le> n \<and> n < 24 \<or> 24 \<le> n \<and> n < 32" if "n < 32" for n :: nat
    using that by linarith
  then show ?thesis
    by (simp add: u32_be_def, intro bit_word_eqI, simp add: bit_or_iff bit_nth_byte bit_nth_byte_0)
      blast
qed

lemma be_u32_alone [simp]: "be_u32 (u32_be v) = Some (v, [])"
  using be_u32_u32_be [of v "[]"] by simp

lemma be_u64_u64_be [simp]: "be_u64 (u64_be v @ buf) = Some (v, buf)"
proof -
  have "n < 8 \<or> 8 \<le> n \<and> n < 16 \<or> 16 \<le> n \<and> n < 24 \<or> 24 \<le> n \<and> n < 32 \<or> 32 \<le> n \<and> n < 40 \<or>
      40 \<le> n \<and> n < 48 \<or> 48 \<le> n \<and> n < 56 \<or> 56 \<le> n \<and> n < 64" if "n < 64" for n :: nat
    using that by linarith
  then show ?thesis
    by (simp add: u64_be_def, intro bit_word_eqI, simp add: bit_or_iff bit_nth_byte bit_nth_byte_0)
      blast
qed

lemma not_bit_u8: "8 \<le> n \<Longrightarrow> \<not> bit (d :: u8) n"
  using bit_imp_le_length [of d n] by auto

lemma be_u32_SomeD: "be_u32 data = Some (v, buf) \<Longrightarrow> data = u32_be v @ buf"
  by (cases data rule: be_u32.cases)
    (auto simp: u32_be_def bit_simps not_bit_u8 intro!: bit_word_eqI)

lemma length_u32_be [simp]: "length (u32_be v) = 4"
  by (simp add: u32_be_def)

lemma length_u64_be [simp]: "length (u64_be v) = 8"
  by (simp add: u64_be_def)

lemma be_not_Nil [simp]: "u32_be v \<noteq> []" "u64_be n \<noteq> []"
  by (simp_all add: u32_be_def u64_be_def)

section \<open>Writers\<close>

text \<open>
  A method \<^verbatim>\<open>ToCanonicalBytes\<close> is a sequence of writes to one buffer that stops at the
  first fault.  The writers, one per pattern of the sources:

  \<^item> \<open>w_bytes\<close>: \<^verbatim>\<open>binary.Write(buf, uint32(len(f)))\<close>, then \<^verbatim>\<open>buf.Write(f)\<close> (the length
    wraps at \<open>2^32\<close>);
  \<^item> \<open>w_fixed\<close>: a length check that returns an error, then \<^verbatim>\<open>buf.Write(f)\<close>;
  \<^item> \<open>via\<close>: the method called through a pointer, which must not be nil;
  \<^item> \<open>w_sub\<close>: a submessage behind a pointer, which must not be nil;
  \<^item> \<open>w_opt\<close>: a submessage behind a pointer, length 0 when it is nil;
  \<^item> \<open>w_req\<close>: a submessage behind a pointer, an error when it is nil;
  \<^item> \<open>w_list\<close>: the number of elements and each of them.
\<close>

primrec writes :: "(fault + bytes) list \<Rightarrow> fault + bytes" where
  "writes [] = Inr []"
| "writes (w # ws) =
     (case w of Inl e \<Rightarrow> Inl e
      | Inr b \<Rightarrow> (case writes ws of Inl e \<Rightarrow> Inl e | Inr bs \<Rightarrow> Inr (b @ bs)))"

definition w_u32 :: "u32 \<Rightarrow> fault + bytes" where
  "w_u32 v = Inr (u32_be v)"

definition w_u64 :: "u64 \<Rightarrow> fault + bytes" where
  "w_u64 v = Inr (u64_be v)"

definition w_u8 :: "u8 \<Rightarrow> fault + bytes" where
  "w_u8 v = Inr [v]"

definition w_bool :: "bool \<Rightarrow> fault + bytes" where
  "w_bool v = w_u8 (if v then 1 else 0)"

definition w_bytes :: "bytes \<Rightarrow> fault + bytes" where
  "w_bytes f = Inr (u32_be (of_nat (length f)) @ f)"

definition w_fixed :: "nat \<Rightarrow> bytes \<Rightarrow> fault + bytes" where
  "w_fixed n f = (if length f \<noteq> n then Inl Err else Inr f)"

definition via :: "('m \<Rightarrow> fault + bytes) \<Rightarrow> 'm option \<Rightarrow> fault + bytes" where
  "via enc p = (case p of None \<Rightarrow> Inl Panic | Some m \<Rightarrow> enc m)"

definition w_sub :: "('m \<Rightarrow> fault + bytes) \<Rightarrow> 'm option \<Rightarrow> fault + bytes" where
  "w_sub enc p = (case via enc p of Inl e \<Rightarrow> Inl e | Inr b \<Rightarrow> w_bytes b)"

definition w_opt :: "('m \<Rightarrow> fault + bytes) \<Rightarrow> 'm option \<Rightarrow> fault + bytes" where
  "w_opt enc p = (case p of None \<Rightarrow> w_u32 0 | Some m \<Rightarrow> w_sub enc (Some m))"

definition w_req :: "('m \<Rightarrow> fault + bytes) \<Rightarrow> 'm option \<Rightarrow> fault + bytes" where
  "w_req enc p = (if p = None then Inl Err else w_sub enc p)"

definition w_list :: "('a \<Rightarrow> fault + bytes) \<Rightarrow> 'a list \<Rightarrow> fault + bytes" where
  "w_list w xs = writes (w_u32 (of_nat (length xs)) # map w xs)"

text \<open>
  A Go map with string keys, ranged over in the order \<open>order\<close>, which the language leaves open.
\<close>

definition w_map ::
  "('m \<Rightarrow> fault + bytes) \<Rightarrow> bytes list \<Rightarrow> (bytes \<rightharpoonup> 'm option) \<Rightarrow> fault + bytes" where
  "w_map enc order m = w_list (\<lambda>k. writes [w_bytes k, w_sub enc (the (m k))]) order"

section \<open>Readers\<close>

text \<open>
  \<^verbatim>\<open>binary.Read\<close> fails unless all the bytes of the integer are there.  \<^verbatim>\<open>buf.Read(p)\<close>
  (\<open>r_buf\<close>) does not: it copies what the buffer has, leaves the rest of \<^verbatim>\<open>p\<close> as
  \<^verbatim>\<open>make\<close> zeroed it, and returns an error only when the buffer is empty and \<^verbatim>\<open>p\<close> is not.
\<close>

definition r_u8 :: "bytes \<Rightarrow> (u8 \<times> bytes) option" where
  "r_u8 buf = (case buf of [] \<Rightarrow> None | b # buf' \<Rightarrow> Some (b, buf'))"

definition r_bool :: "bytes \<Rightarrow> (bool \<times> bytes) option" where
  "r_bool buf = do { (b, buf) \<leftarrow> r_u8 buf; Some (b \<noteq> 0, buf) }"

definition r_buf :: "nat \<Rightarrow> bytes \<Rightarrow> (bytes \<times> bytes) option" where
  "r_buf n buf =
     (if n = 0 then Some ([], buf)
      else if buf = [] then None
      else Some (take n buf @ replicate (n - length buf) 0, drop n buf))"

definition r_bytes :: "bytes \<Rightarrow> (bytes \<times> bytes) option" where
  "r_bytes buf = do { (n, buf) \<leftarrow> be_u32 buf; r_buf (unat n) buf }"

definition r_type :: "u32 \<Rightarrow> bytes \<Rightarrow> bytes option" where
  "r_type tag data =
     do { (typePrefix, buf) \<leftarrow> be_u32 data; if typePrefix \<noteq> tag then None else Some buf }"

definition r_sub :: "(bytes \<Rightarrow> 'm option) \<Rightarrow> bytes \<Rightarrow> ('m option \<times> bytes) option" where
  "r_sub dec buf = do { (b, buf) \<leftarrow> r_bytes buf; m \<leftarrow> dec b; Some (Some m, buf) }"

definition r_opt :: "(bytes \<Rightarrow> 'm option) \<Rightarrow> bytes \<Rightarrow> ('m option \<times> bytes) option" where
  "r_opt dec buf =
     do {
       (n, buf) \<leftarrow> be_u32 buf;
       if n > 0
       then do { (b, buf) \<leftarrow> r_buf (unat n) buf; m \<leftarrow> dec b; Some (Some m, buf) }
       else Some (None, buf)
     }"

primrec r_repeat :: "(bytes \<Rightarrow> ('a \<times> bytes) option) \<Rightarrow> nat \<Rightarrow> bytes \<Rightarrow> ('a list \<times> bytes) option"
where
  "r_repeat r 0 buf = Some ([], buf)"
| "r_repeat r (Suc n) buf =
     do { (x, buf) \<leftarrow> r buf; (xs, buf) \<leftarrow> r_repeat r n buf; Some (x # xs, buf) }"

definition r_list :: "(bytes \<Rightarrow> ('a \<times> bytes) option) \<Rightarrow> bytes \<Rightarrow> ('a list \<times> bytes) option" where
  "r_list r buf = do { (n, buf) \<leftarrow> be_u32 buf; r_repeat r (unat n) buf }"

definition r_map :: "(bytes \<Rightarrow> 'm option) \<Rightarrow> bytes \<Rightarrow> ((bytes \<rightharpoonup> 'm option) \<times> bytes) option" where
  "r_map dec buf =
     do {
       (es, buf) \<leftarrow> r_list
         (\<lambda>buf. do { (k, buf) \<leftarrow> r_bytes buf; (v, buf) \<leftarrow> r_sub dec buf; Some ((k, v), buf) }) buf;
       Some (foldl (\<lambda>m (k, v). m(k \<mapsto> v)) Map.empty es, buf)
     }"

section \<open>Reading back what was written\<close>

named_theorems codec_simps
  \<open>a reader applied to the bytes of the matching writer; success of writers\<close>

text \<open>The lengths a \<^verbatim>\<open>uint32\<close> prefix can hold: below \<open>2 ^ 32\<close>.\<close>

abbreviation fits :: "bytes \<Rightarrow> bool" where
  "fits bs \<equiv> length bs < 4294967296"

lemma writes_Inr [codec_simps]:
  "writes [] = Inr bs \<longleftrightarrow> bs = []"
  "writes (w # ws) = Inr bs \<longleftrightarrow> (\<exists>b bs'. w = Inr b \<and> writes ws = Inr bs' \<and> bs = b @ bs')"
  by (auto split: sum.splits)

declare writes.simps [simp del]

lemma w_Inr [codec_simps]:
  "w_u32 v = Inr bs \<longleftrightarrow> bs = u32_be v"
  "w_u64 n = Inr bs \<longleftrightarrow> bs = u64_be n"
  "w_u8 d = Inr bs \<longleftrightarrow> bs = [d]"
  "w_bool b = Inr bs \<longleftrightarrow> bs = [if b then 1 else 0]"
  "w_bytes f = Inr bs \<longleftrightarrow> bs = u32_be (of_nat (length f)) @ f"
  "w_fixed k f = Inr bs \<longleftrightarrow> length f = k \<and> bs = f"
  by (auto simp: w_u32_def w_u64_def w_u8_def w_bool_def w_bytes_def w_fixed_def)

lemma w_req_Inr [codec_simps]: "w_req enc p = Inr bs \<longleftrightarrow> w_sub enc p = Inr bs"
  by (auto simp: w_req_def w_sub_def via_def)

lemma unat_length [simp]: "length f < 4294967296 \<Longrightarrow> unat (of_nat (length f) :: u32) = length f"
  by (simp add: unat_of_nat)

lemma r_buf_append [codec_simps]: "length f = n \<Longrightarrow> r_buf n (f @ buf) = Some (f, buf)"
  by (auto simp: r_buf_def)

lemma r_written [codec_simps]:
  "r_u8 (d # buf) = Some (d, buf)"
  "r_bool (d # buf) = Some (d \<noteq> 0, buf)"
  "length f < 4294967296 \<Longrightarrow> r_bytes (u32_be (of_nat (length f)) @ f @ buf) = Some (f, buf)"
  "r_type tag (u32_be tag @ buf) = Some buf"
  by (simp_all add: r_u8_def r_bool_def r_bytes_def r_buf_append r_type_def)

text \<open>A byte string that is cut short is read with zeros in place of what is missing.\<close>

lemma r_bytes_truncated:
  assumes "k < length f" and "fits f"
  shows "r_bytes (u32_be (of_nat (length f)) @ take (length f - k) f) =
    Some (take (length f - k) f @ replicate k 0, [])"
  using assms by (auto simp: r_bytes_def r_buf_def)

lemma r_list_written:
  assumes step: "\<And>x b buf. w x = Inr b \<Longrightarrow> fits b \<Longrightarrow> r (b @ buf) = Some (f x, buf)"
    and nonempty: "\<And>x b. w x = Inr b \<Longrightarrow> b \<noteq> []"
    and "w_list w xs = Inr bs" and "fits bs"
  shows "r_list r (bs @ buf) = Some (map f xs, buf)"
proof -
  have *: "length xs \<le> length bs \<and> r_repeat r (length xs) (bs @ buf) = Some (map f xs, buf)"
    if "writes (map w xs) = Inr bs" "fits bs" for xs bs
    using that
  proof (induction xs arbitrary: bs)
    case (Cons x xs)
    then obtain b bs' where b: "w x = Inr b" "writes (map w xs) = Inr bs'" "bs = b @ bs'"
      by (auto simp: writes_Inr)
    moreover have "1 \<le> length b" using nonempty [OF b(1)] by (cases b) auto
    ultimately show ?case using Cons by (simp add: step)
  qed (simp add: writes_Inr)
  from assms(3) obtain bs' where bs': "writes (map w xs) = Inr bs'"
      "bs = u32_be (of_nat (length xs)) @ bs'"
    by (auto simp: w_list_def writes_Inr w_Inr)
  with assms(4) have "length xs \<le> length bs'" "length bs' < 4294967296"
      "r_repeat r (length xs) (bs' @ buf) = Some (map f xs, buf)"
    using * [of xs bs'] by simp_all
  with bs' show ?thesis by (simp add: r_list_def)
qed

lemma r_list_bytes_written:
  "w_list w_bytes fs = Inr bs \<Longrightarrow> fits bs \<Longrightarrow> r_list r_bytes (bs @ buf) = Some (fs, buf)"
  using r_list_written [where w = w_bytes and r = r_bytes and f = "\<lambda>x. x"]
  by (simp add: w_Inr r_written)

lemma r_list_u64_written:
  "w_list w_u64 ns = Inr bs \<Longrightarrow> fits bs \<Longrightarrow> r_list be_u64 (bs @ buf) = Some (ns, buf)"
  using r_list_written [where w = w_u64 and r = be_u64 and f = "\<lambda>x. x"]
  by (simp add: w_Inr)

lemmas r_lists_written [codec_simps] = r_list_bytes_written r_list_u64_written

section \<open>Success of the writers\<close>

lemma isl_writes [codec_simps]:
  "\<not> isl (writes [])"
  "isl (writes (w # ws)) \<longleftrightarrow> isl w \<or> isl (writes ws)"
  by (auto simp: writes.simps split: sum.splits)

lemma isl_writes_map: "isl (writes (map w xs)) \<longleftrightarrow> (\<exists>x \<in> set xs. isl (w x))"
  by (induction xs) (auto simp: isl_writes)

lemma isl_w [codec_simps]:
  "\<not> isl (w_u32 v)" "\<not> isl (w_u64 n)" "\<not> isl (w_u8 d)" "\<not> isl (w_bool b)" "\<not> isl (w_bytes f)"
  "isl (w_fixed k f) \<longleftrightarrow> length f \<noteq> k"
  "isl (w_list w xs) \<longleftrightarrow> (\<exists>x \<in> set xs. isl (w x))"
  by (auto simp: w_u32_def w_u64_def w_u8_def w_bool_def w_bytes_def w_fixed_def w_list_def
      isl_writes isl_writes_map)

lemma isl_w_sub_iff: "isl (w_sub enc p) \<longleftrightarrow> p = None \<or> (\<exists>m. p = Some m \<and> isl (enc m))"
  by (auto simp: w_sub_def via_def w_bytes_def isl_def split: option.splits sum.splits)

lemma isl_w_opt_iff: "isl (w_opt enc p) \<longleftrightarrow> (\<exists>m. p = Some m \<and> isl (enc m))"
  by (auto simp: w_opt_def isl_w_sub_iff w_u32_def split: option.splits)

lemma isl_w_req [codec_simps]: "isl (w_req enc p) \<longleftrightarrow> isl (w_sub enc p)"
  by (auto simp: w_req_def w_sub_def via_def)

lemma validated_list_encodes:
  assumes "list_all V ps" and "\<not> V None" and "\<And>m. V (Some m) \<Longrightarrow> \<not> isl (enc m)"
  shows "\<not> isl (w_list (w_sub enc) ps)"
  using assms by (auto simp: isl_w isl_w_sub_iff list_all_iff) (metis not_None_eq)

lemma length_r_buf: "r_buf n buf = Some (f, buf') \<Longrightarrow> length f = n"
  by (auto simp: r_buf_def split: if_splits)

lemma r_repeat_all:
  assumes "\<And>buf x buf'. r buf = Some (x, buf') \<Longrightarrow> P x"
  shows "r_repeat r n buf = Some (xs, buf') \<Longrightarrow> \<forall>x \<in> set xs. P x"
  by (induction n arbitrary: buf xs) (auto simp: bind_eq_Some_conv dest: assms)

lemma r_list_all:
  assumes "\<And>buf x buf'. r buf = Some (x, buf') \<Longrightarrow> P x"
  shows "r_list r buf = Some (xs, buf') \<Longrightarrow> \<forall>x \<in> set xs. P x"
  using r_repeat_all [of r P] assms by (auto simp: r_list_def bind_eq_Some_conv)

lemma foldl_map_upd: "foldl (\<lambda>m (k, v). m(k \<mapsto> v)) m es = m ++ map_of (rev es)"
proof (induction es arbitrary: m)
  case (Cons e es)
  then show ?case by (cases e) (auto simp: map_add_def fun_eq_iff split: option.splits)
qed simp

lemma r_type_SomeD: "r_type tag data = Some buf \<Longrightarrow> data = u32_be tag @ buf"
  by (auto simp: r_type_def bind_eq_Some_conv dest: be_u32_SomeD split: if_splits)

section \<open>What a message's two methods promise\<close>

text \<open>
  \<open>enc\<close> writes the type prefix first and \<open>dec\<close> requires it; \<open>dec\<close> inverts \<open>enc\<close> whatever
  follows in the buffer, up to the fields that the message does not carry on the wire
  (\<open>canon\<close> resets those); a decoded message can always be encoded again.  The bound
  \<open>fits bs\<close> is the one the format needs: within it no length prefix wraps.
\<close>

locale codec =
  fixes tag :: u32
    and enc :: "'m \<Rightarrow> fault + bytes"
    and dec :: "bytes \<Rightarrow> 'm option"
    and canon :: "'m \<Rightarrow> 'm"
  assumes enc_prefix: "enc x = Inr bs \<Longrightarrow> \<exists>body. bs = u32_be tag @ body"
    and dec_prefix: "dec data = Some x \<Longrightarrow> \<exists>body. data = u32_be tag @ body"
    and dec_enc: "enc x = Inr bs \<Longrightarrow> fits bs \<Longrightarrow> dec (bs @ rest) = Some (canon x)"
    and reencodes: "dec data = Some x \<Longrightarrow> \<not> isl (enc x)"
    and enc_canon: "enc (canon x) = enc x"
    and dec_canon: "dec data = Some x \<Longrightarrow> canon x = x"
begin

lemma enc_nonempty: "enc x = Inr bs \<Longrightarrow> 4 \<le> length bs"
  using enc_prefix by fastforce

lemma w_sub_Inr:
  "w_sub enc p = Inr bs \<longleftrightarrow>
   (\<exists>m b. p = Some m \<and> enc m = Inr b \<and> bs = u32_be (of_nat (length b)) @ b)"
  by (auto simp: w_sub_def via_def w_Inr split: option.splits sum.splits)

lemma r_sub_written:
  assumes "w_sub enc p = Inr b" and "fits b"
  shows "r_sub dec (b @ buf) = Some (map_option canon p, buf)"
  using assms dec_enc [where rest = "[]"] by (auto simp: w_sub_Inr r_sub_def r_written)

lemma r_opt_written:
  assumes "w_opt enc p = Inr b" and "fits b"
  shows "r_opt dec (b @ buf) = Some (map_option canon p, buf)"
proof (cases p)
  case None
  with assms show ?thesis by (auto simp: w_opt_def w_Inr r_opt_def)
next
  case (Some m)
  with assms obtain b' where "enc m = Inr b'" "b = u32_be (of_nat (length b')) @ b'"
    by (auto simp: w_opt_def w_sub_Inr)
  moreover from this have "(of_nat (length b') :: u32) \<noteq> 0"
    using assms(2) enc_nonempty unat_length [of b'] by fastforce
  ultimately show ?thesis
    using Some assms(2) dec_enc [of m b' "[]"]
    by (simp add: r_opt_def r_buf_append word_gt_0)
qed

lemma r_list_sub_written:
  "w_list (w_sub enc) ps = Inr b \<Longrightarrow> fits b \<Longrightarrow>
   r_list (r_sub dec) (b @ buf) = Some (map (map_option canon) ps, buf)"
  by (rule r_list_written [where w = "w_sub enc"]) (auto simp: r_sub_written w_sub_Inr u32_be_def)

lemma r_list_opt_written:
  "w_list (w_opt enc) ps = Inr b \<Longrightarrow> fits b \<Longrightarrow>
   r_list (r_opt dec) (b @ buf) = Some (map (map_option canon) ps, buf)"
  by (rule r_list_written [where w = "w_opt enc"])
    (auto simp: r_opt_written w_opt_def w_sub_Inr w_Inr u32_be_def split: option.splits)

lemma w_opt_canon: "w_opt enc (map_option canon p) = w_opt enc p"
  by (simp add: w_opt_def w_sub_def via_def enc_canon split: option.splits)

lemma w_sub_canon: "w_sub enc (map_option canon p) = w_sub enc p"
  by (simp add: w_sub_def via_def enc_canon split: option.splits)

lemma isl_w_sub [codec_simps]: "r_sub dec buf = Some (p, buf') \<Longrightarrow> \<not> isl (w_sub enc p)"
  using reencodes
  by (auto simp: r_sub_def bind_eq_Some_conv w_sub_def via_def w_bytes_def split: sum.splits
      dest!: reencodes)

lemma isl_w_opt [codec_simps]: "r_opt dec buf = Some (p, buf') \<Longrightarrow> \<not> isl (w_opt enc p)"
  using reencodes
  by (auto simp: r_opt_def bind_eq_Some_conv w_opt_def w_sub_def via_def w_bytes_def w_u32_def
      split: sum.splits if_splits dest!: reencodes)

lemma isl_w_list_sub [codec_simps]:
  "r_list (r_sub dec) buf = Some (ps, buf') \<Longrightarrow> p \<in> set ps \<Longrightarrow> \<not> isl (w_sub enc p)"
  using r_list_all [where P = "\<lambda>p. \<not> isl (w_sub enc p)"] isl_w_sub by blast

lemma isl_w_list_opt [codec_simps]:
  "r_list (r_opt dec) buf = Some (ps, buf') \<Longrightarrow> p \<in> set ps \<Longrightarrow> \<not> isl (w_opt enc p)"
  using r_list_all [where P = "\<lambda>p. \<not> isl (w_opt enc p)"] isl_w_opt by blast

lemma r_opt_canon: "r_opt dec buf = Some (p, buf') \<Longrightarrow> map_option canon p = p"
  by (auto simp: r_opt_def bind_eq_Some_conv dec_canon split: if_splits)

lemma r_sub_canon: "r_sub dec buf = Some (p, buf') \<Longrightarrow> map_option canon p = p"
  by (auto simp: r_sub_def bind_eq_Some_conv dec_canon)

lemma r_list_opt_canon:
  "r_list (r_opt dec) buf = Some (ps, buf') \<Longrightarrow> map (map_option canon) ps = ps"
  using r_list_all [where P = "\<lambda>p. map_option canon p = p"] r_opt_canon by (blast intro: map_idI)

lemma r_list_sub_canon:
  "r_list (r_sub dec) buf = Some (ps, buf') \<Longrightarrow> map (map_option canon) ps = ps"
  using r_list_all [where P = "\<lambda>p. map_option canon p = p"] r_sub_canon by (blast intro: map_idI)

lemma via_written:
  assumes "via enc p = Inr b" and "fits b"
  shows "\<exists>body. b = u32_be tag @ body \<and> map_option Some (dec b) = Some (map_option canon p)"
proof -
  from assms(1) obtain m where m: "p = Some m" "enc m = Inr b"
    by (auto simp: via_def split: option.splits)
  with dec_enc [OF m(2) assms(2), of "[]"] enc_prefix [OF m(2)] show ?thesis by auto
qed

lemma isl_via [codec_simps]: "dec b = Some m \<Longrightarrow> \<not> isl (via enc (Some m))"
  by (simp add: via_def reencodes)

text \<open>Equal bytes mean equal messages, up to the fields that are not on the wire.\<close>

lemma enc_eq_canon: "enc x = Inr bs \<Longrightarrow> enc y = Inr bs \<Longrightarrow> fits bs \<Longrightarrow> canon x = canon y"
  using dec_enc [of x bs "[]"] dec_enc [of y bs "[]"] by simp

text \<open>Encoding a decoded message gives bytes that decode to that message again.\<close>

lemma dec_stable:
  assumes "dec data = Some x"
  shows "\<exists>bs. enc x = Inr bs \<and> (fits bs \<longrightarrow> dec bs = Some x)"
  using reencodes [OF assms] dec_enc [of x _ "[]"] dec_canon [OF assms] by (cases "enc x") auto

end

text \<open>A message all of whose fields are on the wire.\<close>

locale lossless_codec = codec tag enc dec "\<lambda>x. x"
  for tag :: u32
    and enc :: "'m \<Rightarrow> fault + bytes"
    and dec :: "bytes \<Rightarrow> 'm option"
begin

lemma sub_id [codec_simps]:
  "w_sub enc p = Inr b \<Longrightarrow> fits b \<Longrightarrow> r_sub dec (b @ buf) = Some (p, buf)"
  using r_sub_written by (simp add: option.map_ident)

lemma opt_id [codec_simps]:
  "w_opt enc p = Inr b \<Longrightarrow> fits b \<Longrightarrow> r_opt dec (b @ buf) = Some (p, buf)"
  using r_opt_written by (simp add: option.map_ident)

lemma list_sub_id [codec_simps]:
  "w_list (w_sub enc) ps = Inr b \<Longrightarrow> fits b \<Longrightarrow> r_list (r_sub dec) (b @ buf) = Some (ps, buf)"
  using r_list_sub_written by (simp add: option.map_ident map_idI)

lemma map_id [codec_simps]:
  assumes "set order = dom m" and "w_map enc order m = Inr b" and "fits b"
  shows "r_map dec (b @ buf) = Some (m, buf)"
proof -
  let ?w = "\<lambda>k. writes [w_bytes k, w_sub enc (the (m k))]"
  let ?r = "\<lambda>buf. do { (k, buf) \<leftarrow> r_bytes buf; (v, buf) \<leftarrow> r_sub dec buf; Some ((k, v), buf) }"
  have "r_list ?r (b @ buf) = Some (map (\<lambda>k. (k, the (m k))) order, buf)"
    using assms(2, 3) unfolding w_map_def
    by (rule r_list_written [where w = ?w, rotated 2]) (auto simp: codec_simps)
  moreover have "(Some \<circ> (\<lambda>k. the (m k))) |` dom m = m"
    by (auto simp: restrict_map_def fun_eq_iff dom_def)
  ultimately show ?thesis
    using assms(1) by (simp add: r_map_def foldl_map_upd rev_map map_of_map_restrict)
qed

text \<open>Reading through a dispatch \<open>f\<close> on the type prefix, which wraps the message in \<open>C\<close>.\<close>

lemma via_dispatch:
  assumes "via enc p = Inr b" and "fits b"
    and "\<And>b. f tag b = map_option (C \<circ> Some) (dec b)"
  shows "\<exists>body. b = u32_be tag @ body \<and> f tag b = Some (C p)"
  using via_written [OF assms(1, 2)] assms(3) by (auto simp: option.map_ident)

lemma enc_inj: "enc x = Inr bs \<Longrightarrow> enc y = Inr bs \<Longrightarrow> fits bs \<Longrightarrow> x = y"
  by (rule enc_eq_canon)

end

text \<open>
  The laws for a pair of methods of the usual shape: one sequence of writes after the type
  prefix, one chain of reads after its check.
\<close>

lemma lossless_codecI:
  assumes enc: "\<And>x. enc x = writes (w_u32 tag # ws x)"
    and dec: "\<And>data. dec data = Option.bind (r_type tag data) rd"
    and rd_ws: "\<And>x bs rest. writes (ws x) = Inr bs \<Longrightarrow> length bs < 4294967296 \<Longrightarrow>
      rd (bs @ rest) = Some x"
    and ws_rd: "\<And>buf x. rd buf = Some x \<Longrightarrow> \<not> isl (writes (ws x))"
  shows "lossless_codec tag enc dec"
  by unfold_locales
    (auto simp: enc dec codec_simps bind_eq_Some_conv rd_ws dest: ws_rd r_type_SomeD)

lemma r_fixed_ok [codec_simps]: "r_buf n buf = Some (f, buf') \<Longrightarrow> length f = n"
  by (rule length_r_buf)

end
