(* ===== verification/Key_Messages.thy ===== *)
theory Key_Messages
  imports Canonical_Codec
begin

text \<open>
  The key and signature messages of \<^verbatim>\<open>src/protobufs/keys.go\<close>: records with the fields of the
  message structs, their canonical encodings, their \<^verbatim>\<open>Validate\<close> methods and the signature
  checks.  A pointer to a message is an \<open>option\<close>, a byte slice or string a list of bytes (nil and
  empty slices are not told apart, the code never does).  \<^verbatim>\<open>FromCanonicalBytes\<close> is modelled on
  a fresh receiver.  \<^verbatim>\<open>Validate\<close> takes the pointer and is true when the method returns nil.
\<close>

section \<open>Public keys\<close>

record Ed448PublicKey =
  KeyValue :: bytes

definition Ed448PublicKey_ToCanonicalBytes :: "Ed448PublicKey \<Rightarrow> fault + bytes" where
  "Ed448PublicKey_ToCanonicalBytes e = writes
     [w_u32 Ed448PublicKeyType, w_fixed 57 (Ed448PublicKey.KeyValue e)]"

definition Ed448PublicKey_FromCanonicalBytes :: "bytes \<Rightarrow> Ed448PublicKey option" where
  "Ed448PublicKey_FromCanonicalBytes data =
     do {
       buf \<leftarrow> r_type Ed448PublicKeyType data;
       (keyValue, buf) \<leftarrow> r_buf 57 buf;
       Some \<lparr>Ed448PublicKey.KeyValue = keyValue\<rparr>
     }"

interpretation ed448_public_key: lossless_codec Ed448PublicKeyType
  Ed448PublicKey_ToCanonicalBytes Ed448PublicKey_FromCanonicalBytes
  by (rule lossless_codecI
      [OF Ed448PublicKey_ToCanonicalBytes_def Ed448PublicKey_FromCanonicalBytes_def])
    (auto simp: codec_simps bind_eq_Some_conv)

record BLS48581G2PublicKey =
  KeyValue :: bytes

definition BLS48581G2PublicKey_ToCanonicalBytes :: "BLS48581G2PublicKey \<Rightarrow> fault + bytes" where
  "BLS48581G2PublicKey_ToCanonicalBytes b = writes
     [w_u32 BLS48581G2PublicKeyType, w_fixed 585 (BLS48581G2PublicKey.KeyValue b)]"

definition BLS48581G2PublicKey_FromCanonicalBytes :: "bytes \<Rightarrow> BLS48581G2PublicKey option" where
  "BLS48581G2PublicKey_FromCanonicalBytes data =
     do {
       buf \<leftarrow> r_type BLS48581G2PublicKeyType data;
       (keyValue, buf) \<leftarrow> r_buf 585 buf;
       Some \<lparr>BLS48581G2PublicKey.KeyValue = keyValue\<rparr>
     }"

interpretation bls_g2_public_key: lossless_codec BLS48581G2PublicKeyType
  BLS48581G2PublicKey_ToCanonicalBytes BLS48581G2PublicKey_FromCanonicalBytes
  by (rule lossless_codecI
      [OF BLS48581G2PublicKey_ToCanonicalBytes_def BLS48581G2PublicKey_FromCanonicalBytes_def])
    (auto simp: codec_simps bind_eq_Some_conv)

record X448PublicKey =
  KeyValue :: bytes

definition X448PublicKey_ToCanonicalBytes :: "X448PublicKey \<Rightarrow> fault + bytes" where
  "X448PublicKey_ToCanonicalBytes d = writes
     [w_u32 X448PublicKeyType, w_fixed 57 (X448PublicKey.KeyValue d)]"

definition X448PublicKey_FromCanonicalBytes :: "bytes \<Rightarrow> X448PublicKey option" where
  "X448PublicKey_FromCanonicalBytes data =
     do {
       buf \<leftarrow> r_type X448PublicKeyType data;
       (keyValue, buf) \<leftarrow> r_buf 57 buf;
       Some \<lparr>X448PublicKey.KeyValue = keyValue\<rparr>
     }"

interpretation x448_public_key: lossless_codec X448PublicKeyType
  X448PublicKey_ToCanonicalBytes X448PublicKey_FromCanonicalBytes
  by (rule lossless_codecI
      [OF X448PublicKey_ToCanonicalBytes_def X448PublicKey_FromCanonicalBytes_def])
    (auto simp: codec_simps bind_eq_Some_conv)

record Decaf448PublicKey =
  KeyValue :: bytes

definition Decaf448PublicKey_ToCanonicalBytes :: "Decaf448PublicKey \<Rightarrow> fault + bytes" where
  "Decaf448PublicKey_ToCanonicalBytes d = writes
     [w_u32 Decaf448PublicKeyType, w_fixed 56 (Decaf448PublicKey.KeyValue d)]"

definition Decaf448PublicKey_FromCanonicalBytes :: "bytes \<Rightarrow> Decaf448PublicKey option" where
  "Decaf448PublicKey_FromCanonicalBytes data =
     do {
       buf \<leftarrow> r_type Decaf448PublicKeyType data;
       (keyValue, buf) \<leftarrow> r_buf 56 buf;
       Some \<lparr>Decaf448PublicKey.KeyValue = keyValue\<rparr>
     }"

interpretation decaf448_public_key: lossless_codec Decaf448PublicKeyType
  Decaf448PublicKey_ToCanonicalBytes Decaf448PublicKey_FromCanonicalBytes
  by (rule lossless_codecI
      [OF Decaf448PublicKey_ToCanonicalBytes_def Decaf448PublicKey_FromCanonicalBytes_def])
    (auto simp: codec_simps bind_eq_Some_conv)

section \<open>Signatures\<close>

record Ed448Signature =
  Signature :: bytes
  PublicKey :: "Ed448PublicKey option"

definition Ed448Signature_ToCanonicalBytes :: "Ed448Signature \<Rightarrow> fault + bytes" where
  "Ed448Signature_ToCanonicalBytes e = writes
     [w_u32 Ed448SignatureType,
      w_opt Ed448PublicKey_ToCanonicalBytes (Ed448Signature.PublicKey e),
      w_bytes (Ed448Signature.Signature e)]"

definition Ed448Signature_FromCanonicalBytes :: "bytes \<Rightarrow> Ed448Signature option" where
  "Ed448Signature_FromCanonicalBytes data =
     do {
       buf \<leftarrow> r_type Ed448SignatureType data;
       (publicKey, buf) \<leftarrow> r_opt Ed448PublicKey_FromCanonicalBytes buf;
       (sig, buf) \<leftarrow> r_bytes buf;
       Some \<lparr>Ed448Signature.Signature = sig, Ed448Signature.PublicKey = publicKey\<rparr>
     }"

interpretation ed448_signature: lossless_codec Ed448SignatureType
  Ed448Signature_ToCanonicalBytes Ed448Signature_FromCanonicalBytes
  by (rule lossless_codecI
      [OF Ed448Signature_ToCanonicalBytes_def Ed448Signature_FromCanonicalBytes_def])
    (auto simp: codec_simps bind_eq_Some_conv)

record BLS48581Signature =
  Signature :: bytes
  PublicKey :: "BLS48581G2PublicKey option"

definition BLS48581Signature_ToCanonicalBytes :: "BLS48581Signature \<Rightarrow> fault + bytes" where
  "BLS48581Signature_ToCanonicalBytes b = writes
     [w_u32 BLS48581SignatureType,
      w_opt BLS48581G2PublicKey_ToCanonicalBytes (BLS48581Signature.PublicKey b),
      w_bytes (BLS48581Signature.Signature b)]"

definition BLS48581Signature_FromCanonicalBytes :: "bytes \<Rightarrow> BLS48581Signature option" where
  "BLS48581Signature_FromCanonicalBytes data =
     do {
       buf \<leftarrow> r_type BLS48581SignatureType data;
       (publicKey, buf) \<leftarrow> r_opt BLS48581G2PublicKey_FromCanonicalBytes buf;
       (sig, buf) \<leftarrow> r_bytes buf;
       Some \<lparr>BLS48581Signature.Signature = sig, BLS48581Signature.PublicKey = publicKey\<rparr>
     }"

interpretation bls_signature: lossless_codec BLS48581SignatureType
  BLS48581Signature_ToCanonicalBytes BLS48581Signature_FromCanonicalBytes
  by (rule lossless_codecI
      [OF BLS48581Signature_ToCanonicalBytes_def BLS48581Signature_FromCanonicalBytes_def])
    (auto simp: codec_simps bind_eq_Some_conv)

record BLS48581SignatureWithProofOfPossession =
  Signature :: bytes
  PublicKey :: "BLS48581G2PublicKey option"
  PopSignature :: bytes

definition BLS48581SignatureWithProofOfPossession_ToCanonicalBytes :: "BLS48581SignatureWithProofOfPossession \<Rightarrow> fault + bytes" where
  "BLS48581SignatureWithProofOfPossession_ToCanonicalBytes b = writes
     [w_u32 BLS48581SignatureWithProofOfPossessionType,
      w_bytes (BLS48581SignatureWithProofOfPossession.Signature b),
      w_opt BLS48581G2PublicKey_ToCanonicalBytes
        (BLS48581SignatureWithProofOfPossession.PublicKey b),
      w_bytes (BLS48581SignatureWithProofOfPossession.PopSignature b)]"

definition BLS48581SignatureWithProofOfPossession_FromCanonicalBytes :: "bytes \<Rightarrow> BLS48581SignatureWithProofOfPossession option" where
  "BLS48581SignatureWithProofOfPossession_FromCanonicalBytes data =
     do {
       buf \<leftarrow> r_type BLS48581SignatureWithProofOfPossessionType data;
       (sig, buf) \<leftarrow> r_bytes buf;
       (publicKey, buf) \<leftarrow> r_opt BLS48581G2PublicKey_FromCanonicalBytes buf;
       (popSignature, buf) \<leftarrow> r_bytes buf;
       Some \<lparr>BLS48581SignatureWithProofOfPossession.Signature = sig,
             BLS48581SignatureWithProofOfPossession.PublicKey = publicKey,
             BLS48581SignatureWithProofOfPossession.PopSignature = popSignature\<rparr>
     }"

interpretation bls_signature_with_proof_of_possession: lossless_codec BLS48581SignatureWithProofOfPossessionType
  BLS48581SignatureWithProofOfPossession_ToCanonicalBytes BLS48581SignatureWithProofOfPossession_FromCanonicalBytes
  by (rule lossless_codecI
      [OF BLS48581SignatureWithProofOfPossession_ToCanonicalBytes_def BLS48581SignatureWithProofOfPossession_FromCanonicalBytes_def])
    (auto simp: codec_simps bind_eq_Some_conv)

record BLS48581AddressedSignature =
  Signature :: bytes
  Address :: bytes

definition BLS48581AddressedSignature_ToCanonicalBytes :: "BLS48581AddressedSignature \<Rightarrow> fault + bytes" where
  "BLS48581AddressedSignature_ToCanonicalBytes b = writes
     [w_u32 BLS48581AddressedSignatureType, w_bytes (BLS48581AddressedSignature.Signature b),
      w_bytes (BLS48581AddressedSignature.Address b)]"

definition BLS48581AddressedSignature_FromCanonicalBytes :: "bytes \<Rightarrow> BLS48581AddressedSignature option" where
  "BLS48581AddressedSignature_FromCanonicalBytes data =
     do {
       buf \<leftarrow> r_type BLS48581AddressedSignatureType data;
       (sig, buf) \<leftarrow> r_bytes buf;
       (address, buf) \<leftarrow> r_bytes buf;
       Some \<lparr>BLS48581AddressedSignature.Signature = sig,
             BLS48581AddressedSignature.Address = address\<rparr>
     }"

interpretation bls_addressed_signature: lossless_codec BLS48581AddressedSignatureType
  BLS48581AddressedSignature_ToCanonicalBytes BLS48581AddressedSignature_FromCanonicalBytes
  by (rule lossless_codecI
      [OF BLS48581AddressedSignature_ToCanonicalBytes_def BLS48581AddressedSignature_FromCanonicalBytes_def])
    (auto simp: codec_simps bind_eq_Some_conv)

record BLS48581AggregateSignature =
  Signature :: bytes
  PublicKey :: "BLS48581G2PublicKey option"
  Bitmask :: bytes

definition BLS48581AggregateSignature_ToCanonicalBytes :: "BLS48581AggregateSignature \<Rightarrow> fault + bytes" where
  "BLS48581AggregateSignature_ToCanonicalBytes b = writes
     [w_u32 BLS48581AggregateSignatureType, w_bytes (BLS48581AggregateSignature.Signature b),
      w_opt BLS48581G2PublicKey_ToCanonicalBytes (BLS48581AggregateSignature.PublicKey b),
      w_bytes (BLS48581AggregateSignature.Bitmask b)]"

definition BLS48581AggregateSignature_FromCanonicalBytes :: "bytes \<Rightarrow> BLS48581AggregateSignature option" where
  "BLS48581AggregateSignature_FromCanonicalBytes data =
     do {
       buf \<leftarrow> r_type BLS48581AggregateSignatureType data;
       (sig, buf) \<leftarrow> r_bytes buf;
       (publicKey, buf) \<leftarrow> r_opt BLS48581G2PublicKey_FromCanonicalBytes buf;
       (bitmask, buf) \<leftarrow> r_bytes buf;
       Some \<lparr>BLS48581AggregateSignature.Signature = sig,
             BLS48581AggregateSignature.PublicKey = publicKey,
             BLS48581AggregateSignature.Bitmask = bitmask\<rparr>
     }"

interpretation bls_aggregate_signature: lossless_codec BLS48581AggregateSignatureType
  BLS48581AggregateSignature_ToCanonicalBytes BLS48581AggregateSignature_FromCanonicalBytes
  by (rule lossless_codecI
      [OF BLS48581AggregateSignature_ToCanonicalBytes_def BLS48581AggregateSignature_FromCanonicalBytes_def])
    (auto simp: codec_simps bind_eq_Some_conv)

record Decaf448Signature =
  Signature :: bytes
  PublicKey :: "Decaf448PublicKey option"

definition Decaf448Signature_ToCanonicalBytes :: "Decaf448Signature \<Rightarrow> fault + bytes" where
  "Decaf448Signature_ToCanonicalBytes d = writes
     [w_u32 Decaf448SignatureType,
      w_opt Decaf448PublicKey_ToCanonicalBytes (Decaf448Signature.PublicKey d),
      w_bytes (Decaf448Signature.Signature d)]"

definition Decaf448Signature_FromCanonicalBytes :: "bytes \<Rightarrow> Decaf448Signature option" where
  "Decaf448Signature_FromCanonicalBytes data =
     do {
       buf \<leftarrow> r_type Decaf448SignatureType data;
       (publicKey, buf) \<leftarrow> r_opt Decaf448PublicKey_FromCanonicalBytes buf;
       (sig, buf) \<leftarrow> r_bytes buf;
       Some \<lparr>Decaf448Signature.Signature = sig, Decaf448Signature.PublicKey = publicKey\<rparr>
     }"

interpretation decaf448_signature: lossless_codec Decaf448SignatureType
  Decaf448Signature_ToCanonicalBytes Decaf448Signature_FromCanonicalBytes
  by (rule lossless_codecI
      [OF Decaf448Signature_ToCanonicalBytes_def Decaf448Signature_FromCanonicalBytes_def])
    (auto simp: codec_simps bind_eq_Some_conv)

section \<open>Validation of keys and signatures\<close>

record Ed448PrivateKey =
  KeyValue :: bytes
  PublicKey :: "Ed448PublicKey option"

record Decaf448PrivateKey =
  KeyValue :: bytes
  PublicKey :: "Decaf448PublicKey option"

record X448PrivateKey =
  KeyValue :: bytes
  PublicKey :: "X448PublicKey option"

record PCASPublicKey =
  KeyValue :: bytes

record PCASPrivateKey =
  KeyValue :: bytes
  PublicKey :: "PCASPublicKey option"

definition Ed448PublicKey_Validate :: "Ed448PublicKey option \<Rightarrow> bool" where
  "Ed448PublicKey_Validate p =
     (case p of None \<Rightarrow> False
      | Some e \<Rightarrow> length (Ed448PublicKey.KeyValue e) = 57)"

definition Decaf448PublicKey_Validate :: "Decaf448PublicKey option \<Rightarrow> bool" where
  "Decaf448PublicKey_Validate p =
     (case p of None \<Rightarrow> False
      | Some k \<Rightarrow> length (Decaf448PublicKey.KeyValue k) = 0 \<or> length (Decaf448PublicKey.KeyValue k) = 56)"

definition BLS48581G2PublicKey_Validate :: "BLS48581G2PublicKey option \<Rightarrow> bool" where
  "BLS48581G2PublicKey_Validate p =
     (case p of None \<Rightarrow> False
      | Some k \<Rightarrow> length (BLS48581G2PublicKey.KeyValue k) = 0 \<or> length (BLS48581G2PublicKey.KeyValue k) = 585)"

definition X448PublicKey_Validate :: "X448PublicKey option \<Rightarrow> bool" where
  "X448PublicKey_Validate p =
     (case p of None \<Rightarrow> False
      | Some k \<Rightarrow> length (X448PublicKey.KeyValue k) = 0 \<or> length (X448PublicKey.KeyValue k) = 57)"

definition PCASPublicKey_Validate :: "PCASPublicKey option \<Rightarrow> bool" where
  "PCASPublicKey_Validate p =
     (case p of None \<Rightarrow> False
      | Some k \<Rightarrow> length (PCASPublicKey.KeyValue k) = 0 \<or> length (PCASPublicKey.KeyValue k) = 256 * 1024)"

definition Ed448PrivateKey_Validate :: "Ed448PrivateKey option \<Rightarrow> bool" where
  "Ed448PrivateKey_Validate p =
     (case p of None \<Rightarrow> False
      | Some k \<Rightarrow> (length (Ed448PrivateKey.KeyValue k) = 0 \<or> length (Ed448PrivateKey.KeyValue k) = 57) \<and>
          (Ed448PrivateKey.PublicKey k = None \<or> Ed448PublicKey_Validate (Ed448PrivateKey.PublicKey k)))"

definition Decaf448PrivateKey_Validate :: "Decaf448PrivateKey option \<Rightarrow> bool" where
  "Decaf448PrivateKey_Validate p =
     (case p of None \<Rightarrow> False
      | Some k \<Rightarrow> (length (Decaf448PrivateKey.KeyValue k) = 0 \<or> length (Decaf448PrivateKey.KeyValue k) = 56) \<and>
          (Decaf448PrivateKey.PublicKey k = None \<or> Decaf448PublicKey_Validate (Decaf448PrivateKey.PublicKey k)))"

definition X448PrivateKey_Validate :: "X448PrivateKey option \<Rightarrow> bool" where
  "X448PrivateKey_Validate p =
     (case p of None \<Rightarrow> False
      | Some k \<Rightarrow> (length (X448PrivateKey.KeyValue k) = 0 \<or> length (X448PrivateKey.KeyValue k) = 57) \<and>
          (X448PrivateKey.PublicKey k = None \<or> X448PublicKey_Validate (X448PrivateKey.PublicKey k)))"

definition PCASPrivateKey_Validate :: "PCASPrivateKey option \<Rightarrow> bool" where
  "PCASPrivateKey_Validate p =
     (case p of None \<Rightarrow> False
      | Some k \<Rightarrow> (length (PCASPrivateKey.KeyValue k) = 0 \<or> length (PCASPrivateKey.KeyValue k) = 256) \<and>
          (PCASPrivateKey.PublicKey k = None \<or> PCASPublicKey_Validate (PCASPrivateKey.PublicKey k)))"

definition Decaf448Signature_Validate :: "Decaf448Signature option \<Rightarrow> bool" where
  "Decaf448Signature_Validate p =
     (case p of None \<Rightarrow> False
      | Some s \<Rightarrow> (length (Decaf448Signature.Signature s) = 0 \<or> length (Decaf448Signature.Signature s) = 112) \<and>
          (Decaf448Signature.PublicKey s = None \<or> Decaf448PublicKey_Validate (Decaf448Signature.PublicKey s)))"

definition BLS48581Signature_Validate :: "BLS48581Signature option \<Rightarrow> bool" where
  "BLS48581Signature_Validate p =
     (case p of None \<Rightarrow> False
      | Some s \<Rightarrow> (length (BLS48581Signature.Signature s) = 0 \<or> length (BLS48581Signature.Signature s) = 74) \<and>
          (BLS48581Signature.PublicKey s = None \<or> BLS48581G2PublicKey_Validate (BLS48581Signature.PublicKey s)))"

definition BLS48581AggregateSignature_Validate :: "BLS48581AggregateSignature option \<Rightarrow> bool" where
  "BLS48581AggregateSignature_Validate p =
     (case p of None \<Rightarrow> False
      | Some s \<Rightarrow> (length (BLS48581AggregateSignature.Signature s) = 0 \<or> length (BLS48581AggregateSignature.Signature s) = 74) \<and>
          (BLS48581AggregateSignature.PublicKey s = None \<or> BLS48581G2PublicKey_Validate (BLS48581AggregateSignature.PublicKey s)))"

definition Ed448Signature_Validate :: "Ed448Signature option \<Rightarrow> bool" where
  "Ed448Signature_Validate p =
     (case p of None \<Rightarrow> False
      | Some s \<Rightarrow> Ed448PublicKey_Validate (Ed448Signature.PublicKey s) \<and>
          length (Ed448Signature.Signature s) = 114)"

definition BLS48581AddressedSignature_Validate :: "BLS48581AddressedSignature option \<Rightarrow> bool" where
  "BLS48581AddressedSignature_Validate p =
     (case p of None \<Rightarrow> False
      | Some s \<Rightarrow> length (BLS48581AddressedSignature.Address s) = 32 \<and>
          length (BLS48581AddressedSignature.Signature s) = 74)"

definition BLS48581SignatureWithProofOfPossession_Validate :: "BLS48581SignatureWithProofOfPossession option \<Rightarrow> bool" where
  "BLS48581SignatureWithProofOfPossession_Validate p =
     (case p of None \<Rightarrow> False
      | Some s \<Rightarrow> (case BLS48581SignatureWithProofOfPossession.PublicKey s of None \<Rightarrow> False
           | Some k \<Rightarrow> length (BLS48581G2PublicKey.KeyValue k) = 585) \<and>
          length (BLS48581SignatureWithProofOfPossession.PopSignature s) = 74 \<and>
          length (BLS48581SignatureWithProofOfPossession.Signature s) = 74)"

section \<open>Signed X448 keys\<close>

text \<open>The \<^verbatim>\<open>oneof\<close> signature: which kind, and the pointer inside the wrapper.\<close>

datatype SignedX448Key_Signature =
    SignedX448Key_Ed448Signature "Ed448Signature option"
  | SignedX448Key_BlsSignature "BLS48581Signature option"
  | SignedX448Key_DecafSignature "Decaf448Signature option"

record SignedX448Key =
  Key :: "X448PublicKey option"
  ParentKeyAddress :: bytes
  Signature :: "SignedX448Key_Signature option"
  CreatedAt :: u64
  ExpiresAt :: u64
  KeyPurpose :: bytes

definition w_signature :: "SignedX448Key_Signature option \<Rightarrow> fault + bytes" where
  "w_signature sig =
     (case sig of
        Some (SignedX448Key_Ed448Signature s) \<Rightarrow>
          writes [w_u8 1, w_sub Ed448Signature_ToCanonicalBytes s]
      | Some (SignedX448Key_BlsSignature s) \<Rightarrow>
          writes [w_u8 2, w_sub BLS48581Signature_ToCanonicalBytes s]
      | Some (SignedX448Key_DecafSignature s) \<Rightarrow>
          writes [w_u8 3, w_sub Decaf448Signature_ToCanonicalBytes s]
      | None \<Rightarrow> w_u8 0)"

definition r_signature :: "bytes \<Rightarrow> (SignedX448Key_Signature option \<times> bytes) option" where
  "r_signature buf =
     do {
       (sigType, buf) \<leftarrow> r_u8 buf;
       if sigType > 0
       then do {
         (sigBytes, buf) \<leftarrow> r_bytes buf;
         sig \<leftarrow>
           (if sigType = 1
            then do { s \<leftarrow> Ed448Signature_FromCanonicalBytes sigBytes;
                      Some (Some (SignedX448Key_Ed448Signature (Some s))) }
            else if sigType = 2
            then do { s \<leftarrow> BLS48581Signature_FromCanonicalBytes sigBytes;
                      Some (Some (SignedX448Key_BlsSignature (Some s))) }
            else if sigType = 3
            then do { s \<leftarrow> Decaf448Signature_FromCanonicalBytes sigBytes;
                      Some (Some (SignedX448Key_DecafSignature (Some s))) }
            else Some None);
         Some (sig, buf)
       }
       else Some (None, buf)
     }"

definition SignedX448Key_ToCanonicalBytes :: "SignedX448Key \<Rightarrow> fault + bytes" where
  "SignedX448Key_ToCanonicalBytes s = writes
     [w_u32 SignedX448KeyType, w_opt X448PublicKey_ToCanonicalBytes (SignedX448Key.Key s),
      w_bytes (SignedX448Key.ParentKeyAddress s), w_signature (SignedX448Key.Signature s),
      w_u64 (SignedX448Key.CreatedAt s), w_u64 (SignedX448Key.ExpiresAt s),
      w_bytes (SignedX448Key.KeyPurpose s)]"

definition SignedX448Key_FromCanonicalBytes :: "bytes \<Rightarrow> SignedX448Key option" where
  "SignedX448Key_FromCanonicalBytes data =
     do {
       buf \<leftarrow> r_type SignedX448KeyType data;
       (key, buf) \<leftarrow> r_opt X448PublicKey_FromCanonicalBytes buf;
       (parentKeyAddress, buf) \<leftarrow> r_bytes buf;
       (sig, buf) \<leftarrow> r_signature buf;
       (createdAt, buf) \<leftarrow> be_u64 buf;
       (expiresAt, buf) \<leftarrow> be_u64 buf;
       (keyPurpose, buf) \<leftarrow> r_bytes buf;
       Some \<lparr>SignedX448Key.Key = key, SignedX448Key.ParentKeyAddress = parentKeyAddress,
             SignedX448Key.Signature = sig, SignedX448Key.CreatedAt = createdAt,
             SignedX448Key.ExpiresAt = expiresAt, SignedX448Key.KeyPurpose = keyPurpose\<rparr>
     }"

lemma r_signature_written:
  assumes "w_signature sig = Inr b" and "fits b"
  shows "r_signature (b @ buf) = Some (sig, buf)"
  using assms ed448_signature.dec_enc [where rest = "[]"] bls_signature.dec_enc [where rest = "[]"]
    decaf448_signature.dec_enc [where rest = "[]"]
  by (auto simp: w_signature_def r_signature_def codec_simps ed448_signature.w_sub_Inr
      bls_signature.w_sub_Inr decaf448_signature.w_sub_Inr
      split: option.splits SignedX448Key_Signature.splits)

lemma isl_w_signature:
  "r_signature buf = Some (sig, buf') \<Longrightarrow> \<not> isl (w_signature sig)"
  by (auto simp: w_signature_def r_signature_def codec_simps bind_eq_Some_conv w_sub_def via_def
      split: if_splits sum.splits dest: ed448_signature.reencodes bls_signature.reencodes
      decaf448_signature.reencodes)

interpretation signed_x448_key: lossless_codec SignedX448KeyType
  SignedX448Key_ToCanonicalBytes SignedX448Key_FromCanonicalBytes
  by (rule lossless_codecI
      [OF SignedX448Key_ToCanonicalBytes_def SignedX448Key_FromCanonicalBytes_def])
    (auto simp: codec_simps bind_eq_Some_conv r_signature_written isl_w_signature)

definition SignedX448Key_Validate :: "SignedX448Key option \<Rightarrow> bool" where
  "SignedX448Key_Validate p =
     (case p of None \<Rightarrow> False
      | Some s \<Rightarrow>
          (case SignedX448Key.Key s of None \<Rightarrow> False
           | Some k \<Rightarrow> length (X448PublicKey.KeyValue k) = 57) \<and>
          length (SignedX448Key.ParentKeyAddress s) = 32 \<and>
          (case SignedX448Key.Signature s of
             Some (SignedX448Key_Ed448Signature sig) \<Rightarrow> Ed448Signature_Validate sig
           | Some (SignedX448Key_BlsSignature sig) \<Rightarrow>
               (case sig of None \<Rightarrow> False
                | Some g \<Rightarrow>
                    length (BLS48581Signature.Signature g) = 74 \<and>
                    (case BLS48581Signature.PublicKey g of None \<Rightarrow> True
                     | Some k \<Rightarrow> length (BLS48581G2PublicKey.KeyValue k) = 585))
           | Some (SignedX448Key_DecafSignature sig) \<Rightarrow>
               (case sig of None \<Rightarrow> False
                | Some g \<Rightarrow>
                    length (Decaf448Signature.Signature g) = 112 \<and>
                    (case Decaf448Signature.PublicKey g of None \<Rightarrow> True
                     | Some k \<Rightarrow> length (Decaf448PublicKey.KeyValue k) = 56))
           | None \<Rightarrow> False))"

section \<open>Key collections and the key registry\<close>

record KeyCollection =
  KeyPurpose :: bytes
  Keys :: "SignedX448Key option list"

definition KeyCollection_ToCanonicalBytes :: "KeyCollection \<Rightarrow> fault + bytes" where
  "KeyCollection_ToCanonicalBytes k = writes
     [w_u32 KeyCollectionType, w_bytes (KeyCollection.KeyPurpose k),
      w_list (w_sub SignedX448Key_ToCanonicalBytes) (KeyCollection.Keys k)]"

definition KeyCollection_FromCanonicalBytes :: "bytes \<Rightarrow> KeyCollection option" where
  "KeyCollection_FromCanonicalBytes data =
     do {
       buf \<leftarrow> r_type KeyCollectionType data;
       (keyPurpose, buf) \<leftarrow> r_bytes buf;
       (keys, buf) \<leftarrow> r_list (r_sub SignedX448Key_FromCanonicalBytes) buf;
       Some \<lparr>KeyCollection.KeyPurpose = keyPurpose, KeyCollection.Keys = keys\<rparr>
     }"

interpretation key_collection: lossless_codec KeyCollectionType
  KeyCollection_ToCanonicalBytes KeyCollection_FromCanonicalBytes
  by (rule lossless_codecI
      [OF KeyCollection_ToCanonicalBytes_def KeyCollection_FromCanonicalBytes_def])
    (auto simp: codec_simps bind_eq_Some_conv)

text \<open>
  The registry holds its collections in a Go map.  \<^verbatim>\<open>ToCanonicalBytes\<close> ranges over that map,
  so the order is an argument of the model.
\<close>

record KeyRegistry =
  IdentityKey :: "Ed448PublicKey option"
  ProverKey :: "BLS48581G2PublicKey option"
  IdentityToProver :: "Ed448Signature option"
  ProverToIdentity :: "BLS48581Signature option"
  KeysByPurpose :: "bytes \<rightharpoonup> KeyCollection option"
  LastUpdated :: u64

definition KeyRegistry_ToCanonicalBytes :: "bytes list \<Rightarrow> KeyRegistry \<Rightarrow> fault + bytes" where
  "KeyRegistry_ToCanonicalBytes order k = writes
     [w_u32 KeyRegistryType, w_opt Ed448PublicKey_ToCanonicalBytes (KeyRegistry.IdentityKey k),
      w_opt BLS48581G2PublicKey_ToCanonicalBytes (KeyRegistry.ProverKey k),
      w_opt Ed448Signature_ToCanonicalBytes (KeyRegistry.IdentityToProver k),
      w_opt BLS48581Signature_ToCanonicalBytes (KeyRegistry.ProverToIdentity k),
      w_map KeyCollection_ToCanonicalBytes order (KeyRegistry.KeysByPurpose k),
      w_u64 (KeyRegistry.LastUpdated k)]"

definition KeyRegistry_FromCanonicalBytes :: "bytes \<Rightarrow> KeyRegistry option" where
  "KeyRegistry_FromCanonicalBytes data =
     do {
       buf \<leftarrow> r_type KeyRegistryType data;
       (identityKey, buf) \<leftarrow> r_opt Ed448PublicKey_FromCanonicalBytes buf;
       (proverKey, buf) \<leftarrow> r_opt BLS48581G2PublicKey_FromCanonicalBytes buf;
       (identityToProver, buf) \<leftarrow> r_opt Ed448Signature_FromCanonicalBytes buf;
       (proverToIdentity, buf) \<leftarrow> r_opt BLS48581Signature_FromCanonicalBytes buf;
       (keysByPurpose, buf) \<leftarrow> r_map KeyCollection_FromCanonicalBytes buf;
       (lastUpdated, buf) \<leftarrow> be_u64 buf;
       Some \<lparr>KeyRegistry.IdentityKey = identityKey, KeyRegistry.ProverKey = proverKey,
             KeyRegistry.IdentityToProver = identityToProver,
             KeyRegistry.ProverToIdentity = proverToIdentity,
             KeyRegistry.KeysByPurpose = keysByPurpose, KeyRegistry.LastUpdated = lastUpdated\<rparr>
     }"

definition KeyCollection_Validate :: "KeyCollection option \<Rightarrow> bool" where
  "KeyCollection_Validate p =
     (case p of None \<Rightarrow> False
      | Some k \<Rightarrow> KeyCollection.KeyPurpose k \<noteq> [] \<and>
          list_all SignedX448Key_Validate (KeyCollection.Keys k))"

definition KeyRegistry_Validate :: "KeyRegistry option \<Rightarrow> bool" where
  "KeyRegistry_Validate p =
     (case p of None \<Rightarrow> False
      | Some k \<Rightarrow> (\<forall>c \<in> ran (KeyRegistry.KeysByPurpose k). KeyCollection_Validate c))"

section \<open>Signature checks\<close>

text \<open>
  The signature schemes and the address hash are outside the sources: \<open>ed448_verify\<close> is
  \<^verbatim>\<open>ed448.Verify\<close> (public key, message, signature, context), \<open>bls_verify\<close> the
  \<^verbatim>\<open>BlsVerifier\<close>, \<open>schnorr_verify\<close> the \<^verbatim>\<open>SchnorrVerifier\<close>, \<open>address\<close> the Poseidon hash as 32
  bytes, \<^const>\<open>None\<close> when hashing fails.
\<close>

definition Ed448Signature_Verify ::
  "(bytes \<Rightarrow> bytes \<Rightarrow> bytes \<Rightarrow> bytes \<Rightarrow> bool) \<Rightarrow> Ed448Signature \<Rightarrow> bytes \<Rightarrow> bytes \<Rightarrow> bool" where
  "Ed448Signature_Verify ed448_verify s msg ctx =
     (case Ed448Signature.PublicKey s of None \<Rightarrow> False
      | Some k \<Rightarrow>
          length (Ed448PublicKey.KeyValue k) = 57 \<and> length (Ed448Signature.Signature s) = 114 \<and>
          ed448_verify (Ed448PublicKey.KeyValue k) msg (Ed448Signature.Signature s) ctx)"

definition BLS48581Signature_Verify ::
  "(bytes \<Rightarrow> bytes \<Rightarrow> bytes \<Rightarrow> bytes \<Rightarrow> bool) \<Rightarrow> BLS48581Signature \<Rightarrow> bytes \<Rightarrow> bytes \<Rightarrow> bool" where
  "BLS48581Signature_Verify bls_verify s msg ctx =
     (case BLS48581Signature.PublicKey s of None \<Rightarrow> False
      | Some k \<Rightarrow>
          length (BLS48581G2PublicKey.KeyValue k) = 585 \<and>
          length (BLS48581Signature.Signature s) = 74 \<and>
          bls_verify (BLS48581G2PublicKey.KeyValue k) (BLS48581Signature.Signature s) msg ctx)"

definition Decaf448Signature_Verify ::
  "(bytes \<Rightarrow> bytes \<Rightarrow> bytes \<Rightarrow> bool) \<Rightarrow> Decaf448Signature \<Rightarrow> bytes \<Rightarrow> bytes \<Rightarrow> bool" where
  "Decaf448Signature_Verify schnorr_verify s msg ctx =
     (case Decaf448Signature.PublicKey s of None \<Rightarrow> False
      | Some k \<Rightarrow>
          length (Decaf448PublicKey.KeyValue k) = 56 \<and>
          length (Decaf448Signature.Signature s) = 112 \<and>
          schnorr_verify (ctx @ msg) (Decaf448Signature.Signature s)
            (Decaf448PublicKey.KeyValue k))"

definition SignedX448Key_Verify ::
  "(bytes \<Rightarrow> bytes \<Rightarrow> bytes \<Rightarrow> bytes \<Rightarrow> bool) \<Rightarrow> (bytes \<Rightarrow> bytes \<Rightarrow> bytes \<Rightarrow> bytes \<Rightarrow> bool) \<Rightarrow>
   (bytes \<Rightarrow> bytes \<Rightarrow> bytes \<Rightarrow> bool) \<Rightarrow> (bytes \<Rightarrow> bytes option) \<Rightarrow>
   SignedX448Key option \<Rightarrow> bytes \<Rightarrow> bool" where
  "SignedX448Key_Verify ed448_verify bls_verify schnorr_verify address p ctx =
     (case p of None \<Rightarrow> False
      | Some s \<Rightarrow>
          (case SignedX448Key.Key s of None \<Rightarrow> False
           | Some key \<Rightarrow>
               length (X448PublicKey.KeyValue key) = 57 \<and>
               SignedX448Key.ParentKeyAddress s \<noteq> [] \<and>
               (case SignedX448Key.Signature s of
                  Some (SignedX448Key_Ed448Signature (Some sig)) \<Rightarrow>
                    (case Ed448Signature.PublicKey sig of None \<Rightarrow> False
                     | Some k \<Rightarrow>
                         Ed448Signature_Verify ed448_verify sig (X448PublicKey.KeyValue key) ctx \<and>
                         address (Ed448PublicKey.KeyValue k) =
                           Some (SignedX448Key.ParentKeyAddress s))
                | Some (SignedX448Key_BlsSignature (Some sig)) \<Rightarrow>
                    (case BLS48581Signature.PublicKey sig of None \<Rightarrow> False
                     | Some k \<Rightarrow>
                         BLS48581Signature_Verify bls_verify sig (X448PublicKey.KeyValue key) ctx \<and>
                         address (BLS48581G2PublicKey.KeyValue k) =
                           Some (SignedX448Key.ParentKeyAddress s))
                | Some (SignedX448Key_DecafSignature (Some sig)) \<Rightarrow>
                    (case Decaf448Signature.PublicKey sig of None \<Rightarrow> False
                     | Some k \<Rightarrow>
                         Decaf448Signature_Verify schnorr_verify sig
                           (X448PublicKey.KeyValue key) ctx \<and>
                         address (Decaf448PublicKey.KeyValue k) =
                           Some (SignedX448Key.ParentKeyAddress s))
                | _ \<Rightarrow> False)))"

section \<open>Properties\<close>

text \<open>Claim C30.  Whatever order the runtime ranges over the registry's map in, the bytes decode to
  the registry that was encoded, with anything that follows them ignored.\<close>

theorem key_registry_roundtrip:
  assumes "set order = dom (KeyRegistry.KeysByPurpose k)"
    and "KeyRegistry_ToCanonicalBytes order k = Inr bs" and "fits bs"
  shows "KeyRegistry_FromCanonicalBytes (bs @ rest) = Some k"
proof -
  have map: "r_map KeyCollection_FromCanonicalBytes (b @ buf) =
      Some (KeyRegistry.KeysByPurpose k, buf)"
    if "w_map KeyCollection_ToCanonicalBytes order (KeyRegistry.KeysByPurpose k) = Inr b" "fits b"
    for b buf
    using assms(1) that by (rule key_collection.map_id)
  show ?thesis
    using assms(2, 3)
    by (auto simp: KeyRegistry_ToCanonicalBytes_def KeyRegistry_FromCanonicalBytes_def codec_simps map)
qed

theorem key_registry_roundtrip_witness:
  "let k = \<lparr>KeyRegistry.IdentityKey = None, KeyRegistry.ProverKey = None,
             KeyRegistry.IdentityToProver = None, KeyRegistry.ProverToIdentity = None,
             KeyRegistry.KeysByPurpose =
               [[1] \<mapsto> Some \<lparr>KeyCollection.KeyPurpose = [1], KeyCollection.Keys = []\<rparr>],
             KeyRegistry.LastUpdated = 7\<rparr>;
       bs = projr (KeyRegistry_ToCanonicalBytes [[1]] k)
   in KeyRegistry_ToCanonicalBytes [[1]] k = Inr bs \<and>
      KeyRegistry_FromCanonicalBytes (bs @ []) = Some k"
proof -
  let ?k = "\<lparr>KeyRegistry.IdentityKey = None, KeyRegistry.ProverKey = None,
             KeyRegistry.IdentityToProver = None, KeyRegistry.ProverToIdentity = None,
             KeyRegistry.KeysByPurpose =
               [[1] \<mapsto> Some \<lparr>KeyCollection.KeyPurpose = [1], KeyCollection.Keys = []\<rparr>],
             KeyRegistry.LastUpdated = 7\<rparr>"
  let ?bs = "projr (KeyRegistry_ToCanonicalBytes [[1]] ?k)"
  have bs: "KeyRegistry_ToCanonicalBytes [[1]] ?k = Inr ?bs" by code_simp
  have "length ?bs < 100" by code_simp
  then have fits: "fits ?bs" by linarith
  have "set [[1]] = dom (KeyRegistry.KeysByPurpose ?k)" by simp
  from key_registry_roundtrip [OF this bs fits, of "[]"] bs show ?thesis
    unfolding Let_def by (intro conjI)
qed

text \<open>The bytes of a registry are not canonical: there is a registry with two
  collections whose encodings under the two orders of iteration both succeed and differ.\<close>

theorem key_registry_bytes_depend_on_order:
  "\<exists>k o1 o2 b1 b2.
     distinct o1 \<and> distinct o2 \<and>
     set o1 = dom (KeyRegistry.KeysByPurpose k) \<and> set o2 = dom (KeyRegistry.KeysByPurpose k) \<and>
     KeyRegistry_ToCanonicalBytes o1 k = Inr b1 \<and> KeyRegistry_ToCanonicalBytes o2 k = Inr b2 \<and>
     b1 \<noteq> b2"
proof -
  let ?k = "\<lparr>KeyRegistry.IdentityKey = None, KeyRegistry.ProverKey = None,
             KeyRegistry.IdentityToProver = None, KeyRegistry.ProverToIdentity = None,
             KeyRegistry.KeysByPurpose =
               [[1] \<mapsto> Some \<lparr>KeyCollection.KeyPurpose = [1], KeyCollection.Keys = []\<rparr>,
                [2] \<mapsto> Some \<lparr>KeyCollection.KeyPurpose = [2], KeyCollection.Keys = []\<rparr>],
             KeyRegistry.LastUpdated = 7\<rparr>"
  let ?b1 = "projr (KeyRegistry_ToCanonicalBytes [[1], [2]] ?k)"
  let ?b2 = "projr (KeyRegistry_ToCanonicalBytes [[2], [1]] ?k)"
  have "KeyRegistry_ToCanonicalBytes [[1], [2]] ?k = Inr ?b1" by code_simp
  moreover have "KeyRegistry_ToCanonicalBytes [[2], [1]] ?k = Inr ?b2" by code_simp
  moreover have "?b1 \<noteq> ?b2" by code_simp
  moreover have "set [[1], [2]] = dom (KeyRegistry.KeysByPurpose ?k)"
    and "set [[2], [1]] = dom (KeyRegistry.KeysByPurpose ?k)" by auto
  moreover have "distinct [[1 :: u8], [2]]" and "distinct [[2 :: u8], [1]]" by code_simp+
  ultimately show ?thesis
    by (intro exI [of _ ?k] exI [of _ "[[1], [2]]"] exI [of _ "[[2], [1]]"] exI [of _ ?b1]
        exI [of _ ?b2] conjI)
qed

end
