(* ===== verification/Prover_Messages.thy ===== *)
theory Prover_Messages
  imports Key_Messages
begin

text \<open>
  The prover lifecycle messages and the traversal proofs of \<^verbatim>\<open>src/protobufs/global.go\<close>: joining,
  leaving, pausing, resuming, confirming, rejecting, updating and kicking provers, seniority
  merges, the signed legacy announcement, liveness checks and alerts.
\<close>

section \<open>Seniority merges and the legacy announcement\<close>

record SeniorityMerge =
  Signature :: bytes
  KeyType :: u32
  ProverPublicKey :: bytes

definition SeniorityMerge_ToCanonicalBytes :: "SeniorityMerge \<Rightarrow> fault + bytes" where
  "SeniorityMerge_ToCanonicalBytes s = writes
     [w_u32 SeniorityMergeType, w_bytes (SeniorityMerge.Signature s),
      w_u32 (SeniorityMerge.KeyType s), w_bytes (SeniorityMerge.ProverPublicKey s)]"

definition SeniorityMerge_FromCanonicalBytes :: "bytes \<Rightarrow> SeniorityMerge option" where
  "SeniorityMerge_FromCanonicalBytes data =
     do {
       buf \<leftarrow> r_type SeniorityMergeType data;
       (sig, buf) \<leftarrow> r_bytes buf;
       (keyType, buf) \<leftarrow> be_u32 buf;
       (proverPublicKey, buf) \<leftarrow> r_bytes buf;
       Some \<lparr>SeniorityMerge.Signature = sig, SeniorityMerge.KeyType = keyType,
             SeniorityMerge.ProverPublicKey = proverPublicKey\<rparr>
     }"

interpretation seniority_merge: lossless_codec SeniorityMergeType
  SeniorityMerge_ToCanonicalBytes SeniorityMerge_FromCanonicalBytes
  by (rule lossless_codecI
      [OF SeniorityMerge_ToCanonicalBytes_def SeniorityMerge_FromCanonicalBytes_def])
    (auto simp: codec_simps bind_eq_Some_conv)

record LegacyProverRequest =
  PublicKeySignaturesEd448 :: "Ed448Signature option list"

definition LegacyProverRequest_ToCanonicalBytes :: "LegacyProverRequest \<Rightarrow> fault + bytes" where
  "LegacyProverRequest_ToCanonicalBytes l = writes
     [w_u32 LegacyProverRequestType,
      w_list (w_sub Ed448Signature_ToCanonicalBytes)
        (LegacyProverRequest.PublicKeySignaturesEd448 l)]"

definition LegacyProverRequest_FromCanonicalBytes :: "bytes \<Rightarrow> LegacyProverRequest option" where
  "LegacyProverRequest_FromCanonicalBytes data =
     do {
       buf \<leftarrow> r_type LegacyProverRequestType data;
       (publicKeySignaturesEd448, buf) \<leftarrow>
         r_list (r_sub Ed448Signature_FromCanonicalBytes) buf;
       Some \<lparr>LegacyProverRequest.PublicKeySignaturesEd448 = publicKeySignaturesEd448\<rparr>
     }"

interpretation legacy_prover_request: lossless_codec LegacyProverRequestType
  LegacyProverRequest_ToCanonicalBytes LegacyProverRequest_FromCanonicalBytes
  by (rule lossless_codecI
      [OF LegacyProverRequest_ToCanonicalBytes_def LegacyProverRequest_FromCanonicalBytes_def])
    (auto simp: codec_simps bind_eq_Some_conv)

section \<open>The prover lifecycle\<close>

record ProverJoin =
  Filters :: "bytes list"
  FrameNumber :: u64
  PublicKeySignatureBls48581 :: "BLS48581SignatureWithProofOfPossession option"
  DelegateAddress :: bytes
  MergeTargets :: "SeniorityMerge option list"

definition ProverJoin_ToCanonicalBytes :: "ProverJoin \<Rightarrow> fault + bytes" where
  "ProverJoin_ToCanonicalBytes p = writes
     [w_u32 ProverJoinType, w_list w_bytes (ProverJoin.Filters p),
      w_u64 (ProverJoin.FrameNumber p),
      w_opt BLS48581SignatureWithProofOfPossession_ToCanonicalBytes
        (ProverJoin.PublicKeySignatureBls48581 p),
      w_bytes (ProverJoin.DelegateAddress p),
      w_list (w_sub SeniorityMerge_ToCanonicalBytes) (ProverJoin.MergeTargets p)]"

definition ProverJoin_FromCanonicalBytes :: "bytes \<Rightarrow> ProverJoin option" where
  "ProverJoin_FromCanonicalBytes data =
     do {
       buf \<leftarrow> r_type ProverJoinType data;
       (filters, buf) \<leftarrow> r_list r_bytes buf;
       (frameNumber, buf) \<leftarrow> be_u64 buf;
       (publicKeySignatureBls48581, buf) \<leftarrow>
         r_opt BLS48581SignatureWithProofOfPossession_FromCanonicalBytes buf;
       (delegateAddress, buf) \<leftarrow> r_bytes buf;
       (mergeTargets, buf) \<leftarrow> r_list (r_sub SeniorityMerge_FromCanonicalBytes) buf;
       Some \<lparr>ProverJoin.Filters = filters, ProverJoin.FrameNumber = frameNumber,
             ProverJoin.PublicKeySignatureBls48581 = publicKeySignatureBls48581,
             ProverJoin.DelegateAddress = delegateAddress, ProverJoin.MergeTargets = mergeTargets\<rparr>
     }"

interpretation prover_join: lossless_codec ProverJoinType
  ProverJoin_ToCanonicalBytes ProverJoin_FromCanonicalBytes
  by (rule lossless_codecI
      [OF ProverJoin_ToCanonicalBytes_def ProverJoin_FromCanonicalBytes_def])
    (auto simp: codec_simps bind_eq_Some_conv)

record ProverLeave =
  Filters :: "bytes list"
  FrameNumber :: u64
  PublicKeySignatureBls48581 :: "BLS48581AddressedSignature option"

definition ProverLeave_ToCanonicalBytes :: "ProverLeave \<Rightarrow> fault + bytes" where
  "ProverLeave_ToCanonicalBytes p = writes
     [w_u32 ProverLeaveType, w_list w_bytes (ProverLeave.Filters p),
      w_u64 (ProverLeave.FrameNumber p),
      w_opt BLS48581AddressedSignature_ToCanonicalBytes (ProverLeave.PublicKeySignatureBls48581 p)]"

definition ProverLeave_FromCanonicalBytes :: "bytes \<Rightarrow> ProverLeave option" where
  "ProverLeave_FromCanonicalBytes data =
     do {
       buf \<leftarrow> r_type ProverLeaveType data;
       (filters, buf) \<leftarrow> r_list r_bytes buf;
       (frameNumber, buf) \<leftarrow> be_u64 buf;
       (publicKeySignatureBls48581, buf) \<leftarrow>
         r_opt BLS48581AddressedSignature_FromCanonicalBytes buf;
       Some \<lparr>ProverLeave.Filters = filters, ProverLeave.FrameNumber = frameNumber,
             ProverLeave.PublicKeySignatureBls48581 = publicKeySignatureBls48581\<rparr>
     }"

interpretation prover_leave: lossless_codec ProverLeaveType
  ProverLeave_ToCanonicalBytes ProverLeave_FromCanonicalBytes
  by (rule lossless_codecI
      [OF ProverLeave_ToCanonicalBytes_def ProverLeave_FromCanonicalBytes_def])
    (auto simp: codec_simps bind_eq_Some_conv)

record ProverPause =
  Filter :: bytes
  FrameNumber :: u64
  PublicKeySignatureBls48581 :: "BLS48581AddressedSignature option"

definition ProverPause_ToCanonicalBytes :: "ProverPause \<Rightarrow> fault + bytes" where
  "ProverPause_ToCanonicalBytes p = writes
     [w_u32 ProverPauseType, w_bytes (ProverPause.Filter p), w_u64 (ProverPause.FrameNumber p),
      w_opt BLS48581AddressedSignature_ToCanonicalBytes (ProverPause.PublicKeySignatureBls48581 p)]"

definition ProverPause_FromCanonicalBytes :: "bytes \<Rightarrow> ProverPause option" where
  "ProverPause_FromCanonicalBytes data =
     do {
       buf \<leftarrow> r_type ProverPauseType data;
       (filter, buf) \<leftarrow> r_bytes buf;
       (frameNumber, buf) \<leftarrow> be_u64 buf;
       (publicKeySignatureBls48581, buf) \<leftarrow>
         r_opt BLS48581AddressedSignature_FromCanonicalBytes buf;
       Some \<lparr>ProverPause.Filter = filter, ProverPause.FrameNumber = frameNumber,
             ProverPause.PublicKeySignatureBls48581 = publicKeySignatureBls48581\<rparr>
     }"

interpretation prover_pause: lossless_codec ProverPauseType
  ProverPause_ToCanonicalBytes ProverPause_FromCanonicalBytes
  by (rule lossless_codecI
      [OF ProverPause_ToCanonicalBytes_def ProverPause_FromCanonicalBytes_def])
    (auto simp: codec_simps bind_eq_Some_conv)

record ProverResume =
  Filter :: bytes
  FrameNumber :: u64
  PublicKeySignatureBls48581 :: "BLS48581AddressedSignature option"

definition ProverResume_ToCanonicalBytes :: "ProverResume \<Rightarrow> fault + bytes" where
  "ProverResume_ToCanonicalBytes p = writes
     [w_u32 ProverResumeType, w_bytes (ProverResume.Filter p), w_u64 (ProverResume.FrameNumber p),
      w_opt BLS48581AddressedSignature_ToCanonicalBytes
        (ProverResume.PublicKeySignatureBls48581 p)]"

definition ProverResume_FromCanonicalBytes :: "bytes \<Rightarrow> ProverResume option" where
  "ProverResume_FromCanonicalBytes data =
     do {
       buf \<leftarrow> r_type ProverResumeType data;
       (filter, buf) \<leftarrow> r_bytes buf;
       (frameNumber, buf) \<leftarrow> be_u64 buf;
       (publicKeySignatureBls48581, buf) \<leftarrow>
         r_opt BLS48581AddressedSignature_FromCanonicalBytes buf;
       Some \<lparr>ProverResume.Filter = filter, ProverResume.FrameNumber = frameNumber,
             ProverResume.PublicKeySignatureBls48581 = publicKeySignatureBls48581\<rparr>
     }"

interpretation prover_resume: lossless_codec ProverResumeType
  ProverResume_ToCanonicalBytes ProverResume_FromCanonicalBytes
  by (rule lossless_codecI
      [OF ProverResume_ToCanonicalBytes_def ProverResume_FromCanonicalBytes_def])
    (auto simp: codec_simps bind_eq_Some_conv)

record ProverConfirm =
  Filter :: bytes
  FrameNumber :: u64
  PublicKeySignatureBls48581 :: "BLS48581AddressedSignature option"

definition ProverConfirm_ToCanonicalBytes :: "ProverConfirm \<Rightarrow> fault + bytes" where
  "ProverConfirm_ToCanonicalBytes p = writes
     [w_u32 ProverConfirmType, w_bytes (ProverConfirm.Filter p),
      w_u64 (ProverConfirm.FrameNumber p),
      w_opt BLS48581AddressedSignature_ToCanonicalBytes
        (ProverConfirm.PublicKeySignatureBls48581 p)]"

definition ProverConfirm_FromCanonicalBytes :: "bytes \<Rightarrow> ProverConfirm option" where
  "ProverConfirm_FromCanonicalBytes data =
     do {
       buf \<leftarrow> r_type ProverConfirmType data;
       (filter, buf) \<leftarrow> r_bytes buf;
       (frameNumber, buf) \<leftarrow> be_u64 buf;
       (publicKeySignatureBls48581, buf) \<leftarrow>
         r_opt BLS48581AddressedSignature_FromCanonicalBytes buf;
       Some \<lparr>ProverConfirm.Filter = filter, ProverConfirm.FrameNumber = frameNumber,
             ProverConfirm.PublicKeySignatureBls48581 = publicKeySignatureBls48581\<rparr>
     }"

interpretation prover_confirm: lossless_codec ProverConfirmType
  ProverConfirm_ToCanonicalBytes ProverConfirm_FromCanonicalBytes
  by (rule lossless_codecI
      [OF ProverConfirm_ToCanonicalBytes_def ProverConfirm_FromCanonicalBytes_def])
    (auto simp: codec_simps bind_eq_Some_conv)

record ProverReject =
  Filter :: bytes
  FrameNumber :: u64
  PublicKeySignatureBls48581 :: "BLS48581AddressedSignature option"

definition ProverReject_ToCanonicalBytes :: "ProverReject \<Rightarrow> fault + bytes" where
  "ProverReject_ToCanonicalBytes p = writes
     [w_u32 ProverRejectType, w_bytes (ProverReject.Filter p), w_u64 (ProverReject.FrameNumber p),
      w_opt BLS48581AddressedSignature_ToCanonicalBytes
        (ProverReject.PublicKeySignatureBls48581 p)]"

definition ProverReject_FromCanonicalBytes :: "bytes \<Rightarrow> ProverReject option" where
  "ProverReject_FromCanonicalBytes data =
     do {
       buf \<leftarrow> r_type ProverRejectType data;
       (filter, buf) \<leftarrow> r_bytes buf;
       (frameNumber, buf) \<leftarrow> be_u64 buf;
       (publicKeySignatureBls48581, buf) \<leftarrow>
         r_opt BLS48581AddressedSignature_FromCanonicalBytes buf;
       Some \<lparr>ProverReject.Filter = filter, ProverReject.FrameNumber = frameNumber,
             ProverReject.PublicKeySignatureBls48581 = publicKeySignatureBls48581\<rparr>
     }"

interpretation prover_reject: lossless_codec ProverRejectType
  ProverReject_ToCanonicalBytes ProverReject_FromCanonicalBytes
  by (rule lossless_codecI
      [OF ProverReject_ToCanonicalBytes_def ProverReject_FromCanonicalBytes_def])
    (auto simp: codec_simps bind_eq_Some_conv)

record ProverUpdate =
  DelegateAddress :: bytes
  PublicKeySignatureBls48581 :: "BLS48581AddressedSignature option"

definition ProverUpdate_ToCanonicalBytes :: "ProverUpdate \<Rightarrow> fault + bytes" where
  "ProverUpdate_ToCanonicalBytes p = writes
     [w_u32 ProverUpdateType, w_bytes (ProverUpdate.DelegateAddress p),
      w_opt BLS48581AddressedSignature_ToCanonicalBytes
        (ProverUpdate.PublicKeySignatureBls48581 p)]"

definition ProverUpdate_FromCanonicalBytes :: "bytes \<Rightarrow> ProverUpdate option" where
  "ProverUpdate_FromCanonicalBytes data =
     do {
       buf \<leftarrow> r_type ProverUpdateType data;
       (delegateAddress, buf) \<leftarrow> r_bytes buf;
       (publicKeySignatureBls48581, buf) \<leftarrow>
         r_opt BLS48581AddressedSignature_FromCanonicalBytes buf;
       Some \<lparr>ProverUpdate.DelegateAddress = delegateAddress,
             ProverUpdate.PublicKeySignatureBls48581 = publicKeySignatureBls48581\<rparr>
     }"

interpretation prover_update: lossless_codec ProverUpdateType
  ProverUpdate_ToCanonicalBytes ProverUpdate_FromCanonicalBytes
  by (rule lossless_codecI
      [OF ProverUpdate_ToCanonicalBytes_def ProverUpdate_FromCanonicalBytes_def])
    (auto simp: codec_simps bind_eq_Some_conv)

section \<open>Traversal proofs and kicks\<close>

record Multiproof =
  Multicommitment :: bytes
  Proof :: bytes

definition Multiproof_ToCanonicalBytes :: "Multiproof \<Rightarrow> fault + bytes" where
  "Multiproof_ToCanonicalBytes m = writes
     [w_u32 MultiproofType, w_bytes (Multiproof.Multicommitment m), w_bytes (Multiproof.Proof m)]"

definition Multiproof_FromCanonicalBytes :: "bytes \<Rightarrow> Multiproof option" where
  "Multiproof_FromCanonicalBytes data =
     do {
       buf \<leftarrow> r_type MultiproofType data;
       (multicommitment, buf) \<leftarrow> r_bytes buf;
       (prf, buf) \<leftarrow> r_bytes buf;
       Some \<lparr>Multiproof.Multicommitment = multicommitment, Multiproof.Proof = prf\<rparr>
     }"

interpretation multiproof: lossless_codec MultiproofType
  Multiproof_ToCanonicalBytes Multiproof_FromCanonicalBytes
  by (rule lossless_codecI
      [OF Multiproof_ToCanonicalBytes_def Multiproof_FromCanonicalBytes_def])
    (auto simp: codec_simps bind_eq_Some_conv)

record Path =
  Indices :: "u64 list"

definition Path_ToCanonicalBytes :: "Path \<Rightarrow> fault + bytes" where
  "Path_ToCanonicalBytes p = writes
     [w_u32 PathType, w_list w_u64 (Path.Indices p)]"

definition Path_FromCanonicalBytes :: "bytes \<Rightarrow> Path option" where
  "Path_FromCanonicalBytes data =
     do {
       buf \<leftarrow> r_type PathType data;
       (indices, buf) \<leftarrow> r_list be_u64 buf;
       Some \<lparr>Path.Indices = indices\<rparr>
     }"

interpretation path: lossless_codec PathType
  Path_ToCanonicalBytes Path_FromCanonicalBytes
  by (rule lossless_codecI
      [OF Path_ToCanonicalBytes_def Path_FromCanonicalBytes_def])
    (auto simp: codec_simps bind_eq_Some_conv)

record TraversalSubProof =
  Commits :: "bytes list"
  Ys :: "bytes list"
  Paths :: "Path option list"

definition TraversalSubProof_ToCanonicalBytes :: "TraversalSubProof \<Rightarrow> fault + bytes" where
  "TraversalSubProof_ToCanonicalBytes t = writes
     [w_u32 TraversalSubProofType, w_list w_bytes (TraversalSubProof.Commits t),
      w_list w_bytes (TraversalSubProof.Ys t),
      w_list (w_sub Path_ToCanonicalBytes) (TraversalSubProof.Paths t)]"

definition TraversalSubProof_FromCanonicalBytes :: "bytes \<Rightarrow> TraversalSubProof option" where
  "TraversalSubProof_FromCanonicalBytes data =
     do {
       buf \<leftarrow> r_type TraversalSubProofType data;
       (commits, buf) \<leftarrow> r_list r_bytes buf;
       (ys, buf) \<leftarrow> r_list r_bytes buf;
       (paths, buf) \<leftarrow> r_list (r_sub Path_FromCanonicalBytes) buf;
       Some \<lparr>TraversalSubProof.Commits = commits, TraversalSubProof.Ys = ys,
             TraversalSubProof.Paths = paths\<rparr>
     }"

interpretation traversal_sub_proof: lossless_codec TraversalSubProofType
  TraversalSubProof_ToCanonicalBytes TraversalSubProof_FromCanonicalBytes
  by (rule lossless_codecI
      [OF TraversalSubProof_ToCanonicalBytes_def TraversalSubProof_FromCanonicalBytes_def])
    (auto simp: codec_simps bind_eq_Some_conv)

record TraversalProof =
  Multiproof :: "Multiproof option"
  SubProofs :: "TraversalSubProof option list"

definition TraversalProof_ToCanonicalBytes :: "TraversalProof \<Rightarrow> fault + bytes" where
  "TraversalProof_ToCanonicalBytes t = writes
     [w_u32 TraversalProofType, w_opt Multiproof_ToCanonicalBytes (TraversalProof.Multiproof t),
      w_list (w_sub TraversalSubProof_ToCanonicalBytes) (TraversalProof.SubProofs t)]"

definition TraversalProof_FromCanonicalBytes :: "bytes \<Rightarrow> TraversalProof option" where
  "TraversalProof_FromCanonicalBytes data =
     do {
       buf \<leftarrow> r_type TraversalProofType data;
       (multiproof, buf) \<leftarrow> r_opt Multiproof_FromCanonicalBytes buf;
       (subProofs, buf) \<leftarrow> r_list (r_sub TraversalSubProof_FromCanonicalBytes) buf;
       Some \<lparr>TraversalProof.Multiproof = multiproof, TraversalProof.SubProofs = subProofs\<rparr>
     }"

interpretation traversal_proof: lossless_codec TraversalProofType
  TraversalProof_ToCanonicalBytes TraversalProof_FromCanonicalBytes
  by (rule lossless_codecI
      [OF TraversalProof_ToCanonicalBytes_def TraversalProof_FromCanonicalBytes_def])
    (auto simp: codec_simps bind_eq_Some_conv)

record ProverKick =
  FrameNumber :: u64
  KickedProverPublicKey :: bytes
  ConflictingFrame_1 :: bytes
  ConflictingFrame_2 :: bytes
  Commitment :: bytes
  Proof :: bytes
  TraversalProof :: "TraversalProof option"

definition ProverKick_ToCanonicalBytes :: "ProverKick \<Rightarrow> fault + bytes" where
  "ProverKick_ToCanonicalBytes p = writes
     [w_u32 ProverKickType, w_u64 (ProverKick.FrameNumber p),
      w_bytes (ProverKick.KickedProverPublicKey p), w_bytes (ProverKick.ConflictingFrame_1 p),
      w_bytes (ProverKick.ConflictingFrame_2 p), w_bytes (ProverKick.Commitment p),
      w_bytes (ProverKick.Proof p),
      w_opt TraversalProof_ToCanonicalBytes (ProverKick.TraversalProof p)]"

definition ProverKick_FromCanonicalBytes :: "bytes \<Rightarrow> ProverKick option" where
  "ProverKick_FromCanonicalBytes data =
     do {
       buf \<leftarrow> r_type ProverKickType data;
       (frameNumber, buf) \<leftarrow> be_u64 buf;
       (kickedProverPublicKey, buf) \<leftarrow> r_bytes buf;
       (conflictingFrame1, buf) \<leftarrow> r_bytes buf;
       (conflictingFrame2, buf) \<leftarrow> r_bytes buf;
       (commitment, buf) \<leftarrow> r_bytes buf;
       (prf, buf) \<leftarrow> r_bytes buf;
       (traversalProof, buf) \<leftarrow> r_opt TraversalProof_FromCanonicalBytes buf;
       Some \<lparr>ProverKick.FrameNumber = frameNumber,
             ProverKick.KickedProverPublicKey = kickedProverPublicKey,
             ProverKick.ConflictingFrame_1 = conflictingFrame1,
             ProverKick.ConflictingFrame_2 = conflictingFrame2,
             ProverKick.Commitment = commitment, ProverKick.Proof = prf,
             ProverKick.TraversalProof = traversalProof\<rparr>
     }"

interpretation prover_kick: lossless_codec ProverKickType
  ProverKick_ToCanonicalBytes ProverKick_FromCanonicalBytes
  by (rule lossless_codecI
      [OF ProverKick_ToCanonicalBytes_def ProverKick_FromCanonicalBytes_def])
    (auto simp: codec_simps bind_eq_Some_conv)

record GlobalAlert =
  Message :: bytes
  Signature :: bytes

definition GlobalAlert_ToCanonicalBytes :: "GlobalAlert \<Rightarrow> fault + bytes" where
  "GlobalAlert_ToCanonicalBytes g = writes
     [w_u32 GlobalAlertType, w_bytes (GlobalAlert.Message g), w_bytes (GlobalAlert.Signature g)]"

definition GlobalAlert_FromCanonicalBytes :: "bytes \<Rightarrow> GlobalAlert option" where
  "GlobalAlert_FromCanonicalBytes data =
     do {
       buf \<leftarrow> r_type GlobalAlertType data;
       (message, buf) \<leftarrow> r_bytes buf;
       (sig, buf) \<leftarrow> r_bytes buf;
       Some \<lparr>GlobalAlert.Message = message, GlobalAlert.Signature = sig\<rparr>
     }"

interpretation global_alert: lossless_codec GlobalAlertType
  GlobalAlert_ToCanonicalBytes GlobalAlert_FromCanonicalBytes
  by (rule lossless_codecI
      [OF GlobalAlert_ToCanonicalBytes_def GlobalAlert_FromCanonicalBytes_def])
    (auto simp: codec_simps bind_eq_Some_conv)

section \<open>Liveness checks\<close>

text \<open>
  The one message whose reader refuses what its writer may produce: a nil signature is written as
  length 0, and length 0 is an error when read.
\<close>

record ProverLivenessCheck =
  Filter :: bytes
  FrameNumber :: u64
  Timestamp :: i64
  CommitmentHash :: bytes
  PublicKeySignatureBls48581 :: "BLS48581AddressedSignature option"

definition ProverLivenessCheck_ToCanonicalBytes :: "ProverLivenessCheck \<Rightarrow> fault + bytes" where
  "ProverLivenessCheck_ToCanonicalBytes p = writes
     [w_u32 ProverLivenessCheckType, w_bytes (ProverLivenessCheck.Filter p),
      w_u64 (ProverLivenessCheck.FrameNumber p), w_u64 (ProverLivenessCheck.Timestamp p),
      w_bytes (ProverLivenessCheck.CommitmentHash p),
      w_opt BLS48581AddressedSignature_ToCanonicalBytes
        (ProverLivenessCheck.PublicKeySignatureBls48581 p)]"

definition r_nonnil :: "(bytes \<Rightarrow> 'm option) \<Rightarrow> bytes \<Rightarrow> ('m option \<times> bytes) option" where
  "r_nonnil dec buf =
     do {
       (n, buf) \<leftarrow> be_u32 buf;
       if n = 0 then None
       else do { (b, buf) \<leftarrow> r_buf (unat n) buf; m \<leftarrow> dec b; Some (Some m, buf) }
     }"

definition ProverLivenessCheck_FromCanonicalBytes :: "bytes \<Rightarrow> ProverLivenessCheck option" where
  "ProverLivenessCheck_FromCanonicalBytes data =
     do {
       buf \<leftarrow> r_type ProverLivenessCheckType data;
       (filter, buf) \<leftarrow> r_bytes buf;
       (frameNumber, buf) \<leftarrow> be_u64 buf;
       (timestamp, buf) \<leftarrow> be_u64 buf;
       (commitmentHash, buf) \<leftarrow> r_bytes buf;
       (publicKeySignatureBls48581, buf) \<leftarrow> r_nonnil BLS48581AddressedSignature_FromCanonicalBytes buf;
       Some \<lparr>ProverLivenessCheck.Filter = filter, ProverLivenessCheck.FrameNumber = frameNumber,
             ProverLivenessCheck.Timestamp = timestamp,
             ProverLivenessCheck.CommitmentHash = commitmentHash,
             ProverLivenessCheck.PublicKeySignatureBls48581 = publicKeySignatureBls48581\<rparr>
     }"

section \<open>Validation\<close>

definition SeniorityMerge_Validate :: "SeniorityMerge option \<Rightarrow> bool" where
  "SeniorityMerge_Validate p =
     (case p of None \<Rightarrow> False
      | Some t \<Rightarrow> length (SeniorityMerge.Signature t) = 74 \<and> SeniorityMerge.ProverPublicKey t \<noteq> [])"

definition ProverJoin_Validate :: "ProverJoin option \<Rightarrow> bool" where
  "ProverJoin_Validate p =
     (case p of None \<Rightarrow> False
      | Some t \<Rightarrow> ProverJoin.Filters t \<noteq> [] \<and>
          list_all (\<lambda>filter. length filter = 32 \<or> length filter = 64)
            (ProverJoin.Filters t) \<and>
          (ProverJoin.PublicKeySignatureBls48581 t = None \<or>
           BLS48581SignatureWithProofOfPossession_Validate
             (ProverJoin.PublicKeySignatureBls48581 t)))"

definition ProverLeave_Validate :: "ProverLeave option \<Rightarrow> bool" where
  "ProverLeave_Validate p =
     (case p of None \<Rightarrow> False
      | Some t \<Rightarrow> ProverLeave.Filters t \<noteq> [] \<and>
          list_all (\<lambda>filter. length filter = 32 \<or> length filter = 64)
            (ProverLeave.Filters t) \<and>
          BLS48581AddressedSignature_Validate (ProverLeave.PublicKeySignatureBls48581 t))"

definition ProverPause_Validate :: "ProverPause option \<Rightarrow> bool" where
  "ProverPause_Validate p =
     (case p of None \<Rightarrow> False
      | Some t \<Rightarrow> length (ProverPause.Filter t) = 32 \<and>
          BLS48581AddressedSignature_Validate (ProverPause.PublicKeySignatureBls48581 t))"

definition ProverResume_Validate :: "ProverResume option \<Rightarrow> bool" where
  "ProverResume_Validate p =
     (case p of None \<Rightarrow> False
      | Some t \<Rightarrow> length (ProverResume.Filter t) = 32 \<and>
          BLS48581AddressedSignature_Validate (ProverResume.PublicKeySignatureBls48581 t))"

definition ProverConfirm_Validate :: "ProverConfirm option \<Rightarrow> bool" where
  "ProverConfirm_Validate p =
     (case p of None \<Rightarrow> False
      | Some t \<Rightarrow> (length (ProverConfirm.Filter t) = 32 \<or> length (ProverConfirm.Filter t) = 64) \<and>
          BLS48581AddressedSignature_Validate (ProverConfirm.PublicKeySignatureBls48581 t))"

definition ProverReject_Validate :: "ProverReject option \<Rightarrow> bool" where
  "ProverReject_Validate p =
     (case p of None \<Rightarrow> False
      | Some t \<Rightarrow> (length (ProverReject.Filter t) = 32 \<or> length (ProverReject.Filter t) = 64) \<and>
          BLS48581AddressedSignature_Validate (ProverReject.PublicKeySignatureBls48581 t))"

definition ProverUpdate_Validate :: "ProverUpdate option \<Rightarrow> bool" where
  "ProverUpdate_Validate p =
     (case p of None \<Rightarrow> False
      | Some t \<Rightarrow> ProverUpdate.DelegateAddress t \<noteq> [] \<and>
          BLS48581AddressedSignature_Validate (ProverUpdate.PublicKeySignatureBls48581 t))"

definition Multiproof_Validate :: "Multiproof option \<Rightarrow> bool" where
  "Multiproof_Validate p =
     (case p of None \<Rightarrow> False
      | Some t \<Rightarrow> Multiproof.Multicommitment t \<noteq> [] \<and> Multiproof.Proof t \<noteq> [])"

definition Path_Validate :: "Path option \<Rightarrow> bool" where
  "Path_Validate p = (p \<noteq> None)"

definition TraversalSubProof_Validate :: "TraversalSubProof option \<Rightarrow> bool" where
  "TraversalSubProof_Validate p =
     (case p of None \<Rightarrow> False
      | Some t \<Rightarrow> TraversalSubProof.Commits t \<noteq> [] \<and> TraversalSubProof.Ys t \<noteq> [] \<and>
          TraversalSubProof.Paths t \<noteq> [] \<and>
          length (TraversalSubProof.Commits t) = length (TraversalSubProof.Ys t) \<and>
          length (TraversalSubProof.Commits t) = length (TraversalSubProof.Paths t) \<and>
          list_all Path_Validate (TraversalSubProof.Paths t))"

definition TraversalProof_Validate :: "TraversalProof option \<Rightarrow> bool" where
  "TraversalProof_Validate p =
     (case p of None \<Rightarrow> False
      | Some t \<Rightarrow> Multiproof_Validate (TraversalProof.Multiproof t) \<and>
          TraversalProof.SubProofs t \<noteq> [] \<and>
          list_all TraversalSubProof_Validate (TraversalProof.SubProofs t))"

definition ProverKick_Validate :: "ProverKick option \<Rightarrow> bool" where
  "ProverKick_Validate p =
     (case p of None \<Rightarrow> False
      | Some t \<Rightarrow> ProverKick.KickedProverPublicKey t \<noteq> [] \<and> ProverKick.ConflictingFrame_1 t \<noteq> [] \<and>
          ProverKick.ConflictingFrame_2 t \<noteq> [] \<and> ProverKick.Commitment t \<noteq> [] \<and>
          ProverKick.Proof t \<noteq> [] \<and>
          (ProverKick.TraversalProof t = None \<or>
           TraversalProof_Validate (ProverKick.TraversalProof t)))"

definition ProverLivenessCheck_Validate :: "ProverLivenessCheck option \<Rightarrow> bool" where
  "ProverLivenessCheck_Validate p =
     (case p of None \<Rightarrow> False
      | Some c \<Rightarrow> length (ProverLivenessCheck.Filter c) \<le> 64 \<and>
          length (ProverLivenessCheck.CommitmentHash c) = 32 \<and>
          BLS48581AddressedSignature_Validate (ProverLivenessCheck.PublicKeySignatureBls48581 c))"

definition GlobalAlert_Validate :: "GlobalAlert option \<Rightarrow> bool" where
  "GlobalAlert_Validate p =
     (case p of None \<Rightarrow> False
      | Some g \<Rightarrow> GlobalAlert.Message g \<noteq> [] \<and> length (GlobalAlert.Signature g) = 114)"

section \<open>Signing and checking the legacy announcement\<close>

text \<open>
  The first signer (the primary) signs the concatenation of the other public keys, every other
  signer signs the primary's public key.  \<open>verify\<close> is \<^verbatim>\<open>ed448.Verify\<close> (public key, message,
  signature, context); a helper is a public key and its signing function, \<^const>\<open>None\<close> for an error.
  \<^verbatim>\<open>ValidateSignature\<close> dereferences the signatures and their keys without checks, so it can panic
  on its own; \<^verbatim>\<open>Validate\<close> calls it after its checks.
\<close>

definition signer :: "Ed448Signature option \<Rightarrow> (bytes \<times> bytes) option" where
  "signer p =
     do { s \<leftarrow> p; k \<leftarrow> Ed448Signature.PublicKey s;
          Some (Ed448PublicKey.KeyValue k, Ed448Signature.Signature s) }"

primrec check_secondaries ::
  "(bytes \<Rightarrow> bytes \<Rightarrow> bytes \<Rightarrow> bytes \<Rightarrow> bool) \<Rightarrow> Ed448Signature option \<Rightarrow>
   Ed448Signature option list \<Rightarrow> bytes \<Rightarrow> fault + bytes" where
  "check_secondaries verify primary [] payload = Inr payload"
| "check_secondaries verify primary (p # ps) payload =
     (case (signer p, signer primary) of
        (Some (k, sig), Some (pk, _)) \<Rightarrow>
          if verify k pk sig [] then check_secondaries verify primary ps (payload @ k)
          else Inl Err
      | _ \<Rightarrow> Inl Panic)"

definition LegacyProverRequest_ValidateSignature ::
  "(bytes \<Rightarrow> bytes \<Rightarrow> bytes \<Rightarrow> bytes \<Rightarrow> bool) \<Rightarrow> LegacyProverRequest \<Rightarrow> fault + unit" where
  "LegacyProverRequest_ValidateSignature verify t =
     (case LegacyProverRequest.PublicKeySignaturesEd448 t of [] \<Rightarrow> Inl Panic
      | primary # ps \<Rightarrow>
          (case check_secondaries verify primary ps [] of Inl e \<Rightarrow> Inl e
           | Inr payload \<Rightarrow>
               (case signer primary of None \<Rightarrow> Inl Panic
                | Some (pk, sig) \<Rightarrow> if verify pk payload sig [] then Inr () else Inl Err)))"

definition LegacyProverRequest_Validate ::
  "(bytes \<Rightarrow> bytes \<Rightarrow> bytes \<Rightarrow> bytes \<Rightarrow> bool) \<Rightarrow> LegacyProverRequest option \<Rightarrow> fault + unit" where
  "LegacyProverRequest_Validate verify p =
     (case p of None \<Rightarrow> Inl Err
      | Some t \<Rightarrow>
          if LegacyProverRequest.PublicKeySignaturesEd448 t = [] then Inl Err
          else if \<not> list_all Ed448Signature_Validate (LegacyProverRequest.PublicKeySignaturesEd448 t)
          then Inl Err
          else LegacyProverRequest_ValidateSignature verify t)"

definition newED448Signature :: "bytes \<Rightarrow> bytes \<Rightarrow> Ed448Signature" where
  "newED448Signature publicKey signature =
     \<lparr>Ed448Signature.Signature = signature,
      Ed448Signature.PublicKey = Some \<lparr>Ed448PublicKey.KeyValue = publicKey\<rparr>\<rparr>"

primrec sign_secondaries ::
  "bytes \<Rightarrow> (bytes \<times> (bytes \<Rightarrow> bytes option)) list \<Rightarrow> bytes \<Rightarrow>
   (bytes \<times> Ed448Signature option list) option" where
  "sign_secondaries primary [] payload = Some (payload, [])"
| "sign_secondaries primary (h # hs) payload =
     do {
       signature \<leftarrow> snd h primary;
       (payload, sigs) \<leftarrow> sign_secondaries primary hs (payload @ fst h);
       Some (payload, Some (newED448Signature (fst h) signature) # sigs)
     }"

definition LegacyProverRequest_SignED448 ::
  "(bytes \<times> (bytes \<Rightarrow> bytes option)) list \<Rightarrow> LegacyProverRequest option" where
  "LegacyProverRequest_SignED448 helpers =
     (case helpers of [] \<Rightarrow> None
      | h # hs \<Rightarrow>
          do {
            (payload, sigs) \<leftarrow> sign_secondaries (fst h) hs [];
            signature \<leftarrow> snd h payload;
            Some \<lparr>LegacyProverRequest.PublicKeySignaturesEd448 =
                    Some (newED448Signature (fst h) signature) # sigs\<rparr>
          })"

lemma signer_new [simp]: "signer (Some (newED448Signature k sig)) = Some (k, sig)"
  by (simp add: signer_def newED448Signature_def)

lemma validate_new [simp]:
  "Ed448Signature_Validate (Some (newED448Signature k sig)) \<longleftrightarrow> length k = 57 \<and> length sig = 114"
  by (auto simp: Ed448Signature_Validate_def Ed448PublicKey_Validate_def newED448Signature_def)

text \<open>A helper whose signatures are accepted under its public key.\<close>

definition sound_signer ::
  "(bytes \<Rightarrow> bytes \<Rightarrow> bytes \<Rightarrow> bytes \<Rightarrow> bool) \<Rightarrow> bytes \<times> (bytes \<Rightarrow> bytes option) \<Rightarrow> bool" where
  "sound_signer verify h \<longleftrightarrow>
     length (fst h) = 57 \<and>
     (\<forall>msg. \<exists>sig. snd h msg = Some sig \<and> length sig = 114 \<and> verify (fst h) msg sig [])"

lemma sign_secondaries_check:
  assumes "list_all (sound_signer verify) hs" and "signer primary = Some (pk, s)"
  shows "\<exists>payload' sigs. sign_secondaries pk hs payload = Some (payload', sigs) \<and>
    check_secondaries verify primary sigs payload = Inr payload' \<and>
    list_all Ed448Signature_Validate sigs"
  using assms(1)
proof (induction hs arbitrary: payload)
  case (Cons h hs)
  then obtain sig where "snd h pk = Some sig" "length sig = 114" "verify (fst h) pk sig []"
      and "length (fst h) = 57"
    by (auto simp: sound_signer_def)
  with Cons.IH [of "payload @ fst h"] Cons.prems assms(2) show ?case by auto
qed simp

lemma check_secondaries_key:
  assumes "signer p = Some (pk, s)" and "signer p' = Some (pk, s')"
  shows "check_secondaries verify p sigs payload = check_secondaries verify p' sigs payload"
  using assms by (induction sigs arbitrary: payload) (simp_all split: option.splits prod.splits)

section \<open>Properties\<close>

text \<open>Claim C24.  An announcement signed by \<^verbatim>\<open>SignED448\<close> passes \<^verbatim>\<open>Validate\<close>, signature checks
  included: with at least one signer and signers whose signatures verify under their own keys,
  signing succeeds and the signed request is accepted without error or panic.\<close>

theorem legacy_signed_request_validates:
  assumes "helpers \<noteq> []" and "list_all (sound_signer verify) helpers"
  shows "\<exists>t. LegacyProverRequest_SignED448 helpers = Some t \<and>
    LegacyProverRequest_Validate verify (Some t) = Inr ()"
proof -
  from assms obtain h hs where hs: "helpers = h # hs" "sound_signer verify h"
      "list_all (sound_signer verify) hs"
    by (cases helpers) auto
  obtain payload sigs where p: "sign_secondaries (fst h) hs [] = Some (payload, sigs)"
      "\<And>s. check_secondaries verify (Some (newED448Signature (fst h) s)) sigs [] = Inr payload"
      "list_all Ed448Signature_Validate sigs"
    using sign_secondaries_check [OF hs(3), of "Some (newED448Signature (fst h) [])" "fst h" "[]" "[]"]
      check_secondaries_key [of "Some (newED448Signature (fst h) _)" "fst h"]
    by (metis signer_new)
  obtain sig where "snd h payload = Some sig" "length sig = 114" "verify (fst h) payload sig []"
      and "length (fst h) = 57"
    using hs(2) unfolding sound_signer_def by blast
  with hs(1) p show ?thesis
    by (simp add: LegacyProverRequest_SignED448_def LegacyProverRequest_Validate_def
        LegacyProverRequest_ValidateSignature_def)
qed

theorem legacy_signed_request_validates_witness:
  "\<exists>t. LegacyProverRequest_SignED448 [(replicate 57 1, \<lambda>_. Some (replicate 114 2)),
        (replicate 57 3, \<lambda>_. Some (replicate 114 4))] = Some t \<and>
     LegacyProverRequest_Validate (\<lambda>k m s c. length s = 114) (Some t) = Inr ()"
  using legacy_signed_request_validates [of "[(replicate 57 1, \<lambda>_. Some (replicate 114 2)),
      (replicate 57 3, \<lambda>_. Some (replicate 114 4))]" "\<lambda>k m s c. length s = 114"]
  by (simp add: sound_signer_def)

text \<open> A liveness check reads back exactly when it was written with a signature: without
  one the bytes are well formed up to the signature and still refused.\<close>

theorem liveness_check_roundtrip:
  assumes "ProverLivenessCheck_ToCanonicalBytes p = Inr bs" and "fits bs"
  shows "ProverLivenessCheck_FromCanonicalBytes (bs @ rest) =
    (if ProverLivenessCheck.PublicKeySignatureBls48581 p = None then None else Some p)"
proof -
  obtain b where b: "w_opt BLS48581AddressedSignature_ToCanonicalBytes
        (ProverLivenessCheck.PublicKeySignatureBls48581 p) = Inr b" "fits b"
    using assms by (auto simp: ProverLivenessCheck_ToCanonicalBytes_def codec_simps)
  have "r_nonnil BLS48581AddressedSignature_FromCanonicalBytes (b @ rest) =
      (case ProverLivenessCheck.PublicKeySignatureBls48581 p of None \<Rightarrow> None
       | Some s \<Rightarrow> Some (Some s, rest))"
    using bls_addressed_signature.opt_id [OF b, of rest] b
    by (auto simp: r_nonnil_def r_opt_def w_opt_def codec_simps word_gt_0 bind_eq_Some_conv
        split: option.splits if_splits)
  with assms b show ?thesis
    by (auto simp: ProverLivenessCheck_ToCanonicalBytes_def ProverLivenessCheck_FromCanonicalBytes_def
        codec_simps split: option.splits)
qed

theorem liveness_check_roundtrip_witness:
  "let p = \<lparr>ProverLivenessCheck.Filter = [1], ProverLivenessCheck.FrameNumber = 5,
             ProverLivenessCheck.Timestamp = 6, ProverLivenessCheck.CommitmentHash = [2],
             ProverLivenessCheck.PublicKeySignatureBls48581 =
               Some \<lparr>BLS48581AddressedSignature.Signature = [3],
                     BLS48581AddressedSignature.Address = [4]\<rparr>\<rparr>;
       bs = projr (ProverLivenessCheck_ToCanonicalBytes p)
   in ProverLivenessCheck_ToCanonicalBytes p = Inr bs \<and> fits bs \<and>
      ProverLivenessCheck_FromCanonicalBytes (bs @ [9]) = Some p"
proof -
  let ?p = "\<lparr>ProverLivenessCheck.Filter = [1], ProverLivenessCheck.FrameNumber = 5,
             ProverLivenessCheck.Timestamp = 6, ProverLivenessCheck.CommitmentHash = [2],
             ProverLivenessCheck.PublicKeySignatureBls48581 =
               Some \<lparr>BLS48581AddressedSignature.Signature = [3],
                     BLS48581AddressedSignature.Address = [4]\<rparr>\<rparr>"
  let ?bs = "projr (ProverLivenessCheck_ToCanonicalBytes ?p)"
  have bs: "ProverLivenessCheck_ToCanonicalBytes ?p = Inr ?bs" by code_simp
  have "length ?bs < 100" by code_simp
  then have fits: "fits ?bs" by linarith
  have "ProverLivenessCheck_FromCanonicalBytes (?bs @ [9]) = Some ?p"
    using liveness_check_roundtrip [OF bs fits, of "[9]"] by simp
  with bs fits show ?thesis unfolding Let_def by (intro conjI)
qed

end
