(* ===== verification/Hypergraph_Messages.thy ===== *)
theory Hypergraph_Messages
  imports Key_Messages
begin

text \<open>
  The hypergraph intrinsic's messages of \<^verbatim>\<open>src/protobufs/hypergraph.go\<close>: configuration,
  deployment, update, and adding and removing vertices and hyperedges.
\<close>

section \<open>Messages\<close>

record HypergraphConfiguration =
  ReadPublicKey :: bytes
  WritePublicKey :: bytes
  OwnerPublicKey :: bytes

definition HypergraphConfiguration_ToCanonicalBytes :: "HypergraphConfiguration \<Rightarrow> fault + bytes" where
  "HypergraphConfiguration_ToCanonicalBytes h = writes
     [w_u32 HypergraphConfigurationType, w_bytes (HypergraphConfiguration.ReadPublicKey h),
      w_bytes (HypergraphConfiguration.WritePublicKey h),
      w_bytes (HypergraphConfiguration.OwnerPublicKey h)]"

definition HypergraphConfiguration_FromCanonicalBytes :: "bytes \<Rightarrow> HypergraphConfiguration option" where
  "HypergraphConfiguration_FromCanonicalBytes data =
     do {
       buf \<leftarrow> r_type HypergraphConfigurationType data;
       (readPublicKey, buf) \<leftarrow> r_bytes buf;
       (writePublicKey, buf) \<leftarrow> r_bytes buf;
       (ownerPublicKey, buf) \<leftarrow> r_bytes buf;
       Some \<lparr>HypergraphConfiguration.ReadPublicKey = readPublicKey,
             HypergraphConfiguration.WritePublicKey = writePublicKey,
             HypergraphConfiguration.OwnerPublicKey = ownerPublicKey\<rparr>
     }"

interpretation hypergraph_configuration: lossless_codec HypergraphConfigurationType
  HypergraphConfiguration_ToCanonicalBytes HypergraphConfiguration_FromCanonicalBytes
  by (rule lossless_codecI
      [OF HypergraphConfiguration_ToCanonicalBytes_def HypergraphConfiguration_FromCanonicalBytes_def])
    (auto simp: codec_simps bind_eq_Some_conv)

record HypergraphDeploy =
  Config :: "HypergraphConfiguration option"
  RdfSchema :: bytes

definition HypergraphDeploy_ToCanonicalBytes :: "HypergraphDeploy \<Rightarrow> fault + bytes" where
  "HypergraphDeploy_ToCanonicalBytes h = writes
     [w_u32 HypergraphDeploymentType,
      w_req HypergraphConfiguration_ToCanonicalBytes (HypergraphDeploy.Config h),
      w_bytes (HypergraphDeploy.RdfSchema h)]"

definition HypergraphDeploy_FromCanonicalBytes :: "bytes \<Rightarrow> HypergraphDeploy option" where
  "HypergraphDeploy_FromCanonicalBytes data =
     do {
       buf \<leftarrow> r_type HypergraphDeploymentType data;
       (config, buf) \<leftarrow> r_sub HypergraphConfiguration_FromCanonicalBytes buf;
       (rdfSchema, buf) \<leftarrow> r_bytes buf;
       Some \<lparr>HypergraphDeploy.Config = config, HypergraphDeploy.RdfSchema = rdfSchema\<rparr>
     }"

interpretation hypergraph_deploy: lossless_codec HypergraphDeploymentType
  HypergraphDeploy_ToCanonicalBytes HypergraphDeploy_FromCanonicalBytes
  by (rule lossless_codecI
      [OF HypergraphDeploy_ToCanonicalBytes_def HypergraphDeploy_FromCanonicalBytes_def])
    (auto simp: codec_simps bind_eq_Some_conv)

record HypergraphUpdate =
  Config :: "HypergraphConfiguration option"
  RdfSchema :: bytes
  PublicKeySignatureBls48581 :: "BLS48581AggregateSignature option"

definition HypergraphUpdate_ToCanonicalBytes :: "HypergraphUpdate \<Rightarrow> fault + bytes" where
  "HypergraphUpdate_ToCanonicalBytes h = writes
     [w_u32 HypergraphUpdateType,
      w_opt HypergraphConfiguration_ToCanonicalBytes (HypergraphUpdate.Config h),
      w_bytes (HypergraphUpdate.RdfSchema h),
      w_opt BLS48581AggregateSignature_ToCanonicalBytes
        (HypergraphUpdate.PublicKeySignatureBls48581 h)]"

definition HypergraphUpdate_FromCanonicalBytes :: "bytes \<Rightarrow> HypergraphUpdate option" where
  "HypergraphUpdate_FromCanonicalBytes data =
     do {
       buf \<leftarrow> r_type HypergraphUpdateType data;
       (config, buf) \<leftarrow> r_opt HypergraphConfiguration_FromCanonicalBytes buf;
       (rdfSchema, buf) \<leftarrow> r_bytes buf;
       (publicKeySignatureBls48581, buf) \<leftarrow>
         r_opt BLS48581AggregateSignature_FromCanonicalBytes buf;
       Some \<lparr>HypergraphUpdate.Config = config, HypergraphUpdate.RdfSchema = rdfSchema,
             HypergraphUpdate.PublicKeySignatureBls48581 = publicKeySignatureBls48581\<rparr>
     }"

interpretation hypergraph_update: lossless_codec HypergraphUpdateType
  HypergraphUpdate_ToCanonicalBytes HypergraphUpdate_FromCanonicalBytes
  by (rule lossless_codecI
      [OF HypergraphUpdate_ToCanonicalBytes_def HypergraphUpdate_FromCanonicalBytes_def])
    (auto simp: codec_simps bind_eq_Some_conv)

record VertexAdd =
  Domain :: bytes
  DataAddress :: bytes
  Data :: bytes
  Signature :: bytes

definition VertexAdd_ToCanonicalBytes :: "VertexAdd \<Rightarrow> fault + bytes" where
  "VertexAdd_ToCanonicalBytes v = writes
     [w_u32 VertexAddType, w_bytes (VertexAdd.Domain v), w_bytes (VertexAdd.DataAddress v),
      w_bytes (VertexAdd.Data v), w_bytes (VertexAdd.Signature v)]"

definition VertexAdd_FromCanonicalBytes :: "bytes \<Rightarrow> VertexAdd option" where
  "VertexAdd_FromCanonicalBytes data =
     do {
       buf \<leftarrow> r_type VertexAddType data;
       (domain, buf) \<leftarrow> r_bytes buf;
       (dataAddress, buf) \<leftarrow> r_bytes buf;
       (dat, buf) \<leftarrow> r_bytes buf;
       (sig, buf) \<leftarrow> r_bytes buf;
       Some \<lparr>VertexAdd.Domain = domain, VertexAdd.DataAddress = dataAddress, VertexAdd.Data = dat,
             VertexAdd.Signature = sig\<rparr>
     }"

interpretation vertex_add: lossless_codec VertexAddType
  VertexAdd_ToCanonicalBytes VertexAdd_FromCanonicalBytes
  by (rule lossless_codecI
      [OF VertexAdd_ToCanonicalBytes_def VertexAdd_FromCanonicalBytes_def])
    (auto simp: codec_simps bind_eq_Some_conv)

record VertexRemove =
  Domain :: bytes
  DataAddress :: bytes
  Signature :: bytes

definition VertexRemove_ToCanonicalBytes :: "VertexRemove \<Rightarrow> fault + bytes" where
  "VertexRemove_ToCanonicalBytes v = writes
     [w_u32 VertexRemoveType, w_bytes (VertexRemove.Domain v),
      w_bytes (VertexRemove.DataAddress v), w_bytes (VertexRemove.Signature v)]"

definition VertexRemove_FromCanonicalBytes :: "bytes \<Rightarrow> VertexRemove option" where
  "VertexRemove_FromCanonicalBytes data =
     do {
       buf \<leftarrow> r_type VertexRemoveType data;
       (domain, buf) \<leftarrow> r_bytes buf;
       (dataAddress, buf) \<leftarrow> r_bytes buf;
       (sig, buf) \<leftarrow> r_bytes buf;
       Some \<lparr>VertexRemove.Domain = domain, VertexRemove.DataAddress = dataAddress,
             VertexRemove.Signature = sig\<rparr>
     }"

interpretation vertex_remove: lossless_codec VertexRemoveType
  VertexRemove_ToCanonicalBytes VertexRemove_FromCanonicalBytes
  by (rule lossless_codecI
      [OF VertexRemove_ToCanonicalBytes_def VertexRemove_FromCanonicalBytes_def])
    (auto simp: codec_simps bind_eq_Some_conv)

record HyperedgeAdd =
  Domain :: bytes
  Value :: bytes
  Signature :: bytes

definition HyperedgeAdd_ToCanonicalBytes :: "HyperedgeAdd \<Rightarrow> fault + bytes" where
  "HyperedgeAdd_ToCanonicalBytes h = writes
     [w_u32 HyperedgeAddType, w_bytes (HyperedgeAdd.Domain h), w_bytes (HyperedgeAdd.Value h),
      w_bytes (HyperedgeAdd.Signature h)]"

definition HyperedgeAdd_FromCanonicalBytes :: "bytes \<Rightarrow> HyperedgeAdd option" where
  "HyperedgeAdd_FromCanonicalBytes data =
     do {
       buf \<leftarrow> r_type HyperedgeAddType data;
       (domain, buf) \<leftarrow> r_bytes buf;
       (val, buf) \<leftarrow> r_bytes buf;
       (sig, buf) \<leftarrow> r_bytes buf;
       Some \<lparr>HyperedgeAdd.Domain = domain, HyperedgeAdd.Value = val, HyperedgeAdd.Signature = sig\<rparr>
     }"

interpretation hyperedge_add: lossless_codec HyperedgeAddType
  HyperedgeAdd_ToCanonicalBytes HyperedgeAdd_FromCanonicalBytes
  by (rule lossless_codecI
      [OF HyperedgeAdd_ToCanonicalBytes_def HyperedgeAdd_FromCanonicalBytes_def])
    (auto simp: codec_simps bind_eq_Some_conv)

record HyperedgeRemove =
  Domain :: bytes
  Value :: bytes
  Signature :: bytes

definition HyperedgeRemove_ToCanonicalBytes :: "HyperedgeRemove \<Rightarrow> fault + bytes" where
  "HyperedgeRemove_ToCanonicalBytes h = writes
     [w_u32 HyperedgeRemoveType, w_bytes (HyperedgeRemove.Domain h),
      w_bytes (HyperedgeRemove.Value h), w_bytes (HyperedgeRemove.Signature h)]"

definition HyperedgeRemove_FromCanonicalBytes :: "bytes \<Rightarrow> HyperedgeRemove option" where
  "HyperedgeRemove_FromCanonicalBytes data =
     do {
       buf \<leftarrow> r_type HyperedgeRemoveType data;
       (domain, buf) \<leftarrow> r_bytes buf;
       (val, buf) \<leftarrow> r_bytes buf;
       (sig, buf) \<leftarrow> r_bytes buf;
       Some \<lparr>HyperedgeRemove.Domain = domain, HyperedgeRemove.Value = val,
             HyperedgeRemove.Signature = sig\<rparr>
     }"

interpretation hyperedge_remove: lossless_codec HyperedgeRemoveType
  HyperedgeRemove_ToCanonicalBytes HyperedgeRemove_FromCanonicalBytes
  by (rule lossless_codecI
      [OF HyperedgeRemove_ToCanonicalBytes_def HyperedgeRemove_FromCanonicalBytes_def])
    (auto simp: codec_simps bind_eq_Some_conv)

section \<open>Validation\<close>

definition HypergraphConfiguration_Validate :: "HypergraphConfiguration option \<Rightarrow> bool" where
  "HypergraphConfiguration_Validate p =
     (case p of None \<Rightarrow> False
      | Some h \<Rightarrow> length (HypergraphConfiguration.ReadPublicKey h) = 57 \<and>
          length (HypergraphConfiguration.WritePublicKey h) = 57 \<and>
          (length (HypergraphConfiguration.OwnerPublicKey h) = 0 \<or>
           length (HypergraphConfiguration.OwnerPublicKey h) = 585))"

definition HypergraphDeploy_Validate :: "HypergraphDeploy option \<Rightarrow> bool" where
  "HypergraphDeploy_Validate p =
     (case p of None \<Rightarrow> False
      | Some h \<Rightarrow> HypergraphConfiguration_Validate (HypergraphDeploy.Config h))"

definition HypergraphUpdate_Validate :: "HypergraphUpdate option \<Rightarrow> bool" where
  "HypergraphUpdate_Validate p =
     (case p of None \<Rightarrow> False
      | Some h \<Rightarrow> \<not> (HypergraphUpdate.Config h = None \<and> length (HypergraphUpdate.RdfSchema h) = 0) \<and>
          (HypergraphUpdate.Config h = None \<or>
           HypergraphConfiguration_Validate (HypergraphUpdate.Config h)) \<and>
          BLS48581AggregateSignature_Validate (HypergraphUpdate.PublicKeySignatureBls48581 h))"

definition VertexAdd_Validate :: "VertexAdd option \<Rightarrow> bool" where
  "VertexAdd_Validate p =
     (case p of None \<Rightarrow> False
      | Some v \<Rightarrow> length (VertexAdd.Domain v) = 32 \<and> length (VertexAdd.DataAddress v) = 32 \<and>
          VertexAdd.Data v \<noteq> [] \<and> VertexAdd.Signature v \<noteq> [])"

definition VertexRemove_Validate :: "VertexRemove option \<Rightarrow> bool" where
  "VertexRemove_Validate p =
     (case p of None \<Rightarrow> False
      | Some v \<Rightarrow> length (VertexRemove.Domain v) = 32 \<and> length (VertexRemove.DataAddress v) = 32 \<and>
          VertexRemove.Signature v \<noteq> [])"

definition HyperedgeAdd_Validate :: "HyperedgeAdd option \<Rightarrow> bool" where
  "HyperedgeAdd_Validate p =
     (case p of None \<Rightarrow> False
      | Some h \<Rightarrow> length (HyperedgeAdd.Domain h) = 32 \<and> HyperedgeAdd.Value h \<noteq> [] \<and>
          HyperedgeAdd.Signature h \<noteq> [])"

definition HyperedgeRemove_Validate :: "HyperedgeRemove option \<Rightarrow> bool" where
  "HyperedgeRemove_Validate p =
     (case p of None \<Rightarrow> False
      | Some h \<Rightarrow> length (HyperedgeRemove.Domain h) = 32 \<and> HyperedgeRemove.Value h \<noteq> [] \<and>
          HyperedgeRemove.Signature h \<noteq> [])"

section \<open>Properties\<close>



end
