(* ===== verification/Token_Messages.thy ===== *)
theory Token_Messages
  imports Prover_Messages
begin

text \<open>
  The token intrinsic's messages of \<^verbatim>\<open>src/protobufs/token.go\<close>: mint authorities, fee bases, mint
  strategies and token configurations with their deployment and update, and the ordinary, pending
  and mint transactions with their inputs, outputs and recipient bundles.
\<close>

section \<open>Token configuration\<close>

record Authority =
  KeyType :: u32
  PublicKey :: bytes
  CanBurn :: bool

definition Authority_ToCanonicalBytes :: "Authority \<Rightarrow> fault + bytes" where
  "Authority_ToCanonicalBytes a = writes
     [w_u32 AuthorityType, w_u32 (Authority.KeyType a), w_bytes (Authority.PublicKey a),
      w_bool (Authority.CanBurn a)]"

definition Authority_FromCanonicalBytes :: "bytes \<Rightarrow> Authority option" where
  "Authority_FromCanonicalBytes data =
     do {
       buf \<leftarrow> r_type AuthorityType data;
       (keyType, buf) \<leftarrow> be_u32 buf;
       (publicKey, buf) \<leftarrow> r_bytes buf;
       (canBurn, buf) \<leftarrow> r_bool buf;
       Some \<lparr>Authority.KeyType = keyType, Authority.PublicKey = publicKey,
             Authority.CanBurn = canBurn\<rparr>
     }"

interpretation authority: lossless_codec AuthorityType
  Authority_ToCanonicalBytes Authority_FromCanonicalBytes
  by (rule lossless_codecI
      [OF Authority_ToCanonicalBytes_def Authority_FromCanonicalBytes_def])
    (auto simp: codec_simps bind_eq_Some_conv)

record FeeBasis =
  Type :: u32
  Baseline :: bytes

definition FeeBasis_ToCanonicalBytes :: "FeeBasis \<Rightarrow> fault + bytes" where
  "FeeBasis_ToCanonicalBytes f = writes
     [w_u32 FeeBasisStructType, w_u32 (FeeBasis.Type f), w_bytes (FeeBasis.Baseline f)]"

definition FeeBasis_FromCanonicalBytes :: "bytes \<Rightarrow> FeeBasis option" where
  "FeeBasis_FromCanonicalBytes data =
     do {
       buf \<leftarrow> r_type FeeBasisStructType data;
       (kind, buf) \<leftarrow> be_u32 buf;
       (baseline, buf) \<leftarrow> r_bytes buf;
       Some \<lparr>FeeBasis.Type = kind, FeeBasis.Baseline = baseline\<rparr>
     }"

interpretation fee_basis: lossless_codec FeeBasisStructType
  FeeBasis_ToCanonicalBytes FeeBasis_FromCanonicalBytes
  by (rule lossless_codecI
      [OF FeeBasis_ToCanonicalBytes_def FeeBasis_FromCanonicalBytes_def])
    (auto simp: codec_simps bind_eq_Some_conv)

record TokenMintStrategy =
  MintBehavior :: u32
  ProofBasis :: u32
  VerkleRoot :: bytes
  Authority :: "Authority option"
  PaymentAddress :: bytes
  FeeBasis :: "FeeBasis option"

definition TokenMintStrategy_ToCanonicalBytes :: "TokenMintStrategy \<Rightarrow> fault + bytes" where
  "TokenMintStrategy_ToCanonicalBytes t = writes
     [w_u32 TokenMintStrategyType, w_u32 (TokenMintStrategy.MintBehavior t),
      w_u32 (TokenMintStrategy.ProofBasis t), w_bytes (TokenMintStrategy.VerkleRoot t),
      w_opt Authority_ToCanonicalBytes (TokenMintStrategy.Authority t),
      w_bytes (TokenMintStrategy.PaymentAddress t),
      w_opt FeeBasis_ToCanonicalBytes (TokenMintStrategy.FeeBasis t)]"

definition TokenMintStrategy_FromCanonicalBytes :: "bytes \<Rightarrow> TokenMintStrategy option" where
  "TokenMintStrategy_FromCanonicalBytes data =
     do {
       buf \<leftarrow> r_type TokenMintStrategyType data;
       (mintBehavior, buf) \<leftarrow> be_u32 buf;
       (proofBasis, buf) \<leftarrow> be_u32 buf;
       (verkleRoot, buf) \<leftarrow> r_bytes buf;
       (authority, buf) \<leftarrow> r_opt Authority_FromCanonicalBytes buf;
       (paymentAddress, buf) \<leftarrow> r_bytes buf;
       (feeBasis, buf) \<leftarrow> r_opt FeeBasis_FromCanonicalBytes buf;
       Some \<lparr>TokenMintStrategy.MintBehavior = mintBehavior,
             TokenMintStrategy.ProofBasis = proofBasis, TokenMintStrategy.VerkleRoot = verkleRoot,
             TokenMintStrategy.Authority = authority,
             TokenMintStrategy.PaymentAddress = paymentAddress,
             TokenMintStrategy.FeeBasis = feeBasis\<rparr>
     }"

interpretation token_mint_strategy: lossless_codec TokenMintStrategyType
  TokenMintStrategy_ToCanonicalBytes TokenMintStrategy_FromCanonicalBytes
  by (rule lossless_codecI
      [OF TokenMintStrategy_ToCanonicalBytes_def TokenMintStrategy_FromCanonicalBytes_def])
    (auto simp: codec_simps bind_eq_Some_conv)

record TokenConfiguration =
  Behavior :: u32
  MintStrategy :: "TokenMintStrategy option"
  Units :: bytes
  Supply :: bytes
  Name :: bytes
  Symbol :: bytes
  AdditionalReference :: "bytes list"
  OwnerPublicKey :: bytes

definition TokenConfiguration_ToCanonicalBytes :: "TokenConfiguration \<Rightarrow> fault + bytes" where
  "TokenConfiguration_ToCanonicalBytes t = writes
     [w_u32 TokenConfigurationType, w_u32 (TokenConfiguration.Behavior t),
      w_opt TokenMintStrategy_ToCanonicalBytes (TokenConfiguration.MintStrategy t),
      w_bytes (TokenConfiguration.Units t), w_bytes (TokenConfiguration.Supply t),
      w_bytes (TokenConfiguration.Name t), w_bytes (TokenConfiguration.Symbol t),
      w_list w_bytes (TokenConfiguration.AdditionalReference t),
      w_bytes (TokenConfiguration.OwnerPublicKey t)]"

definition TokenConfiguration_FromCanonicalBytes :: "bytes \<Rightarrow> TokenConfiguration option" where
  "TokenConfiguration_FromCanonicalBytes data =
     do {
       buf \<leftarrow> r_type TokenConfigurationType data;
       (behavior, buf) \<leftarrow> be_u32 buf;
       (mintStrategy, buf) \<leftarrow> r_opt TokenMintStrategy_FromCanonicalBytes buf;
       (units, buf) \<leftarrow> r_bytes buf;
       (supply, buf) \<leftarrow> r_bytes buf;
       (name, buf) \<leftarrow> r_bytes buf;
       (symbol, buf) \<leftarrow> r_bytes buf;
       (additionalReference, buf) \<leftarrow> r_list r_bytes buf;
       (ownerPublicKey, buf) \<leftarrow> r_bytes buf;
       Some \<lparr>TokenConfiguration.Behavior = behavior,
             TokenConfiguration.MintStrategy = mintStrategy, TokenConfiguration.Units = units,
             TokenConfiguration.Supply = supply, TokenConfiguration.Name = name,
             TokenConfiguration.Symbol = symbol,
             TokenConfiguration.AdditionalReference = additionalReference,
             TokenConfiguration.OwnerPublicKey = ownerPublicKey\<rparr>
     }"

interpretation token_configuration: lossless_codec TokenConfigurationType
  TokenConfiguration_ToCanonicalBytes TokenConfiguration_FromCanonicalBytes
  by (rule lossless_codecI
      [OF TokenConfiguration_ToCanonicalBytes_def TokenConfiguration_FromCanonicalBytes_def])
    (auto simp: codec_simps bind_eq_Some_conv)

record TokenDeploy =
  Config :: "TokenConfiguration option"
  RdfSchema :: bytes

definition TokenDeploy_ToCanonicalBytes :: "TokenDeploy \<Rightarrow> fault + bytes" where
  "TokenDeploy_ToCanonicalBytes t = writes
     [w_u32 TokenDeploymentType, w_opt TokenConfiguration_ToCanonicalBytes (TokenDeploy.Config t),
      w_bytes (TokenDeploy.RdfSchema t)]"

definition TokenDeploy_FromCanonicalBytes :: "bytes \<Rightarrow> TokenDeploy option" where
  "TokenDeploy_FromCanonicalBytes data =
     do {
       buf \<leftarrow> r_type TokenDeploymentType data;
       (config, buf) \<leftarrow> r_opt TokenConfiguration_FromCanonicalBytes buf;
       (rdfSchema, buf) \<leftarrow> r_bytes buf;
       Some \<lparr>TokenDeploy.Config = config, TokenDeploy.RdfSchema = rdfSchema\<rparr>
     }"

interpretation token_deploy: lossless_codec TokenDeploymentType
  TokenDeploy_ToCanonicalBytes TokenDeploy_FromCanonicalBytes
  by (rule lossless_codecI
      [OF TokenDeploy_ToCanonicalBytes_def TokenDeploy_FromCanonicalBytes_def])
    (auto simp: codec_simps bind_eq_Some_conv)

record TokenUpdate =
  Config :: "TokenConfiguration option"
  RdfSchema :: bytes
  PublicKeySignatureBls48581 :: "BLS48581AggregateSignature option"

definition TokenUpdate_ToCanonicalBytes :: "TokenUpdate \<Rightarrow> fault + bytes" where
  "TokenUpdate_ToCanonicalBytes t = writes
     [w_u32 TokenUpdateType, w_opt TokenConfiguration_ToCanonicalBytes (TokenUpdate.Config t),
      w_bytes (TokenUpdate.RdfSchema t),
      w_opt BLS48581AggregateSignature_ToCanonicalBytes (TokenUpdate.PublicKeySignatureBls48581 t)]"

definition TokenUpdate_FromCanonicalBytes :: "bytes \<Rightarrow> TokenUpdate option" where
  "TokenUpdate_FromCanonicalBytes data =
     do {
       buf \<leftarrow> r_type TokenUpdateType data;
       (config, buf) \<leftarrow> r_opt TokenConfiguration_FromCanonicalBytes buf;
       (rdfSchema, buf) \<leftarrow> r_bytes buf;
       (publicKeySignatureBls48581, buf) \<leftarrow>
         r_opt BLS48581AggregateSignature_FromCanonicalBytes buf;
       Some \<lparr>TokenUpdate.Config = config, TokenUpdate.RdfSchema = rdfSchema,
             TokenUpdate.PublicKeySignatureBls48581 = publicKeySignatureBls48581\<rparr>
     }"

interpretation token_update: lossless_codec TokenUpdateType
  TokenUpdate_ToCanonicalBytes TokenUpdate_FromCanonicalBytes
  by (rule lossless_codecI
      [OF TokenUpdate_ToCanonicalBytes_def TokenUpdate_FromCanonicalBytes_def])
    (auto simp: codec_simps bind_eq_Some_conv)

section \<open>Transactions\<close>

record RecipientBundle =
  OneTimeKey :: bytes
  VerificationKey :: bytes
  CoinBalance :: bytes
  Mask :: bytes
  AdditionalReference :: bytes
  AdditionalReferenceKey :: bytes

definition RecipientBundle_ToCanonicalBytes :: "RecipientBundle \<Rightarrow> fault + bytes" where
  "RecipientBundle_ToCanonicalBytes r = writes
     [w_u32 RecipientBundleType, w_bytes (RecipientBundle.OneTimeKey r),
      w_bytes (RecipientBundle.VerificationKey r), w_bytes (RecipientBundle.CoinBalance r),
      w_bytes (RecipientBundle.Mask r), w_bytes (RecipientBundle.AdditionalReference r),
      w_bytes (RecipientBundle.AdditionalReferenceKey r)]"

definition RecipientBundle_FromCanonicalBytes :: "bytes \<Rightarrow> RecipientBundle option" where
  "RecipientBundle_FromCanonicalBytes data =
     do {
       buf \<leftarrow> r_type RecipientBundleType data;
       (oneTimeKey, buf) \<leftarrow> r_bytes buf;
       (verificationKey, buf) \<leftarrow> r_bytes buf;
       (coinBalance, buf) \<leftarrow> r_bytes buf;
       (mask, buf) \<leftarrow> r_bytes buf;
       (additionalReference, buf) \<leftarrow> r_bytes buf;
       (additionalReferenceKey, buf) \<leftarrow> r_bytes buf;
       Some \<lparr>RecipientBundle.OneTimeKey = oneTimeKey,
             RecipientBundle.VerificationKey = verificationKey,
             RecipientBundle.CoinBalance = coinBalance, RecipientBundle.Mask = mask,
             RecipientBundle.AdditionalReference = additionalReference,
             RecipientBundle.AdditionalReferenceKey = additionalReferenceKey\<rparr>
     }"

interpretation recipient_bundle: lossless_codec RecipientBundleType
  RecipientBundle_ToCanonicalBytes RecipientBundle_FromCanonicalBytes
  by (rule lossless_codecI
      [OF RecipientBundle_ToCanonicalBytes_def RecipientBundle_FromCanonicalBytes_def])
    (auto simp: codec_simps bind_eq_Some_conv)

record TransactionInput =
  Commitment :: bytes
  Signature :: bytes
  Proofs :: "bytes list"

definition TransactionInput_ToCanonicalBytes :: "TransactionInput \<Rightarrow> fault + bytes" where
  "TransactionInput_ToCanonicalBytes t = writes
     [w_u32 TransactionInputType, w_bytes (TransactionInput.Commitment t),
      w_bytes (TransactionInput.Signature t), w_list w_bytes (TransactionInput.Proofs t)]"

definition TransactionInput_FromCanonicalBytes :: "bytes \<Rightarrow> TransactionInput option" where
  "TransactionInput_FromCanonicalBytes data =
     do {
       buf \<leftarrow> r_type TransactionInputType data;
       (commitment, buf) \<leftarrow> r_bytes buf;
       (sig, buf) \<leftarrow> r_bytes buf;
       (proofs, buf) \<leftarrow> r_list r_bytes buf;
       Some \<lparr>TransactionInput.Commitment = commitment, TransactionInput.Signature = sig,
             TransactionInput.Proofs = proofs\<rparr>
     }"

interpretation transaction_input: lossless_codec TransactionInputType
  TransactionInput_ToCanonicalBytes TransactionInput_FromCanonicalBytes
  by (rule lossless_codecI
      [OF TransactionInput_ToCanonicalBytes_def TransactionInput_FromCanonicalBytes_def])
    (auto simp: codec_simps bind_eq_Some_conv)

record TransactionOutput =
  FrameNumber :: bytes
  Commitment :: bytes
  RecipientOutput :: "RecipientBundle option"

definition TransactionOutput_ToCanonicalBytes :: "TransactionOutput \<Rightarrow> fault + bytes" where
  "TransactionOutput_ToCanonicalBytes t = writes
     [w_u32 TransactionOutputType, w_bytes (TransactionOutput.FrameNumber t),
      w_bytes (TransactionOutput.Commitment t),
      w_opt RecipientBundle_ToCanonicalBytes (TransactionOutput.RecipientOutput t)]"

definition TransactionOutput_FromCanonicalBytes :: "bytes \<Rightarrow> TransactionOutput option" where
  "TransactionOutput_FromCanonicalBytes data =
     do {
       buf \<leftarrow> r_type TransactionOutputType data;
       (frameNumber, buf) \<leftarrow> r_bytes buf;
       (commitment, buf) \<leftarrow> r_bytes buf;
       (recipientOutput, buf) \<leftarrow> r_opt RecipientBundle_FromCanonicalBytes buf;
       Some \<lparr>TransactionOutput.FrameNumber = frameNumber,
             TransactionOutput.Commitment = commitment,
             TransactionOutput.RecipientOutput = recipientOutput\<rparr>
     }"

interpretation transaction_output: lossless_codec TransactionOutputType
  TransactionOutput_ToCanonicalBytes TransactionOutput_FromCanonicalBytes
  by (rule lossless_codecI
      [OF TransactionOutput_ToCanonicalBytes_def TransactionOutput_FromCanonicalBytes_def])
    (auto simp: codec_simps bind_eq_Some_conv)

record Transaction =
  Domain :: bytes
  Inputs :: "TransactionInput option list"
  Outputs :: "TransactionOutput option list"
  Fees :: "bytes list"
  RangeProof :: bytes
  TraversalProof :: "TraversalProof option"

definition Transaction_ToCanonicalBytes :: "Transaction \<Rightarrow> fault + bytes" where
  "Transaction_ToCanonicalBytes t = writes
     [w_u32 TransactionType, w_bytes (Transaction.Domain t),
      w_list (w_sub TransactionInput_ToCanonicalBytes) (Transaction.Inputs t),
      w_list (w_sub TransactionOutput_ToCanonicalBytes) (Transaction.Outputs t),
      w_list w_bytes (Transaction.Fees t), w_bytes (Transaction.RangeProof t),
      w_opt TraversalProof_ToCanonicalBytes (Transaction.TraversalProof t)]"

definition Transaction_FromCanonicalBytes :: "bytes \<Rightarrow> Transaction option" where
  "Transaction_FromCanonicalBytes data =
     do {
       buf \<leftarrow> r_type TransactionType data;
       (domain, buf) \<leftarrow> r_bytes buf;
       (inputs, buf) \<leftarrow> r_list (r_sub TransactionInput_FromCanonicalBytes) buf;
       (outputs, buf) \<leftarrow> r_list (r_sub TransactionOutput_FromCanonicalBytes) buf;
       (fees, buf) \<leftarrow> r_list r_bytes buf;
       (rangeProof, buf) \<leftarrow> r_bytes buf;
       (traversalProof, buf) \<leftarrow> r_opt TraversalProof_FromCanonicalBytes buf;
       Some \<lparr>Transaction.Domain = domain, Transaction.Inputs = inputs,
             Transaction.Outputs = outputs, Transaction.Fees = fees,
             Transaction.RangeProof = rangeProof, Transaction.TraversalProof = traversalProof\<rparr>
     }"

interpretation transaction: lossless_codec TransactionType
  Transaction_ToCanonicalBytes Transaction_FromCanonicalBytes
  by (rule lossless_codecI
      [OF Transaction_ToCanonicalBytes_def Transaction_FromCanonicalBytes_def])
    (auto simp: codec_simps bind_eq_Some_conv)

record PendingTransactionInput =
  Commitment :: bytes
  Signature :: bytes
  Proofs :: "bytes list"

definition PendingTransactionInput_ToCanonicalBytes :: "PendingTransactionInput \<Rightarrow> fault + bytes" where
  "PendingTransactionInput_ToCanonicalBytes p = writes
     [w_u32 PendingTransactionInputType, w_bytes (PendingTransactionInput.Commitment p),
      w_bytes (PendingTransactionInput.Signature p),
      w_list w_bytes (PendingTransactionInput.Proofs p)]"

definition PendingTransactionInput_FromCanonicalBytes :: "bytes \<Rightarrow> PendingTransactionInput option" where
  "PendingTransactionInput_FromCanonicalBytes data =
     do {
       buf \<leftarrow> r_type PendingTransactionInputType data;
       (commitment, buf) \<leftarrow> r_bytes buf;
       (sig, buf) \<leftarrow> r_bytes buf;
       (proofs, buf) \<leftarrow> r_list r_bytes buf;
       Some \<lparr>PendingTransactionInput.Commitment = commitment,
             PendingTransactionInput.Signature = sig, PendingTransactionInput.Proofs = proofs\<rparr>
     }"

interpretation pending_transaction_input: lossless_codec PendingTransactionInputType
  PendingTransactionInput_ToCanonicalBytes PendingTransactionInput_FromCanonicalBytes
  by (rule lossless_codecI
      [OF PendingTransactionInput_ToCanonicalBytes_def PendingTransactionInput_FromCanonicalBytes_def])
    (auto simp: codec_simps bind_eq_Some_conv)

record PendingTransactionOutput =
  FrameNumber :: bytes
  Commitment :: bytes
  To :: "RecipientBundle option"
  Refund :: "RecipientBundle option"
  Expiration :: u64

definition PendingTransactionOutput_ToCanonicalBytes :: "PendingTransactionOutput \<Rightarrow> fault + bytes" where
  "PendingTransactionOutput_ToCanonicalBytes p = writes
     [w_u32 PendingTransactionOutputType, w_bytes (PendingTransactionOutput.FrameNumber p),
      w_bytes (PendingTransactionOutput.Commitment p),
      w_opt RecipientBundle_ToCanonicalBytes (PendingTransactionOutput.To p),
      w_opt RecipientBundle_ToCanonicalBytes (PendingTransactionOutput.Refund p),
      w_u64 (PendingTransactionOutput.Expiration p)]"

definition PendingTransactionOutput_FromCanonicalBytes :: "bytes \<Rightarrow> PendingTransactionOutput option" where
  "PendingTransactionOutput_FromCanonicalBytes data =
     do {
       buf \<leftarrow> r_type PendingTransactionOutputType data;
       (frameNumber, buf) \<leftarrow> r_bytes buf;
       (commitment, buf) \<leftarrow> r_bytes buf;
       (recipient, buf) \<leftarrow> r_opt RecipientBundle_FromCanonicalBytes buf;
       (refund, buf) \<leftarrow> r_opt RecipientBundle_FromCanonicalBytes buf;
       (expiration, buf) \<leftarrow> be_u64 buf;
       Some \<lparr>PendingTransactionOutput.FrameNumber = frameNumber,
             PendingTransactionOutput.Commitment = commitment,
             PendingTransactionOutput.To = recipient, PendingTransactionOutput.Refund = refund,
             PendingTransactionOutput.Expiration = expiration\<rparr>
     }"

interpretation pending_transaction_output: lossless_codec PendingTransactionOutputType
  PendingTransactionOutput_ToCanonicalBytes PendingTransactionOutput_FromCanonicalBytes
  by (rule lossless_codecI
      [OF PendingTransactionOutput_ToCanonicalBytes_def PendingTransactionOutput_FromCanonicalBytes_def])
    (auto simp: codec_simps bind_eq_Some_conv)

record PendingTransaction =
  Domain :: bytes
  Inputs :: "PendingTransactionInput option list"
  Outputs :: "PendingTransactionOutput option list"
  Fees :: "bytes list"
  RangeProof :: bytes
  TraversalProof :: "TraversalProof option"

definition PendingTransaction_ToCanonicalBytes :: "PendingTransaction \<Rightarrow> fault + bytes" where
  "PendingTransaction_ToCanonicalBytes p = writes
     [w_u32 PendingTransactionType, w_bytes (PendingTransaction.Domain p),
      w_list (w_sub PendingTransactionInput_ToCanonicalBytes) (PendingTransaction.Inputs p),
      w_list (w_sub PendingTransactionOutput_ToCanonicalBytes) (PendingTransaction.Outputs p),
      w_list w_bytes (PendingTransaction.Fees p), w_bytes (PendingTransaction.RangeProof p),
      w_opt TraversalProof_ToCanonicalBytes (PendingTransaction.TraversalProof p)]"

definition PendingTransaction_FromCanonicalBytes :: "bytes \<Rightarrow> PendingTransaction option" where
  "PendingTransaction_FromCanonicalBytes data =
     do {
       buf \<leftarrow> r_type PendingTransactionType data;
       (domain, buf) \<leftarrow> r_bytes buf;
       (inputs, buf) \<leftarrow> r_list (r_sub PendingTransactionInput_FromCanonicalBytes) buf;
       (outputs, buf) \<leftarrow> r_list (r_sub PendingTransactionOutput_FromCanonicalBytes) buf;
       (fees, buf) \<leftarrow> r_list r_bytes buf;
       (rangeProof, buf) \<leftarrow> r_bytes buf;
       (traversalProof, buf) \<leftarrow> r_opt TraversalProof_FromCanonicalBytes buf;
       Some \<lparr>PendingTransaction.Domain = domain, PendingTransaction.Inputs = inputs,
             PendingTransaction.Outputs = outputs, PendingTransaction.Fees = fees,
             PendingTransaction.RangeProof = rangeProof,
             PendingTransaction.TraversalProof = traversalProof\<rparr>
     }"

interpretation pending_transaction: lossless_codec PendingTransactionType
  PendingTransaction_ToCanonicalBytes PendingTransaction_FromCanonicalBytes
  by (rule lossless_codecI
      [OF PendingTransaction_ToCanonicalBytes_def PendingTransaction_FromCanonicalBytes_def])
    (auto simp: codec_simps bind_eq_Some_conv)

record MintTransactionInput =
  Value :: bytes
  Commitment :: bytes
  Signature :: bytes
  Proofs :: "bytes list"
  AdditionalReference :: bytes
  AdditionalReferenceKey :: bytes

definition MintTransactionInput_ToCanonicalBytes :: "MintTransactionInput \<Rightarrow> fault + bytes" where
  "MintTransactionInput_ToCanonicalBytes m = writes
     [w_u32 MintTransactionInputType, w_bytes (MintTransactionInput.Value m),
      w_bytes (MintTransactionInput.Commitment m), w_bytes (MintTransactionInput.Signature m),
      w_list w_bytes (MintTransactionInput.Proofs m),
      w_bytes (MintTransactionInput.AdditionalReference m),
      w_bytes (MintTransactionInput.AdditionalReferenceKey m)]"

definition MintTransactionInput_FromCanonicalBytes :: "bytes \<Rightarrow> MintTransactionInput option" where
  "MintTransactionInput_FromCanonicalBytes data =
     do {
       buf \<leftarrow> r_type MintTransactionInputType data;
       (val, buf) \<leftarrow> r_bytes buf;
       (commitment, buf) \<leftarrow> r_bytes buf;
       (sig, buf) \<leftarrow> r_bytes buf;
       (proofs, buf) \<leftarrow> r_list r_bytes buf;
       (additionalReference, buf) \<leftarrow> r_bytes buf;
       (additionalReferenceKey, buf) \<leftarrow> r_bytes buf;
       Some \<lparr>MintTransactionInput.Value = val, MintTransactionInput.Commitment = commitment,
             MintTransactionInput.Signature = sig, MintTransactionInput.Proofs = proofs,
             MintTransactionInput.AdditionalReference = additionalReference,
             MintTransactionInput.AdditionalReferenceKey = additionalReferenceKey\<rparr>
     }"

interpretation mint_transaction_input: lossless_codec MintTransactionInputType
  MintTransactionInput_ToCanonicalBytes MintTransactionInput_FromCanonicalBytes
  by (rule lossless_codecI
      [OF MintTransactionInput_ToCanonicalBytes_def MintTransactionInput_FromCanonicalBytes_def])
    (auto simp: codec_simps bind_eq_Some_conv)

record MintTransactionOutput =
  FrameNumber :: bytes
  Commitment :: bytes
  RecipientOutput :: "RecipientBundle option"

definition MintTransactionOutput_ToCanonicalBytes :: "MintTransactionOutput \<Rightarrow> fault + bytes" where
  "MintTransactionOutput_ToCanonicalBytes m = writes
     [w_u32 MintTransactionOutputType, w_bytes (MintTransactionOutput.FrameNumber m),
      w_bytes (MintTransactionOutput.Commitment m),
      w_opt RecipientBundle_ToCanonicalBytes (MintTransactionOutput.RecipientOutput m)]"

definition MintTransactionOutput_FromCanonicalBytes :: "bytes \<Rightarrow> MintTransactionOutput option" where
  "MintTransactionOutput_FromCanonicalBytes data =
     do {
       buf \<leftarrow> r_type MintTransactionOutputType data;
       (frameNumber, buf) \<leftarrow> r_bytes buf;
       (commitment, buf) \<leftarrow> r_bytes buf;
       (recipientOutput, buf) \<leftarrow> r_opt RecipientBundle_FromCanonicalBytes buf;
       Some \<lparr>MintTransactionOutput.FrameNumber = frameNumber,
             MintTransactionOutput.Commitment = commitment,
             MintTransactionOutput.RecipientOutput = recipientOutput\<rparr>
     }"

interpretation mint_transaction_output: lossless_codec MintTransactionOutputType
  MintTransactionOutput_ToCanonicalBytes MintTransactionOutput_FromCanonicalBytes
  by (rule lossless_codecI
      [OF MintTransactionOutput_ToCanonicalBytes_def MintTransactionOutput_FromCanonicalBytes_def])
    (auto simp: codec_simps bind_eq_Some_conv)

record MintTransaction =
  Domain :: bytes
  Inputs :: "MintTransactionInput option list"
  Outputs :: "MintTransactionOutput option list"
  Fees :: "bytes list"
  RangeProof :: bytes

definition MintTransaction_ToCanonicalBytes :: "MintTransaction \<Rightarrow> fault + bytes" where
  "MintTransaction_ToCanonicalBytes m = writes
     [w_u32 MintTransactionType, w_bytes (MintTransaction.Domain m),
      w_list (w_sub MintTransactionInput_ToCanonicalBytes) (MintTransaction.Inputs m),
      w_list (w_sub MintTransactionOutput_ToCanonicalBytes) (MintTransaction.Outputs m),
      w_list w_bytes (MintTransaction.Fees m), w_bytes (MintTransaction.RangeProof m)]"

definition MintTransaction_FromCanonicalBytes :: "bytes \<Rightarrow> MintTransaction option" where
  "MintTransaction_FromCanonicalBytes data =
     do {
       buf \<leftarrow> r_type MintTransactionType data;
       (domain, buf) \<leftarrow> r_bytes buf;
       (inputs, buf) \<leftarrow> r_list (r_sub MintTransactionInput_FromCanonicalBytes) buf;
       (outputs, buf) \<leftarrow> r_list (r_sub MintTransactionOutput_FromCanonicalBytes) buf;
       (fees, buf) \<leftarrow> r_list r_bytes buf;
       (rangeProof, buf) \<leftarrow> r_bytes buf;
       Some \<lparr>MintTransaction.Domain = domain, MintTransaction.Inputs = inputs,
             MintTransaction.Outputs = outputs, MintTransaction.Fees = fees,
             MintTransaction.RangeProof = rangeProof\<rparr>
     }"

interpretation mint_transaction: lossless_codec MintTransactionType
  MintTransaction_ToCanonicalBytes MintTransaction_FromCanonicalBytes
  by (rule lossless_codecI
      [OF MintTransaction_ToCanonicalBytes_def MintTransaction_FromCanonicalBytes_def])
    (auto simp: codec_simps bind_eq_Some_conv)

section \<open>Validation\<close>

text \<open>The enumerations of \<^verbatim>\<open>token.proto\<close> that validation distinguishes, by number.\<close>

definition FeeBasisType_NO_FEE_BASIS :: u32 where "FeeBasisType_NO_FEE_BASIS = 0"
definition FeeBasisType_PER_UNIT :: u32 where "FeeBasisType_PER_UNIT = 1"

definition TokenMintBehavior_NO_MINT_BEHAVIOR :: u32 where
  "TokenMintBehavior_NO_MINT_BEHAVIOR = 0"
definition TokenMintBehavior_MINT_WITH_PROOF :: u32 where
  "TokenMintBehavior_MINT_WITH_PROOF = 1"
definition TokenMintBehavior_MINT_WITH_AUTHORITY :: u32 where
  "TokenMintBehavior_MINT_WITH_AUTHORITY = 2"
definition TokenMintBehavior_MINT_WITH_SIGNATURE :: u32 where
  "TokenMintBehavior_MINT_WITH_SIGNATURE = 3"
definition TokenMintBehavior_MINT_WITH_PAYMENT :: u32 where
  "TokenMintBehavior_MINT_WITH_PAYMENT = 4"

definition ProofBasisType_NO_PROOF_BASIS :: u32 where
  "ProofBasisType_NO_PROOF_BASIS = 0"
definition ProofBasisType_PROOF_OF_MEANINGFUL_WORK :: u32 where
  "ProofBasisType_PROOF_OF_MEANINGFUL_WORK = 1"
definition ProofBasisType_VERKLE_MULTIPROOF_WITH_SIGNATURE :: u32 where
  "ProofBasisType_VERKLE_MULTIPROOF_WITH_SIGNATURE = 2"

definition TOKEN_BEHAVIOR_MINTABLE :: u32 where "TOKEN_BEHAVIOR_MINTABLE = 1"
definition TOKEN_BEHAVIOR_DIVISIBLE :: u32 where "TOKEN_BEHAVIOR_DIVISIBLE = 4"

definition Authority_Validate :: "Authority option \<Rightarrow> bool" where
  "Authority_Validate p =
     (case p of None \<Rightarrow> False
      | Some a \<Rightarrow> (if Authority.KeyType a = 0 then length (Authority.PublicKey a) = 57 else False))"

definition FeeBasis_Validate :: "FeeBasis option \<Rightarrow> bool" where
  "FeeBasis_Validate p =
     (case p of None \<Rightarrow> False
      | Some f \<Rightarrow> (if FeeBasis.Type f = FeeBasisType_NO_FEE_BASIS then True
           else if FeeBasis.Type f = FeeBasisType_PER_UNIT then FeeBasis.Baseline f \<noteq> []
           else False))"

definition TokenMintStrategy_Validate :: "TokenMintStrategy option \<Rightarrow> bool" where
  "TokenMintStrategy_Validate p =
     (case p of None \<Rightarrow> False
      | Some t \<Rightarrow> (let mb = TokenMintStrategy.MintBehavior t; pb = TokenMintStrategy.ProofBasis t in
             (if mb = TokenMintBehavior_NO_MINT_BEHAVIOR then True
              else if mb = TokenMintBehavior_MINT_WITH_PROOF then True
              else if mb = TokenMintBehavior_MINT_WITH_AUTHORITY
              then Authority_Validate (TokenMintStrategy.Authority t)
              else if mb = TokenMintBehavior_MINT_WITH_SIGNATURE
              then Authority_Validate (TokenMintStrategy.Authority t)
              else if mb = TokenMintBehavior_MINT_WITH_PAYMENT
              then TokenMintStrategy.PaymentAddress t \<noteq> [] \<and>
                   FeeBasis_Validate (TokenMintStrategy.FeeBasis t)
              else False) \<and>
             (if pb = ProofBasisType_NO_PROOF_BASIS then True
              else if pb = ProofBasisType_PROOF_OF_MEANINGFUL_WORK then True
              else if pb = ProofBasisType_VERKLE_MULTIPROOF_WITH_SIGNATURE
              then TokenMintStrategy.VerkleRoot t \<noteq> []
              else False)))"

definition TokenConfiguration_Validate :: "TokenConfiguration option \<Rightarrow> bool" where
  "TokenConfiguration_Validate p =
     (case p of None \<Rightarrow> False
      | Some t \<Rightarrow> (if TokenConfiguration.Behavior t AND TOKEN_BEHAVIOR_MINTABLE \<noteq> 0
           then TokenMintStrategy_Validate (TokenConfiguration.MintStrategy t)
           else TokenConfiguration.Supply t \<noteq> []) \<and>
          (TokenConfiguration.Behavior t AND TOKEN_BEHAVIOR_DIVISIBLE \<noteq> 0 \<longrightarrow>
           TokenConfiguration.Units t \<noteq> []) \<and>
          TokenConfiguration.Name t \<noteq> [] \<and> TokenConfiguration.Symbol t \<noteq> [] \<and>
          list_all (\<lambda>ref. length ref = 64) (TokenConfiguration.AdditionalReference t) \<and>
          (length (TokenConfiguration.OwnerPublicKey t) = 0 \<or>
           length (TokenConfiguration.OwnerPublicKey t) = 585))"

definition TokenDeploy_Validate :: "TokenDeploy option \<Rightarrow> bool" where
  "TokenDeploy_Validate p =
     (case p of None \<Rightarrow> False
      | Some t \<Rightarrow> TokenConfiguration_Validate (TokenDeploy.Config t))"

definition TokenUpdate_Validate :: "TokenUpdate option \<Rightarrow> bool" where
  "TokenUpdate_Validate p =
     (case p of None \<Rightarrow> False
      | Some t \<Rightarrow> TokenConfiguration_Validate (TokenUpdate.Config t) \<and>
          BLS48581AggregateSignature_Validate (TokenUpdate.PublicKeySignatureBls48581 t))"

definition RecipientBundle_Validate :: "RecipientBundle option \<Rightarrow> bool" where
  "RecipientBundle_Validate p =
     (case p of None \<Rightarrow> False
      | Some r \<Rightarrow> RecipientBundle.OneTimeKey r \<noteq> [] \<and> RecipientBundle.VerificationKey r \<noteq> [] \<and>
          RecipientBundle.CoinBalance r \<noteq> [] \<and> RecipientBundle.Mask r \<noteq> [])"

definition TransactionInput_Validate :: "TransactionInput option \<Rightarrow> bool" where
  "TransactionInput_Validate p =
     (case p of None \<Rightarrow> False
      | Some t \<Rightarrow> TransactionInput.Commitment t \<noteq> [] \<and> TransactionInput.Signature t \<noteq> [])"

definition TransactionOutput_Validate :: "TransactionOutput option \<Rightarrow> bool" where
  "TransactionOutput_Validate p =
     (case p of None \<Rightarrow> False
      | Some t \<Rightarrow> TransactionOutput.Commitment t \<noteq> [] \<and>
          (TransactionOutput.RecipientOutput t = None \<or>
           RecipientBundle_Validate (TransactionOutput.RecipientOutput t)))"

definition Transaction_Validate :: "Transaction option \<Rightarrow> bool" where
  "Transaction_Validate p =
     (case p of None \<Rightarrow> False
      | Some t \<Rightarrow> length (Transaction.Domain t) = 32 \<and> Transaction.Inputs t \<noteq> [] \<and>
          list_all TransactionInput_Validate (Transaction.Inputs t) \<and> Transaction.Outputs t \<noteq> [] \<and>
          list_all TransactionOutput_Validate (Transaction.Outputs t) \<and>
          length (Transaction.Fees t) = length (Transaction.Outputs t) \<and>
          Transaction.RangeProof t \<noteq> [])"

definition PendingTransactionInput_Validate :: "PendingTransactionInput option \<Rightarrow> bool" where
  "PendingTransactionInput_Validate p =
     (case p of None \<Rightarrow> False
      | Some t \<Rightarrow> PendingTransactionInput.Commitment t \<noteq> [] \<and> PendingTransactionInput.Signature t \<noteq> [])"

definition PendingTransactionOutput_Validate :: "PendingTransactionOutput option \<Rightarrow> bool" where
  "PendingTransactionOutput_Validate p =
     (case p of None \<Rightarrow> False
      | Some t \<Rightarrow> RecipientBundle_Validate (PendingTransactionOutput.To t) \<and>
          RecipientBundle_Validate (PendingTransactionOutput.Refund t))"

definition PendingTransaction_Validate :: "PendingTransaction option \<Rightarrow> bool" where
  "PendingTransaction_Validate p =
     (case p of None \<Rightarrow> False
      | Some t \<Rightarrow> length (PendingTransaction.Domain t) = 32 \<and> PendingTransaction.Inputs t \<noteq> [] \<and>
          list_all PendingTransactionInput_Validate (PendingTransaction.Inputs t) \<and> PendingTransaction.Outputs t \<noteq> [] \<and>
          list_all PendingTransactionOutput_Validate (PendingTransaction.Outputs t) \<and>
          length (PendingTransaction.Fees t) = length (PendingTransaction.Outputs t) \<and>
          PendingTransaction.RangeProof t \<noteq> [])"

definition MintTransactionInput_Validate :: "MintTransactionInput option \<Rightarrow> bool" where
  "MintTransactionInput_Validate p =
     (case p of None \<Rightarrow> False
      | Some m \<Rightarrow> MintTransactionInput.Value m \<noteq> [] \<and> MintTransactionInput.Commitment m \<noteq> [] \<and> MintTransactionInput.Signature m \<noteq> [])"

definition MintTransactionOutput_Validate :: "MintTransactionOutput option \<Rightarrow> bool" where
  "MintTransactionOutput_Validate p =
     (case p of None \<Rightarrow> False
      | Some m \<Rightarrow> MintTransactionOutput.Commitment m \<noteq> [] \<and>
          (MintTransactionOutput.RecipientOutput m = None \<or>
           RecipientBundle_Validate (MintTransactionOutput.RecipientOutput m)))"

definition MintTransaction_Validate :: "MintTransaction option \<Rightarrow> bool" where
  "MintTransaction_Validate p =
     (case p of None \<Rightarrow> False
      | Some m \<Rightarrow> length (MintTransaction.Domain m) = 32 \<and> MintTransaction.Inputs m \<noteq> [] \<and>
          list_all MintTransactionInput_Validate (MintTransaction.Inputs m) \<and> MintTransaction.Outputs m \<noteq> [] \<and>
          list_all MintTransactionOutput_Validate (MintTransaction.Outputs m) \<and>
          length (MintTransaction.Fees m) = length (MintTransaction.Outputs m) \<and>
          MintTransaction.RangeProof m \<noteq> [])"

end
