(* ===== verification/Compute_Messages.thy ===== *)
theory Compute_Messages
  imports Key_Messages
begin

text \<open>
  The compute intrinsic's messages of \<^verbatim>\<open>src/protobufs/compute.go\<close>: configuration, deployment and
  update, code deployments, executions and finalisations with their operations, results and state
  transitions, and the execution graph.
\<close>

section \<open>Configuration and code\<close>

record Application =
  Address :: bytes
  ExecutionContext :: u32

definition Application_ToCanonicalBytes :: "Application \<Rightarrow> fault + bytes" where
  "Application_ToCanonicalBytes a = writes
     [w_u32 ApplicationType, w_bytes (Application.Address a),
      w_u32 (Application.ExecutionContext a)]"

definition Application_FromCanonicalBytes :: "bytes \<Rightarrow> Application option" where
  "Application_FromCanonicalBytes data =
     do {
       buf \<leftarrow> r_type ApplicationType data;
       (address, buf) \<leftarrow> r_bytes buf;
       (executionContext, buf) \<leftarrow> be_u32 buf;
       Some \<lparr>Application.Address = address, Application.ExecutionContext = executionContext\<rparr>
     }"

interpretation application: lossless_codec ApplicationType
  Application_ToCanonicalBytes Application_FromCanonicalBytes
  by (rule lossless_codecI
      [OF Application_ToCanonicalBytes_def Application_FromCanonicalBytes_def])
    (auto simp: codec_simps bind_eq_Some_conv)

record IntrinsicExecutionInput =
  Address :: bytes
  Input :: bytes

definition IntrinsicExecutionInput_ToCanonicalBytes :: "IntrinsicExecutionInput \<Rightarrow> fault + bytes" where
  "IntrinsicExecutionInput_ToCanonicalBytes i = writes
     [w_u32 IntrinsicExecutionInputType, w_bytes (IntrinsicExecutionInput.Address i),
      w_bytes (IntrinsicExecutionInput.Input i)]"

definition IntrinsicExecutionInput_FromCanonicalBytes :: "bytes \<Rightarrow> IntrinsicExecutionInput option" where
  "IntrinsicExecutionInput_FromCanonicalBytes data =
     do {
       buf \<leftarrow> r_type IntrinsicExecutionInputType data;
       (address, buf) \<leftarrow> r_bytes buf;
       (inp, buf) \<leftarrow> r_bytes buf;
       Some \<lparr>IntrinsicExecutionInput.Address = address, IntrinsicExecutionInput.Input = inp\<rparr>
     }"

interpretation intrinsic_execution_input: lossless_codec IntrinsicExecutionInputType
  IntrinsicExecutionInput_ToCanonicalBytes IntrinsicExecutionInput_FromCanonicalBytes
  by (rule lossless_codecI
      [OF IntrinsicExecutionInput_ToCanonicalBytes_def IntrinsicExecutionInput_FromCanonicalBytes_def])
    (auto simp: codec_simps bind_eq_Some_conv)

record IntrinsicExecutionOutput =
  Address :: bytes
  Output :: bytes
  Proof :: bytes

definition IntrinsicExecutionOutput_ToCanonicalBytes :: "IntrinsicExecutionOutput \<Rightarrow> fault + bytes" where
  "IntrinsicExecutionOutput_ToCanonicalBytes i = writes
     [w_u32 IntrinsicExecutionOutputType, w_bytes (IntrinsicExecutionOutput.Address i),
      w_bytes (IntrinsicExecutionOutput.Output i), w_bytes (IntrinsicExecutionOutput.Proof i)]"

definition IntrinsicExecutionOutput_FromCanonicalBytes :: "bytes \<Rightarrow> IntrinsicExecutionOutput option" where
  "IntrinsicExecutionOutput_FromCanonicalBytes data =
     do {
       buf \<leftarrow> r_type IntrinsicExecutionOutputType data;
       (address, buf) \<leftarrow> r_bytes buf;
       (out, buf) \<leftarrow> r_bytes buf;
       (prf, buf) \<leftarrow> r_bytes buf;
       Some \<lparr>IntrinsicExecutionOutput.Address = address, IntrinsicExecutionOutput.Output = out,
             IntrinsicExecutionOutput.Proof = prf\<rparr>
     }"

interpretation intrinsic_execution_output: lossless_codec IntrinsicExecutionOutputType
  IntrinsicExecutionOutput_ToCanonicalBytes IntrinsicExecutionOutput_FromCanonicalBytes
  by (rule lossless_codecI
      [OF IntrinsicExecutionOutput_ToCanonicalBytes_def IntrinsicExecutionOutput_FromCanonicalBytes_def])
    (auto simp: codec_simps bind_eq_Some_conv)

record ComputeConfiguration =
  ReadPublicKey :: bytes
  WritePublicKey :: bytes
  OwnerPublicKey :: bytes

definition ComputeConfiguration_ToCanonicalBytes :: "ComputeConfiguration \<Rightarrow> fault + bytes" where
  "ComputeConfiguration_ToCanonicalBytes c = writes
     [w_u32 ComputeConfigurationType, w_bytes (ComputeConfiguration.ReadPublicKey c),
      w_bytes (ComputeConfiguration.WritePublicKey c),
      w_bytes (ComputeConfiguration.OwnerPublicKey c)]"

definition ComputeConfiguration_FromCanonicalBytes :: "bytes \<Rightarrow> ComputeConfiguration option" where
  "ComputeConfiguration_FromCanonicalBytes data =
     do {
       buf \<leftarrow> r_type ComputeConfigurationType data;
       (readPublicKey, buf) \<leftarrow> r_bytes buf;
       (writePublicKey, buf) \<leftarrow> r_bytes buf;
       (ownerPublicKey, buf) \<leftarrow> r_bytes buf;
       Some \<lparr>ComputeConfiguration.ReadPublicKey = readPublicKey,
             ComputeConfiguration.WritePublicKey = writePublicKey,
             ComputeConfiguration.OwnerPublicKey = ownerPublicKey\<rparr>
     }"

interpretation compute_configuration: lossless_codec ComputeConfigurationType
  ComputeConfiguration_ToCanonicalBytes ComputeConfiguration_FromCanonicalBytes
  by (rule lossless_codecI
      [OF ComputeConfiguration_ToCanonicalBytes_def ComputeConfiguration_FromCanonicalBytes_def])
    (auto simp: codec_simps bind_eq_Some_conv)

record ComputeDeploy =
  Config :: "ComputeConfiguration option"
  RdfSchema :: bytes

definition ComputeDeploy_ToCanonicalBytes :: "ComputeDeploy \<Rightarrow> fault + bytes" where
  "ComputeDeploy_ToCanonicalBytes c = writes
     [w_u32 ComputeDeploymentType,
      w_opt ComputeConfiguration_ToCanonicalBytes (ComputeDeploy.Config c),
      w_bytes (ComputeDeploy.RdfSchema c)]"

definition ComputeDeploy_FromCanonicalBytes :: "bytes \<Rightarrow> ComputeDeploy option" where
  "ComputeDeploy_FromCanonicalBytes data =
     do {
       buf \<leftarrow> r_type ComputeDeploymentType data;
       (config, buf) \<leftarrow> r_opt ComputeConfiguration_FromCanonicalBytes buf;
       (rdfSchema, buf) \<leftarrow> r_bytes buf;
       Some \<lparr>ComputeDeploy.Config = config, ComputeDeploy.RdfSchema = rdfSchema\<rparr>
     }"

interpretation compute_deploy: lossless_codec ComputeDeploymentType
  ComputeDeploy_ToCanonicalBytes ComputeDeploy_FromCanonicalBytes
  by (rule lossless_codecI
      [OF ComputeDeploy_ToCanonicalBytes_def ComputeDeploy_FromCanonicalBytes_def])
    (auto simp: codec_simps bind_eq_Some_conv)

record ComputeUpdate =
  Config :: "ComputeConfiguration option"
  RdfSchema :: bytes
  PublicKeySignatureBls48581 :: "BLS48581AggregateSignature option"

definition ComputeUpdate_ToCanonicalBytes :: "ComputeUpdate \<Rightarrow> fault + bytes" where
  "ComputeUpdate_ToCanonicalBytes c = writes
     [w_u32 ComputeUpdateType,
      w_opt ComputeConfiguration_ToCanonicalBytes (ComputeUpdate.Config c),
      w_bytes (ComputeUpdate.RdfSchema c),
      w_opt BLS48581AggregateSignature_ToCanonicalBytes
        (ComputeUpdate.PublicKeySignatureBls48581 c)]"

definition ComputeUpdate_FromCanonicalBytes :: "bytes \<Rightarrow> ComputeUpdate option" where
  "ComputeUpdate_FromCanonicalBytes data =
     do {
       buf \<leftarrow> r_type ComputeUpdateType data;
       (config, buf) \<leftarrow> r_opt ComputeConfiguration_FromCanonicalBytes buf;
       (rdfSchema, buf) \<leftarrow> r_bytes buf;
       (publicKeySignatureBls48581, buf) \<leftarrow>
         r_opt BLS48581AggregateSignature_FromCanonicalBytes buf;
       Some \<lparr>ComputeUpdate.Config = config, ComputeUpdate.RdfSchema = rdfSchema,
             ComputeUpdate.PublicKeySignatureBls48581 = publicKeySignatureBls48581\<rparr>
     }"

interpretation compute_update: lossless_codec ComputeUpdateType
  ComputeUpdate_ToCanonicalBytes ComputeUpdate_FromCanonicalBytes
  by (rule lossless_codecI
      [OF ComputeUpdate_ToCanonicalBytes_def ComputeUpdate_FromCanonicalBytes_def])
    (auto simp: codec_simps bind_eq_Some_conv)

record CodeDeployment =
  Circuit :: bytes
  InputTypes :: "bytes list"
  OutputTypes :: "bytes list"
  Domain :: bytes

definition CodeDeployment_ToCanonicalBytes :: "CodeDeployment \<Rightarrow> fault + bytes" where
  "CodeDeployment_ToCanonicalBytes d = writes
     [w_u32 CodeDeploymentType, w_bytes (CodeDeployment.Circuit d),
      w_list w_bytes (CodeDeployment.InputTypes d), w_list w_bytes (CodeDeployment.OutputTypes d),
      w_fixed 32 (CodeDeployment.Domain d)]"

definition CodeDeployment_FromCanonicalBytes :: "bytes \<Rightarrow> CodeDeployment option" where
  "CodeDeployment_FromCanonicalBytes data =
     do {
       buf \<leftarrow> r_type CodeDeploymentType data;
       (circuit, buf) \<leftarrow> r_bytes buf;
       (inputTypes, buf) \<leftarrow> r_list r_bytes buf;
       (outputTypes, buf) \<leftarrow> r_list r_bytes buf;
       (domain, buf) \<leftarrow> r_buf 32 buf;
       Some \<lparr>CodeDeployment.Circuit = circuit, CodeDeployment.InputTypes = inputTypes,
             CodeDeployment.OutputTypes = outputTypes, CodeDeployment.Domain = domain\<rparr>
     }"

interpretation code_deployment: lossless_codec CodeDeploymentType
  CodeDeployment_ToCanonicalBytes CodeDeployment_FromCanonicalBytes
  by (rule lossless_codecI
      [OF CodeDeployment_ToCanonicalBytes_def CodeDeployment_FromCanonicalBytes_def])
    (auto simp: codec_simps bind_eq_Some_conv)

section \<open>Execution\<close>

record ExecuteOperation =
  Application :: "Application option"
  Identifier :: bytes
  Dependencies :: "bytes list"

definition ExecuteOperation_ToCanonicalBytes :: "ExecuteOperation \<Rightarrow> fault + bytes" where
  "ExecuteOperation_ToCanonicalBytes e = writes
     [w_u32 ExecuteOperationType,
      w_sub Application_ToCanonicalBytes (ExecuteOperation.Application e),
      w_bytes (ExecuteOperation.Identifier e), w_list w_bytes (ExecuteOperation.Dependencies e)]"

definition ExecuteOperation_FromCanonicalBytes :: "bytes \<Rightarrow> ExecuteOperation option" where
  "ExecuteOperation_FromCanonicalBytes data =
     do {
       buf \<leftarrow> r_type ExecuteOperationType data;
       (application, buf) \<leftarrow> r_sub Application_FromCanonicalBytes buf;
       (ident, buf) \<leftarrow> r_bytes buf;
       (dependencies, buf) \<leftarrow> r_list r_bytes buf;
       Some \<lparr>ExecuteOperation.Application = application, ExecuteOperation.Identifier = ident,
             ExecuteOperation.Dependencies = dependencies\<rparr>
     }"

interpretation execute_operation: lossless_codec ExecuteOperationType
  ExecuteOperation_ToCanonicalBytes ExecuteOperation_FromCanonicalBytes
  by (rule lossless_codecI
      [OF ExecuteOperation_ToCanonicalBytes_def ExecuteOperation_FromCanonicalBytes_def])
    (auto simp: codec_simps bind_eq_Some_conv)

record CodeExecute =
  ProofOfPayment :: "bytes list"
  Domain :: bytes
  Rendezvous :: bytes
  ExecuteOperations :: "ExecuteOperation option list"

definition CodeExecute_ToCanonicalBytes :: "CodeExecute \<Rightarrow> fault + bytes" where
  "CodeExecute_ToCanonicalBytes c = writes
     [w_u32 CodeExecuteType, w_list w_bytes (CodeExecute.ProofOfPayment c),
      w_fixed 32 (CodeExecute.Domain c), w_fixed 32 (CodeExecute.Rendezvous c),
      w_list (w_sub ExecuteOperation_ToCanonicalBytes) (CodeExecute.ExecuteOperations c)]"

definition CodeExecute_FromCanonicalBytes :: "bytes \<Rightarrow> CodeExecute option" where
  "CodeExecute_FromCanonicalBytes data =
     do {
       buf \<leftarrow> r_type CodeExecuteType data;
       (proofOfPayment, buf) \<leftarrow> r_list r_bytes buf;
       (domain, buf) \<leftarrow> r_buf 32 buf;
       (rendezvous, buf) \<leftarrow> r_buf 32 buf;
       (executeOperations, buf) \<leftarrow> r_list (r_sub ExecuteOperation_FromCanonicalBytes) buf;
       Some \<lparr>CodeExecute.ProofOfPayment = proofOfPayment, CodeExecute.Domain = domain,
             CodeExecute.Rendezvous = rendezvous,
             CodeExecute.ExecuteOperations = executeOperations\<rparr>
     }"

interpretation code_execute: lossless_codec CodeExecuteType
  CodeExecute_ToCanonicalBytes CodeExecute_FromCanonicalBytes
  by (rule lossless_codecI
      [OF CodeExecute_ToCanonicalBytes_def CodeExecute_FromCanonicalBytes_def])
    (auto simp: codec_simps bind_eq_Some_conv)

record StateTransition =
  Domain :: bytes
  Address :: bytes
  OldValue :: bytes
  NewValue :: bytes
  Proof :: bytes

definition StateTransition_ToCanonicalBytes :: "StateTransition \<Rightarrow> fault + bytes" where
  "StateTransition_ToCanonicalBytes s = writes
     [w_u32 StateTransitionType, w_fixed 32 (StateTransition.Domain s),
      w_bytes (StateTransition.Address s), w_bytes (StateTransition.OldValue s),
      w_bytes (StateTransition.NewValue s), w_bytes (StateTransition.Proof s)]"

definition StateTransition_FromCanonicalBytes :: "bytes \<Rightarrow> StateTransition option" where
  "StateTransition_FromCanonicalBytes data =
     do {
       buf \<leftarrow> r_type StateTransitionType data;
       (domain, buf) \<leftarrow> r_buf 32 buf;
       (address, buf) \<leftarrow> r_bytes buf;
       (oldValue, buf) \<leftarrow> r_bytes buf;
       (newValue, buf) \<leftarrow> r_bytes buf;
       (prf, buf) \<leftarrow> r_bytes buf;
       Some \<lparr>StateTransition.Domain = domain, StateTransition.Address = address,
             StateTransition.OldValue = oldValue, StateTransition.NewValue = newValue,
             StateTransition.Proof = prf\<rparr>
     }"

interpretation state_transition: lossless_codec StateTransitionType
  StateTransition_ToCanonicalBytes StateTransition_FromCanonicalBytes
  by (rule lossless_codecI
      [OF StateTransition_ToCanonicalBytes_def StateTransition_FromCanonicalBytes_def])
    (auto simp: codec_simps bind_eq_Some_conv)

record ExecutionResult =
  OperationId :: bytes
  Success :: bool
  Output :: bytes
  Error :: bytes

definition ExecutionResult_ToCanonicalBytes :: "ExecutionResult \<Rightarrow> fault + bytes" where
  "ExecutionResult_ToCanonicalBytes e = writes
     [w_u32 ExecutionResultType, w_bytes (ExecutionResult.OperationId e),
      w_bool (ExecutionResult.Success e), w_bytes (ExecutionResult.Output e),
      w_bytes (ExecutionResult.Error e)]"

definition ExecutionResult_FromCanonicalBytes :: "bytes \<Rightarrow> ExecutionResult option" where
  "ExecutionResult_FromCanonicalBytes data =
     do {
       buf \<leftarrow> r_type ExecutionResultType data;
       (operationId, buf) \<leftarrow> r_bytes buf;
       (success, buf) \<leftarrow> r_bool buf;
       (out, buf) \<leftarrow> r_bytes buf;
       (errBytes, buf) \<leftarrow> r_bytes buf;
       Some \<lparr>ExecutionResult.OperationId = operationId, ExecutionResult.Success = success,
             ExecutionResult.Output = out, ExecutionResult.Error = errBytes\<rparr>
     }"

interpretation execution_result: lossless_codec ExecutionResultType
  ExecutionResult_ToCanonicalBytes ExecutionResult_FromCanonicalBytes
  by (rule lossless_codecI
      [OF ExecutionResult_ToCanonicalBytes_def ExecutionResult_FromCanonicalBytes_def])
    (auto simp: codec_simps bind_eq_Some_conv)

record CodeFinalize =
  Rendezvous :: bytes
  Results :: "ExecutionResult option list"
  StateChanges :: "StateTransition option list"
  ProofOfExecution :: bytes
  MessageOutput :: bytes

definition CodeFinalize_ToCanonicalBytes :: "CodeFinalize \<Rightarrow> fault + bytes" where
  "CodeFinalize_ToCanonicalBytes c = writes
     [w_u32 CodeFinalizeType, w_fixed 32 (CodeFinalize.Rendezvous c),
      w_list (w_sub ExecutionResult_ToCanonicalBytes) (CodeFinalize.Results c),
      w_list (w_sub StateTransition_ToCanonicalBytes) (CodeFinalize.StateChanges c),
      w_bytes (CodeFinalize.ProofOfExecution c), w_bytes (CodeFinalize.MessageOutput c)]"

definition CodeFinalize_FromCanonicalBytes :: "bytes \<Rightarrow> CodeFinalize option" where
  "CodeFinalize_FromCanonicalBytes data =
     do {
       buf \<leftarrow> r_type CodeFinalizeType data;
       (rendezvous, buf) \<leftarrow> r_buf 32 buf;
       (results, buf) \<leftarrow> r_list (r_sub ExecutionResult_FromCanonicalBytes) buf;
       (stateChanges, buf) \<leftarrow> r_list (r_sub StateTransition_FromCanonicalBytes) buf;
       (proofOfExecution, buf) \<leftarrow> r_bytes buf;
       (messageOutput, buf) \<leftarrow> r_bytes buf;
       Some \<lparr>CodeFinalize.Rendezvous = rendezvous, CodeFinalize.Results = results,
             CodeFinalize.StateChanges = stateChanges,
             CodeFinalize.ProofOfExecution = proofOfExecution,
             CodeFinalize.MessageOutput = messageOutput\<rparr>
     }"

interpretation code_finalize: lossless_codec CodeFinalizeType
  CodeFinalize_ToCanonicalBytes CodeFinalize_FromCanonicalBytes
  by (rule lossless_codecI
      [OF CodeFinalize_ToCanonicalBytes_def CodeFinalize_FromCanonicalBytes_def])
    (auto simp: codec_simps bind_eq_Some_conv)

record ExecutionDependency =
  Identifier :: bytes
  ReadSet :: "bytes list"
  WriteSet :: "bytes list"
  Stage :: u32

definition ExecutionDependency_ToCanonicalBytes :: "ExecutionDependency \<Rightarrow> fault + bytes" where
  "ExecutionDependency_ToCanonicalBytes e = writes
     [w_u32 ExecutionDependencyType, w_bytes (ExecutionDependency.Identifier e),
      w_list w_bytes (ExecutionDependency.ReadSet e),
      w_list w_bytes (ExecutionDependency.WriteSet e), w_u32 (ExecutionDependency.Stage e)]"

definition ExecutionDependency_FromCanonicalBytes :: "bytes \<Rightarrow> ExecutionDependency option" where
  "ExecutionDependency_FromCanonicalBytes data =
     do {
       buf \<leftarrow> r_type ExecutionDependencyType data;
       (ident, buf) \<leftarrow> r_bytes buf;
       (readSet, buf) \<leftarrow> r_list r_bytes buf;
       (writeSet, buf) \<leftarrow> r_list r_bytes buf;
       (stage, buf) \<leftarrow> be_u32 buf;
       Some \<lparr>ExecutionDependency.Identifier = ident, ExecutionDependency.ReadSet = readSet,
             ExecutionDependency.WriteSet = writeSet, ExecutionDependency.Stage = stage\<rparr>
     }"

interpretation execution_dependency: lossless_codec ExecutionDependencyType
  ExecutionDependency_ToCanonicalBytes ExecutionDependency_FromCanonicalBytes
  by (rule lossless_codecI
      [OF ExecutionDependency_ToCanonicalBytes_def ExecutionDependency_FromCanonicalBytes_def])
    (auto simp: codec_simps bind_eq_Some_conv)

record ExecutionNode =
  Operation :: "ExecuteOperation option"
  ReadSet :: "bytes list"
  WriteSet :: "bytes list"
  Stage :: u32
  Visited :: bool
  InProgress :: bool

definition ExecutionNode_ToCanonicalBytes :: "ExecutionNode \<Rightarrow> fault + bytes" where
  "ExecutionNode_ToCanonicalBytes e = writes
     [w_u32 ExecutionNodeType,
      w_opt ExecuteOperation_ToCanonicalBytes (ExecutionNode.Operation e),
      w_list w_bytes (ExecutionNode.ReadSet e), w_list w_bytes (ExecutionNode.WriteSet e),
      w_u32 (ExecutionNode.Stage e), w_bool (ExecutionNode.Visited e),
      w_bool (ExecutionNode.InProgress e)]"

definition ExecutionNode_FromCanonicalBytes :: "bytes \<Rightarrow> ExecutionNode option" where
  "ExecutionNode_FromCanonicalBytes data =
     do {
       buf \<leftarrow> r_type ExecutionNodeType data;
       (operation, buf) \<leftarrow> r_opt ExecuteOperation_FromCanonicalBytes buf;
       (readSet, buf) \<leftarrow> r_list r_bytes buf;
       (writeSet, buf) \<leftarrow> r_list r_bytes buf;
       (stage, buf) \<leftarrow> be_u32 buf;
       (visited, buf) \<leftarrow> r_bool buf;
       (inProgress, buf) \<leftarrow> r_bool buf;
       Some \<lparr>ExecutionNode.Operation = operation, ExecutionNode.ReadSet = readSet,
             ExecutionNode.WriteSet = writeSet, ExecutionNode.Stage = stage,
             ExecutionNode.Visited = visited, ExecutionNode.InProgress = inProgress\<rparr>
     }"

interpretation execution_node: lossless_codec ExecutionNodeType
  ExecutionNode_ToCanonicalBytes ExecutionNode_FromCanonicalBytes
  by (rule lossless_codecI
      [OF ExecutionNode_ToCanonicalBytes_def ExecutionNode_FromCanonicalBytes_def])
    (auto simp: codec_simps bind_eq_Some_conv)

record ExecutionStage =
  OperationIds :: "bytes list"

definition ExecutionStage_ToCanonicalBytes :: "ExecutionStage \<Rightarrow> fault + bytes" where
  "ExecutionStage_ToCanonicalBytes e = writes
     [w_u32 ExecutionStageType, w_list w_bytes (ExecutionStage.OperationIds e)]"

definition ExecutionStage_FromCanonicalBytes :: "bytes \<Rightarrow> ExecutionStage option" where
  "ExecutionStage_FromCanonicalBytes data =
     do {
       buf \<leftarrow> r_type ExecutionStageType data;
       (operationIds, buf) \<leftarrow> r_list r_bytes buf;
       Some \<lparr>ExecutionStage.OperationIds = operationIds\<rparr>
     }"

interpretation execution_stage: lossless_codec ExecutionStageType
  ExecutionStage_ToCanonicalBytes ExecutionStage_FromCanonicalBytes
  by (rule lossless_codecI
      [OF ExecutionStage_ToCanonicalBytes_def ExecutionStage_FromCanonicalBytes_def])
    (auto simp: codec_simps bind_eq_Some_conv)

text \<open>The execution graph keeps its nodes in a Go map; the order of iteration is an argument.\<close>

record ExecutionDAG =
  Operations :: "bytes \<rightharpoonup> ExecutionNode option"
  Stages :: "ExecutionStage option list"

definition ExecutionDAG_ToCanonicalBytes :: "bytes list \<Rightarrow> ExecutionDAG \<Rightarrow> fault + bytes" where
  "ExecutionDAG_ToCanonicalBytes order e = writes
     [w_u32 ExecutionDAGType,
      w_map ExecutionNode_ToCanonicalBytes order (ExecutionDAG.Operations e),
      w_list (w_sub ExecutionStage_ToCanonicalBytes) (ExecutionDAG.Stages e)]"

definition ExecutionDAG_FromCanonicalBytes :: "bytes \<Rightarrow> ExecutionDAG option" where
  "ExecutionDAG_FromCanonicalBytes data =
     do {
       buf \<leftarrow> r_type ExecutionDAGType data;
       (operations, buf) \<leftarrow> r_map ExecutionNode_FromCanonicalBytes buf;
       (stages, buf) \<leftarrow> r_list (r_sub ExecutionStage_FromCanonicalBytes) buf;
       Some \<lparr>ExecutionDAG.Operations = operations, ExecutionDAG.Stages = stages\<rparr>
     }"

section \<open>Validation\<close>

definition EXECUTION_CONTEXT_INTRINSIC :: u32 where "EXECUTION_CONTEXT_INTRINSIC = 0"
definition EXECUTION_CONTEXT_HYPERGRAPH :: u32 where "EXECUTION_CONTEXT_HYPERGRAPH = 1"
definition EXECUTION_CONTEXT_EXTRINSIC :: u32 where "EXECUTION_CONTEXT_EXTRINSIC = 2"

definition Application_Validate :: "Application option \<Rightarrow> bool" where
  "Application_Validate p =
     (case p of None \<Rightarrow> False
      | Some a \<Rightarrow> (length (Application.Address a) = 0 \<or> length (Application.Address a) = 32) \<and>
          Application.ExecutionContext a \<in>
            {EXECUTION_CONTEXT_INTRINSIC, EXECUTION_CONTEXT_HYPERGRAPH,
             EXECUTION_CONTEXT_EXTRINSIC})"

definition ComputeConfiguration_Validate :: "ComputeConfiguration option \<Rightarrow> bool" where
  "ComputeConfiguration_Validate p =
     (case p of None \<Rightarrow> False
      | Some c \<Rightarrow> length (ComputeConfiguration.ReadPublicKey c) = 57 \<and>
          (length (ComputeConfiguration.WritePublicKey c) = 0 \<or>
           length (ComputeConfiguration.WritePublicKey c) = 57) \<and>
          (length (ComputeConfiguration.OwnerPublicKey c) = 0 \<or>
           length (ComputeConfiguration.OwnerPublicKey c) = 585))"

definition ComputeDeploy_Validate :: "ComputeDeploy option \<Rightarrow> bool" where
  "ComputeDeploy_Validate p =
     (case p of None \<Rightarrow> False
      | Some c \<Rightarrow> ComputeConfiguration_Validate (ComputeDeploy.Config c))"

definition ComputeUpdate_Validate :: "ComputeUpdate option \<Rightarrow> bool" where
  "ComputeUpdate_Validate p =
     (case p of None \<Rightarrow> False
      | Some c \<Rightarrow> \<not> (ComputeUpdate.Config c = None \<and> length (ComputeUpdate.RdfSchema c) = 0) \<and>
          (ComputeUpdate.Config c = None \<or>
           ComputeConfiguration_Validate (ComputeUpdate.Config c)) \<and>
          BLS48581AggregateSignature_Validate (ComputeUpdate.PublicKeySignatureBls48581 c))"

definition CodeDeployment_Validate :: "CodeDeployment option \<Rightarrow> bool" where
  "CodeDeployment_Validate p =
     (case p of None \<Rightarrow> False
      | Some d \<Rightarrow> CodeDeployment.Circuit d \<noteq> [] \<and> length (CodeDeployment.InputTypes d) = 2 \<and>
          length (CodeDeployment.Domain d) = 32)"

definition ExecuteOperation_Validate :: "ExecuteOperation option \<Rightarrow> bool" where
  "ExecuteOperation_Validate p =
     (case p of None \<Rightarrow> False
      | Some e \<Rightarrow> Application_Validate (ExecuteOperation.Application e) \<and>
          ExecuteOperation.Identifier e \<noteq> [])"

definition CodeExecute_Validate :: "CodeExecute option \<Rightarrow> bool" where
  "CodeExecute_Validate p =
     (case p of None \<Rightarrow> False
      | Some c \<Rightarrow> length (CodeExecute.ProofOfPayment c) = 2 \<and> length (CodeExecute.Domain c) = 32 \<and>
          length (CodeExecute.Rendezvous c) = 32 \<and> CodeExecute.ExecuteOperations c \<noteq> [])"

definition StateTransition_Validate :: "StateTransition option \<Rightarrow> bool" where
  "StateTransition_Validate p =
     (case p of None \<Rightarrow> False
      | Some s \<Rightarrow> length (StateTransition.Domain s) = 32 \<and> StateTransition.Address s \<noteq> [])"

definition ExecutionResult_Validate :: "ExecutionResult option \<Rightarrow> bool" where
  "ExecutionResult_Validate p =
     (case p of None \<Rightarrow> False
      | Some e \<Rightarrow> ExecutionResult.OperationId e \<noteq> [])"

definition CodeFinalize_Validate :: "CodeFinalize option \<Rightarrow> bool" where
  "CodeFinalize_Validate p =
     (case p of None \<Rightarrow> False
      | Some c \<Rightarrow> length (CodeFinalize.Rendezvous c) = 32)"

definition ExecutionDependency_Validate :: "ExecutionDependency option \<Rightarrow> bool" where
  "ExecutionDependency_Validate p =
     (case p of None \<Rightarrow> False
      | Some e \<Rightarrow> ExecutionDependency.Identifier e \<noteq> [])"

definition ExecutionNode_Validate :: "ExecutionNode option \<Rightarrow> bool" where
  "ExecutionNode_Validate p =
     (case p of None \<Rightarrow> False
      | Some e \<Rightarrow> ExecuteOperation_Validate (ExecutionNode.Operation e))"

definition ExecutionStage_Validate :: "ExecutionStage option \<Rightarrow> bool" where
  "ExecutionStage_Validate p = (p \<noteq> None)"

definition ExecutionDAG_Validate :: "ExecutionDAG option \<Rightarrow> bool" where
  "ExecutionDAG_Validate p =
     (case p of None \<Rightarrow> False
      | Some e \<Rightarrow> (\<forall>node \<in> ran (ExecutionDAG.Operations e). ExecutionNode_Validate node) \<and>
          list_all ExecutionStage_Validate (ExecutionDAG.Stages e))"

end
