(* ===== verification/Frame_Messages.thy ===== *)
theory Frame_Messages
  imports Prover_Messages Token_Messages Hypergraph_Messages Compute_Messages
begin

text \<open>
  Requests, bundles and frames of \<^verbatim>\<open>src/protobufs/global.go\<close>: the \<^verbatim>\<open>MessageRequest\<close> that wraps
  any of the 24 kinds of request, bundles of requests, frame headers, votes and confirmations, and
  the global and application shard frames.
\<close>

section \<open>Message requests\<close>

datatype MessageRequest_Request =
    MessageRequest_Join "ProverJoin option"
  | MessageRequest_Leave "ProverLeave option"
  | MessageRequest_Pause "ProverPause option"
  | MessageRequest_Resume "ProverResume option"
  | MessageRequest_Confirm "ProverConfirm option"
  | MessageRequest_Reject "ProverReject option"
  | MessageRequest_Kick "ProverKick option"
  | MessageRequest_Update "ProverUpdate option"
  | MessageRequest_TokenDeploy "TokenDeploy option"
  | MessageRequest_TokenUpdate "TokenUpdate option"
  | MessageRequest_Transaction "Transaction option"
  | MessageRequest_PendingTransaction "PendingTransaction option"
  | MessageRequest_MintTransaction "MintTransaction option"
  | MessageRequest_HypergraphDeploy "HypergraphDeploy option"
  | MessageRequest_HypergraphUpdate "HypergraphUpdate option"
  | MessageRequest_VertexAdd "VertexAdd option"
  | MessageRequest_VertexRemove "VertexRemove option"
  | MessageRequest_HyperedgeAdd "HyperedgeAdd option"
  | MessageRequest_HyperedgeRemove "HyperedgeRemove option"
  | MessageRequest_ComputeDeploy "ComputeDeploy option"
  | MessageRequest_ComputeUpdate "ComputeUpdate option"
  | MessageRequest_CodeDeploy "CodeDeployment option"
  | MessageRequest_CodeExecute "CodeExecute option"
  | MessageRequest_CodeFinalize "CodeFinalize option"

record MessageRequest =
  Request :: "MessageRequest_Request option"
  Timestamp :: i64

definition request_bytes :: "MessageRequest_Request option \<Rightarrow> fault + bytes" where
  "request_bytes request =
     (case request of None \<Rightarrow> Inl Err
      | Some (MessageRequest_Join p) \<Rightarrow> via ProverJoin_ToCanonicalBytes p
      | Some (MessageRequest_Leave p) \<Rightarrow> via ProverLeave_ToCanonicalBytes p
      | Some (MessageRequest_Pause p) \<Rightarrow> via ProverPause_ToCanonicalBytes p
      | Some (MessageRequest_Resume p) \<Rightarrow> via ProverResume_ToCanonicalBytes p
      | Some (MessageRequest_Confirm p) \<Rightarrow> via ProverConfirm_ToCanonicalBytes p
      | Some (MessageRequest_Reject p) \<Rightarrow> via ProverReject_ToCanonicalBytes p
      | Some (MessageRequest_Kick p) \<Rightarrow> via ProverKick_ToCanonicalBytes p
      | Some (MessageRequest_Update p) \<Rightarrow> via ProverUpdate_ToCanonicalBytes p
      | Some (MessageRequest_TokenDeploy p) \<Rightarrow> via TokenDeploy_ToCanonicalBytes p
      | Some (MessageRequest_TokenUpdate p) \<Rightarrow> via TokenUpdate_ToCanonicalBytes p
      | Some (MessageRequest_Transaction p) \<Rightarrow> via Transaction_ToCanonicalBytes p
      | Some (MessageRequest_PendingTransaction p) \<Rightarrow> via PendingTransaction_ToCanonicalBytes p
      | Some (MessageRequest_MintTransaction p) \<Rightarrow> via MintTransaction_ToCanonicalBytes p
      | Some (MessageRequest_HypergraphDeploy p) \<Rightarrow> via HypergraphDeploy_ToCanonicalBytes p
      | Some (MessageRequest_HypergraphUpdate p) \<Rightarrow> via HypergraphUpdate_ToCanonicalBytes p
      | Some (MessageRequest_VertexAdd p) \<Rightarrow> via VertexAdd_ToCanonicalBytes p
      | Some (MessageRequest_VertexRemove p) \<Rightarrow> via VertexRemove_ToCanonicalBytes p
      | Some (MessageRequest_HyperedgeAdd p) \<Rightarrow> via HyperedgeAdd_ToCanonicalBytes p
      | Some (MessageRequest_HyperedgeRemove p) \<Rightarrow> via HyperedgeRemove_ToCanonicalBytes p
      | Some (MessageRequest_ComputeDeploy p) \<Rightarrow> via ComputeDeploy_ToCanonicalBytes p
      | Some (MessageRequest_ComputeUpdate p) \<Rightarrow> via ComputeUpdate_ToCanonicalBytes p
      | Some (MessageRequest_CodeDeploy p) \<Rightarrow> via CodeDeployment_ToCanonicalBytes p
      | Some (MessageRequest_CodeExecute p) \<Rightarrow> via CodeExecute_ToCanonicalBytes p
      | Some (MessageRequest_CodeFinalize p) \<Rightarrow> via CodeFinalize_ToCanonicalBytes p)"

definition w_request :: "MessageRequest_Request option \<Rightarrow> fault + bytes" where
  "w_request request =
     (case request_bytes request of Inl e \<Rightarrow> Inl e | Inr innerBytes \<Rightarrow> w_bytes innerBytes)"

text \<open>\<^verbatim>\<open>MessageRequest.Timestamp\<close> is not written.\<close>

definition MessageRequest_ToCanonicalBytes :: "MessageRequest \<Rightarrow> fault + bytes" where
  "MessageRequest_ToCanonicalBytes m = writes
     [w_u32 MessageRequestType, w_request (MessageRequest.Request m)]"

definition request_of :: "u32 \<Rightarrow> bytes \<Rightarrow> MessageRequest_Request option" where
  "request_of innerType dataBytes =
     (if innerType = ProverJoinType
      then map_option (MessageRequest_Join \<circ> Some) (ProverJoin_FromCanonicalBytes dataBytes)
      else if innerType = ProverLeaveType
      then map_option (MessageRequest_Leave \<circ> Some) (ProverLeave_FromCanonicalBytes dataBytes)
      else if innerType = ProverPauseType
      then map_option (MessageRequest_Pause \<circ> Some) (ProverPause_FromCanonicalBytes dataBytes)
      else if innerType = ProverResumeType
      then map_option (MessageRequest_Resume \<circ> Some) (ProverResume_FromCanonicalBytes dataBytes)
      else if innerType = ProverConfirmType
      then map_option (MessageRequest_Confirm \<circ> Some) (ProverConfirm_FromCanonicalBytes dataBytes)
      else if innerType = ProverRejectType
      then map_option (MessageRequest_Reject \<circ> Some) (ProverReject_FromCanonicalBytes dataBytes)
      else if innerType = ProverKickType
      then map_option (MessageRequest_Kick \<circ> Some) (ProverKick_FromCanonicalBytes dataBytes)
      else if innerType = ProverUpdateType
      then map_option (MessageRequest_Update \<circ> Some) (ProverUpdate_FromCanonicalBytes dataBytes)
      else if innerType = TokenDeploymentType
      then map_option (MessageRequest_TokenDeploy \<circ> Some) (TokenDeploy_FromCanonicalBytes dataBytes)
      else if innerType = TokenUpdateType
      then map_option (MessageRequest_TokenUpdate \<circ> Some) (TokenUpdate_FromCanonicalBytes dataBytes)
      else if innerType = TransactionType
      then map_option (MessageRequest_Transaction \<circ> Some) (Transaction_FromCanonicalBytes dataBytes)
      else if innerType = PendingTransactionType
      then map_option (MessageRequest_PendingTransaction \<circ> Some) (PendingTransaction_FromCanonicalBytes dataBytes)
      else if innerType = MintTransactionType
      then map_option (MessageRequest_MintTransaction \<circ> Some) (MintTransaction_FromCanonicalBytes dataBytes)
      else if innerType = HypergraphDeploymentType
      then map_option (MessageRequest_HypergraphDeploy \<circ> Some) (HypergraphDeploy_FromCanonicalBytes dataBytes)
      else if innerType = HypergraphUpdateType
      then map_option (MessageRequest_HypergraphUpdate \<circ> Some) (HypergraphUpdate_FromCanonicalBytes dataBytes)
      else if innerType = VertexAddType
      then map_option (MessageRequest_VertexAdd \<circ> Some) (VertexAdd_FromCanonicalBytes dataBytes)
      else if innerType = VertexRemoveType
      then map_option (MessageRequest_VertexRemove \<circ> Some) (VertexRemove_FromCanonicalBytes dataBytes)
      else if innerType = HyperedgeAddType
      then map_option (MessageRequest_HyperedgeAdd \<circ> Some) (HyperedgeAdd_FromCanonicalBytes dataBytes)
      else if innerType = HyperedgeRemoveType
      then map_option (MessageRequest_HyperedgeRemove \<circ> Some) (HyperedgeRemove_FromCanonicalBytes dataBytes)
      else if innerType = ComputeDeploymentType
      then map_option (MessageRequest_ComputeDeploy \<circ> Some) (ComputeDeploy_FromCanonicalBytes dataBytes)
      else if innerType = ComputeUpdateType
      then map_option (MessageRequest_ComputeUpdate \<circ> Some) (ComputeUpdate_FromCanonicalBytes dataBytes)
      else if innerType = CodeDeploymentType
      then map_option (MessageRequest_CodeDeploy \<circ> Some) (CodeDeployment_FromCanonicalBytes dataBytes)
      else if innerType = CodeExecuteType
      then map_option (MessageRequest_CodeExecute \<circ> Some) (CodeExecute_FromCanonicalBytes dataBytes)
      else if innerType = CodeFinalizeType
      then map_option (MessageRequest_CodeFinalize \<circ> Some) (CodeFinalize_FromCanonicalBytes dataBytes)
      else None)"

definition MessageRequest_FromCanonicalBytes :: "bytes \<Rightarrow> MessageRequest option" where
  "MessageRequest_FromCanonicalBytes data =
     do {
       buf \<leftarrow> r_type MessageRequestType data;
       (dataLen, buf) \<leftarrow> be_u32 buf;
       if dataLen = 0 then None
       else do {
         (dataBytes, buf) \<leftarrow> r_buf (unat dataLen) buf;
         if length dataBytes < 4 then None
         else do {
           (innerType, _) \<leftarrow> be_u32 (take 4 dataBytes);
           request \<leftarrow> request_of innerType dataBytes;
           Some \<lparr>MessageRequest.Request = Some request, MessageRequest.Timestamp = 0\<rparr>
         }
       }
     }"

lemma request_of_kinds:
  "request_of ProverJoinType b =
     map_option (MessageRequest_Join \<circ> Some) (ProverJoin_FromCanonicalBytes b)"
  "request_of ProverLeaveType b =
     map_option (MessageRequest_Leave \<circ> Some) (ProverLeave_FromCanonicalBytes b)"
  "request_of ProverPauseType b =
     map_option (MessageRequest_Pause \<circ> Some) (ProverPause_FromCanonicalBytes b)"
  "request_of ProverResumeType b =
     map_option (MessageRequest_Resume \<circ> Some) (ProverResume_FromCanonicalBytes b)"
  "request_of ProverConfirmType b =
     map_option (MessageRequest_Confirm \<circ> Some) (ProverConfirm_FromCanonicalBytes b)"
  "request_of ProverRejectType b =
     map_option (MessageRequest_Reject \<circ> Some) (ProverReject_FromCanonicalBytes b)"
  "request_of ProverKickType b =
     map_option (MessageRequest_Kick \<circ> Some) (ProverKick_FromCanonicalBytes b)"
  "request_of ProverUpdateType b =
     map_option (MessageRequest_Update \<circ> Some) (ProverUpdate_FromCanonicalBytes b)"
  "request_of TokenDeploymentType b =
     map_option (MessageRequest_TokenDeploy \<circ> Some) (TokenDeploy_FromCanonicalBytes b)"
  "request_of TokenUpdateType b =
     map_option (MessageRequest_TokenUpdate \<circ> Some) (TokenUpdate_FromCanonicalBytes b)"
  "request_of TransactionType b =
     map_option (MessageRequest_Transaction \<circ> Some) (Transaction_FromCanonicalBytes b)"
  "request_of PendingTransactionType b =
     map_option (MessageRequest_PendingTransaction \<circ> Some) (PendingTransaction_FromCanonicalBytes b)"
  "request_of MintTransactionType b =
     map_option (MessageRequest_MintTransaction \<circ> Some) (MintTransaction_FromCanonicalBytes b)"
  "request_of HypergraphDeploymentType b =
     map_option (MessageRequest_HypergraphDeploy \<circ> Some) (HypergraphDeploy_FromCanonicalBytes b)"
  "request_of HypergraphUpdateType b =
     map_option (MessageRequest_HypergraphUpdate \<circ> Some) (HypergraphUpdate_FromCanonicalBytes b)"
  "request_of VertexAddType b =
     map_option (MessageRequest_VertexAdd \<circ> Some) (VertexAdd_FromCanonicalBytes b)"
  "request_of VertexRemoveType b =
     map_option (MessageRequest_VertexRemove \<circ> Some) (VertexRemove_FromCanonicalBytes b)"
  "request_of HyperedgeAddType b =
     map_option (MessageRequest_HyperedgeAdd \<circ> Some) (HyperedgeAdd_FromCanonicalBytes b)"
  "request_of HyperedgeRemoveType b =
     map_option (MessageRequest_HyperedgeRemove \<circ> Some) (HyperedgeRemove_FromCanonicalBytes b)"
  "request_of ComputeDeploymentType b =
     map_option (MessageRequest_ComputeDeploy \<circ> Some) (ComputeDeploy_FromCanonicalBytes b)"
  "request_of ComputeUpdateType b =
     map_option (MessageRequest_ComputeUpdate \<circ> Some) (ComputeUpdate_FromCanonicalBytes b)"
  "request_of CodeDeploymentType b =
     map_option (MessageRequest_CodeDeploy \<circ> Some) (CodeDeployment_FromCanonicalBytes b)"
  "request_of CodeExecuteType b =
     map_option (MessageRequest_CodeExecute \<circ> Some) (CodeExecute_FromCanonicalBytes b)"
  "request_of CodeFinalizeType b =
     map_option (MessageRequest_CodeFinalize \<circ> Some) (CodeFinalize_FromCanonicalBytes b)"
  by (simp_all add: request_of_def canonical_type_defs)

lemmas request_dispatch =
  prover_join.via_dispatch [where f = request_of, OF _ _ request_of_kinds(1)]
  prover_leave.via_dispatch [where f = request_of, OF _ _ request_of_kinds(2)]
  prover_pause.via_dispatch [where f = request_of, OF _ _ request_of_kinds(3)]
  prover_resume.via_dispatch [where f = request_of, OF _ _ request_of_kinds(4)]
  prover_confirm.via_dispatch [where f = request_of, OF _ _ request_of_kinds(5)]
  prover_reject.via_dispatch [where f = request_of, OF _ _ request_of_kinds(6)]
  prover_kick.via_dispatch [where f = request_of, OF _ _ request_of_kinds(7)]
  prover_update.via_dispatch [where f = request_of, OF _ _ request_of_kinds(8)]
  token_deploy.via_dispatch [where f = request_of, OF _ _ request_of_kinds(9)]
  token_update.via_dispatch [where f = request_of, OF _ _ request_of_kinds(10)]
  transaction.via_dispatch [where f = request_of, OF _ _ request_of_kinds(11)]
  pending_transaction.via_dispatch [where f = request_of, OF _ _ request_of_kinds(12)]
  mint_transaction.via_dispatch [where f = request_of, OF _ _ request_of_kinds(13)]
  hypergraph_deploy.via_dispatch [where f = request_of, OF _ _ request_of_kinds(14)]
  hypergraph_update.via_dispatch [where f = request_of, OF _ _ request_of_kinds(15)]
  vertex_add.via_dispatch [where f = request_of, OF _ _ request_of_kinds(16)]
  vertex_remove.via_dispatch [where f = request_of, OF _ _ request_of_kinds(17)]
  hyperedge_add.via_dispatch [where f = request_of, OF _ _ request_of_kinds(18)]
  hyperedge_remove.via_dispatch [where f = request_of, OF _ _ request_of_kinds(19)]
  compute_deploy.via_dispatch [where f = request_of, OF _ _ request_of_kinds(20)]
  compute_update.via_dispatch [where f = request_of, OF _ _ request_of_kinds(21)]
  code_deployment.via_dispatch [where f = request_of, OF _ _ request_of_kinds(22)]
  code_execute.via_dispatch [where f = request_of, OF _ _ request_of_kinds(23)]
  code_finalize.via_dispatch [where f = request_of, OF _ _ request_of_kinds(24)]

lemma request_of_bytes:
  assumes "request_bytes request = Inr b" and "fits b"
  shows "\<exists>t r body. request = Some r \<and> b = u32_be t @ body \<and> request_of t b = Some r"
proof (cases request)
  case None
  with assms show ?thesis by (simp add: request_bytes_def)
next
  case (Some r)
  with assms show ?thesis
    by (cases r) (simp_all add: request_bytes_def, (drule (1) request_dispatch, blast)+)
qed

lemma request_of_reencodes:
  "request_of t b = Some r \<Longrightarrow> \<not> isl (request_bytes (Some r))"
  by (auto simp: request_of_def request_bytes_def codec_simps split: if_splits)

interpretation message_request: codec MessageRequestType
  MessageRequest_ToCanonicalBytes MessageRequest_FromCanonicalBytes
  "\<lambda>m. m\<lparr>MessageRequest.Timestamp := 0\<rparr>"
proof
  fix m :: MessageRequest and bs rest
  assume m: "MessageRequest_ToCanonicalBytes m = Inr bs" and "fits bs"
  then obtain b where b: "request_bytes (MessageRequest.Request m) = Inr b"
      "bs = u32_be MessageRequestType @ u32_be (of_nat (length b)) @ b"
    by (auto simp: MessageRequest_ToCanonicalBytes_def w_request_def codec_simps split: sum.splits)
  with \<open>fits bs\<close> have "fits b" by simp
  from request_of_bytes [OF b(1) this] obtain t r body where
    r: "MessageRequest.Request m = Some r" "b = u32_be t @ body" "request_of t b = Some r" by blast
  have "unat (of_nat (length b) :: u32) = length b" using \<open>fits b\<close> by simp
  moreover from this have "(of_nat (length b) :: u32) \<noteq> 0" using r(2) by (auto simp: unat_eq_zero)
  moreover have "be_u32 (take 4 b) = Some (t, [])" "4 \<le> length b" using r(2) by simp_all
  moreover have "r_buf (length b) (b @ rest) = Some (b, rest)" by (simp add: codec_simps)
  ultimately show "MessageRequest_FromCanonicalBytes (bs @ rest) =
      Some (m\<lparr>MessageRequest.Timestamp := 0\<rparr>)"
    using r(1, 3) b(2) by (simp add: MessageRequest_FromCanonicalBytes_def r_written)
qed (auto simp: MessageRequest_ToCanonicalBytes_def MessageRequest_FromCanonicalBytes_def w_request_def
    codec_simps bind_eq_Some_conv w_bytes_def split: if_splits sum.splits
    dest: r_type_SomeD request_of_reencodes)

definition MessageRequest_Validate :: "MessageRequest option \<Rightarrow> bool" where
  "MessageRequest_Validate p =
     (case p of None \<Rightarrow> False
      | Some m \<Rightarrow>
          (case MessageRequest.Request m of
             Some (MessageRequest_Join (Some r)) \<Rightarrow> ProverJoin_Validate (Some r)
           | Some (MessageRequest_Leave (Some r)) \<Rightarrow> ProverLeave_Validate (Some r)
           | Some (MessageRequest_Pause (Some r)) \<Rightarrow> ProverPause_Validate (Some r)
           | Some (MessageRequest_Resume (Some r)) \<Rightarrow> ProverResume_Validate (Some r)
           | Some (MessageRequest_Confirm (Some r)) \<Rightarrow> ProverConfirm_Validate (Some r)
           | Some (MessageRequest_Reject (Some r)) \<Rightarrow> ProverReject_Validate (Some r)
           | Some (MessageRequest_Kick (Some r)) \<Rightarrow> ProverKick_Validate (Some r)
           | Some (MessageRequest_Update (Some r)) \<Rightarrow> ProverUpdate_Validate (Some r)
           | Some (MessageRequest_TokenDeploy (Some r)) \<Rightarrow> TokenDeploy_Validate (Some r)
           | Some (MessageRequest_TokenUpdate (Some r)) \<Rightarrow> TokenUpdate_Validate (Some r)
           | Some (MessageRequest_Transaction (Some r)) \<Rightarrow> Transaction_Validate (Some r)
           | Some (MessageRequest_PendingTransaction (Some r)) \<Rightarrow> PendingTransaction_Validate (Some r)
           | Some (MessageRequest_MintTransaction (Some r)) \<Rightarrow> MintTransaction_Validate (Some r)
           | Some (MessageRequest_HypergraphDeploy (Some r)) \<Rightarrow> HypergraphDeploy_Validate (Some r)
           | Some (MessageRequest_HypergraphUpdate (Some r)) \<Rightarrow> HypergraphUpdate_Validate (Some r)
           | Some (MessageRequest_VertexAdd (Some r)) \<Rightarrow> VertexAdd_Validate (Some r)
           | Some (MessageRequest_VertexRemove (Some r)) \<Rightarrow> VertexRemove_Validate (Some r)
           | Some (MessageRequest_HyperedgeAdd (Some r)) \<Rightarrow> HyperedgeAdd_Validate (Some r)
           | Some (MessageRequest_HyperedgeRemove (Some r)) \<Rightarrow> HyperedgeRemove_Validate (Some r)
           | Some (MessageRequest_ComputeDeploy (Some r)) \<Rightarrow> ComputeDeploy_Validate (Some r)
           | Some (MessageRequest_ComputeUpdate (Some r)) \<Rightarrow> ComputeUpdate_Validate (Some r)
           | Some (MessageRequest_CodeDeploy (Some r)) \<Rightarrow> CodeDeployment_Validate (Some r)
           | Some (MessageRequest_CodeExecute (Some r)) \<Rightarrow> CodeExecute_Validate (Some r)
           | Some (MessageRequest_CodeFinalize (Some r)) \<Rightarrow> CodeFinalize_Validate (Some r)
           | _ \<Rightarrow> True))"

section \<open>Bundles\<close>

record MessageBundle =
  Requests :: "MessageRequest option list"
  Timestamp :: i64

definition MessageBundle_ToCanonicalBytes :: "MessageBundle \<Rightarrow> fault + bytes" where
  "MessageBundle_ToCanonicalBytes m = writes
     [w_u32 MessageBundleType,
      w_list (w_opt MessageRequest_ToCanonicalBytes) (MessageBundle.Requests m),
      w_u64 (MessageBundle.Timestamp m)]"

definition MessageBundle_FromCanonicalBytes :: "bytes \<Rightarrow> MessageBundle option" where
  "MessageBundle_FromCanonicalBytes data =
     do {
       buf \<leftarrow> r_type MessageBundleType data;
       (requests, buf) \<leftarrow> r_list (r_opt MessageRequest_FromCanonicalBytes) buf;
       (timestamp, buf) \<leftarrow> be_u64 buf;
       Some \<lparr>MessageBundle.Requests = requests, MessageBundle.Timestamp = timestamp\<rparr>
     }"

definition MessageBundle_Validate :: "MessageBundle option \<Rightarrow> bool" where
  "MessageBundle_Validate p =
     (case p of None \<Rightarrow> False
      | Some m \<Rightarrow>
          list_all (\<lambda>request. request = None \<or> MessageRequest_Validate request)
            (MessageBundle.Requests m) \<and>
          MessageBundle.Timestamp m \<noteq> 0)"

text \<open>What is left of a bundle on the wire: the requests without their own timestamps.\<close>

definition bundle_canon :: "MessageBundle \<Rightarrow> MessageBundle" where
  "bundle_canon m =
     m\<lparr>MessageBundle.Requests :=
         map (map_option (\<lambda>r. r\<lparr>MessageRequest.Timestamp := 0\<rparr>)) (MessageBundle.Requests m)\<rparr>"

lemma w_list_map: "w_list w (map f xs) = w_list (\<lambda>x. w (f x)) xs"
  by (simp add: w_list_def comp_def)

interpretation message_bundle: codec MessageBundleType
  MessageBundle_ToCanonicalBytes MessageBundle_FromCanonicalBytes bundle_canon
  by unfold_locales
    (auto simp: MessageBundle_ToCanonicalBytes_def MessageBundle_FromCanonicalBytes_def
      bundle_canon_def codec_simps bind_eq_Some_conv message_request.r_list_opt_written
      w_list_map message_request.w_opt_canon message_request.r_list_opt_canon
      dest: r_type_SomeD)

section \<open>Frame headers, votes and confirmations\<close>

record GlobalFrameHeader =
  FrameNumber :: u64
  Timestamp :: i64
  Difficulty :: u32
  Output :: bytes
  ParentSelector :: bytes
  GlobalCommitments :: "bytes list"
  ProverTreeCommitment :: bytes
  PublicKeySignatureBls48581 :: "BLS48581AggregateSignature option"

definition GlobalFrameHeader_ToCanonicalBytes :: "GlobalFrameHeader \<Rightarrow> fault + bytes" where
  "GlobalFrameHeader_ToCanonicalBytes g = writes
     [w_u32 GlobalFrameHeaderType, w_u64 (GlobalFrameHeader.FrameNumber g),
      w_u64 (GlobalFrameHeader.Timestamp g), w_u32 (GlobalFrameHeader.Difficulty g),
      w_bytes (GlobalFrameHeader.Output g), w_bytes (GlobalFrameHeader.ParentSelector g),
      w_list w_bytes (GlobalFrameHeader.GlobalCommitments g),
      w_bytes (GlobalFrameHeader.ProverTreeCommitment g),
      w_opt BLS48581AggregateSignature_ToCanonicalBytes
        (GlobalFrameHeader.PublicKeySignatureBls48581 g)]"

definition GlobalFrameHeader_FromCanonicalBytes :: "bytes \<Rightarrow> GlobalFrameHeader option" where
  "GlobalFrameHeader_FromCanonicalBytes data =
     do {
       buf \<leftarrow> r_type GlobalFrameHeaderType data;
       (frameNumber, buf) \<leftarrow> be_u64 buf;
       (timestamp, buf) \<leftarrow> be_u64 buf;
       (difficulty, buf) \<leftarrow> be_u32 buf;
       (out, buf) \<leftarrow> r_bytes buf;
       (parentSelector, buf) \<leftarrow> r_bytes buf;
       (globalCommitments, buf) \<leftarrow> r_list r_bytes buf;
       (proverTreeCommitment, buf) \<leftarrow> r_bytes buf;
       (publicKeySignatureBls48581, buf) \<leftarrow>
         r_opt BLS48581AggregateSignature_FromCanonicalBytes buf;
       Some \<lparr>GlobalFrameHeader.FrameNumber = frameNumber, GlobalFrameHeader.Timestamp = timestamp,
             GlobalFrameHeader.Difficulty = difficulty, GlobalFrameHeader.Output = out,
             GlobalFrameHeader.ParentSelector = parentSelector,
             GlobalFrameHeader.GlobalCommitments = globalCommitments,
             GlobalFrameHeader.ProverTreeCommitment = proverTreeCommitment,
             GlobalFrameHeader.PublicKeySignatureBls48581 = publicKeySignatureBls48581\<rparr>
     }"

interpretation global_frame_header: lossless_codec GlobalFrameHeaderType
  GlobalFrameHeader_ToCanonicalBytes GlobalFrameHeader_FromCanonicalBytes
  by (rule lossless_codecI
      [OF GlobalFrameHeader_ToCanonicalBytes_def GlobalFrameHeader_FromCanonicalBytes_def])
    (auto simp: codec_simps bind_eq_Some_conv)

record FrameHeader =
  Address :: bytes
  FrameNumber :: u64
  Timestamp :: i64
  Difficulty :: u32
  Output :: bytes
  ParentSelector :: bytes
  RequestsRoot :: bytes
  StateRoots :: "bytes list"
  Prover :: bytes
  FeeMultiplierVote :: u64
  PublicKeySignatureBls48581 :: "BLS48581AggregateSignature option"

definition FrameHeader_ToCanonicalBytes :: "FrameHeader \<Rightarrow> fault + bytes" where
  "FrameHeader_ToCanonicalBytes f = writes
     [w_u32 FrameHeaderType, w_bytes (FrameHeader.Address f), w_u64 (FrameHeader.FrameNumber f),
      w_u64 (FrameHeader.Timestamp f), w_u32 (FrameHeader.Difficulty f),
      w_bytes (FrameHeader.Output f), w_bytes (FrameHeader.ParentSelector f),
      w_bytes (FrameHeader.RequestsRoot f), w_list w_bytes (FrameHeader.StateRoots f),
      w_bytes (FrameHeader.Prover f), w_u64 (FrameHeader.FeeMultiplierVote f),
      w_opt BLS48581AggregateSignature_ToCanonicalBytes (FrameHeader.PublicKeySignatureBls48581 f)]"

definition FrameHeader_FromCanonicalBytes :: "bytes \<Rightarrow> FrameHeader option" where
  "FrameHeader_FromCanonicalBytes data =
     do {
       buf \<leftarrow> r_type FrameHeaderType data;
       (address, buf) \<leftarrow> r_bytes buf;
       (frameNumber, buf) \<leftarrow> be_u64 buf;
       (timestamp, buf) \<leftarrow> be_u64 buf;
       (difficulty, buf) \<leftarrow> be_u32 buf;
       (out, buf) \<leftarrow> r_bytes buf;
       (parentSelector, buf) \<leftarrow> r_bytes buf;
       (requestsRoot, buf) \<leftarrow> r_bytes buf;
       (stateRoots, buf) \<leftarrow> r_list r_bytes buf;
       (prover, buf) \<leftarrow> r_bytes buf;
       (feeMultiplierVote, buf) \<leftarrow> be_u64 buf;
       (publicKeySignatureBls48581, buf) \<leftarrow>
         r_opt BLS48581AggregateSignature_FromCanonicalBytes buf;
       Some \<lparr>FrameHeader.Address = address, FrameHeader.FrameNumber = frameNumber,
             FrameHeader.Timestamp = timestamp, FrameHeader.Difficulty = difficulty,
             FrameHeader.Output = out, FrameHeader.ParentSelector = parentSelector,
             FrameHeader.RequestsRoot = requestsRoot, FrameHeader.StateRoots = stateRoots,
             FrameHeader.Prover = prover, FrameHeader.FeeMultiplierVote = feeMultiplierVote,
             FrameHeader.PublicKeySignatureBls48581 = publicKeySignatureBls48581\<rparr>
     }"

interpretation frame_header: lossless_codec FrameHeaderType
  FrameHeader_ToCanonicalBytes FrameHeader_FromCanonicalBytes
  by (rule lossless_codecI
      [OF FrameHeader_ToCanonicalBytes_def FrameHeader_FromCanonicalBytes_def])
    (auto simp: codec_simps bind_eq_Some_conv)

record FrameVote =
  FrameNumber :: u64
  Proposer :: bytes
  Approve :: bool
  PublicKeySignatureBls48581 :: "BLS48581AddressedSignature option"

definition FrameVote_ToCanonicalBytes :: "FrameVote \<Rightarrow> fault + bytes" where
  "FrameVote_ToCanonicalBytes f = writes
     [w_u32 FrameVoteType, w_u64 (FrameVote.FrameNumber f), w_bytes (FrameVote.Proposer f),
      w_bool (FrameVote.Approve f),
      w_opt BLS48581AddressedSignature_ToCanonicalBytes (FrameVote.PublicKeySignatureBls48581 f)]"

definition FrameVote_FromCanonicalBytes :: "bytes \<Rightarrow> FrameVote option" where
  "FrameVote_FromCanonicalBytes data =
     do {
       buf \<leftarrow> r_type FrameVoteType data;
       (frameNumber, buf) \<leftarrow> be_u64 buf;
       (proposer, buf) \<leftarrow> r_bytes buf;
       (approve, buf) \<leftarrow> r_bool buf;
       (publicKeySignatureBls48581, buf) \<leftarrow>
         r_opt BLS48581AddressedSignature_FromCanonicalBytes buf;
       Some \<lparr>FrameVote.FrameNumber = frameNumber, FrameVote.Proposer = proposer,
             FrameVote.Approve = approve,
             FrameVote.PublicKeySignatureBls48581 = publicKeySignatureBls48581\<rparr>
     }"

interpretation frame_vote: lossless_codec FrameVoteType
  FrameVote_ToCanonicalBytes FrameVote_FromCanonicalBytes
  by (rule lossless_codecI
      [OF FrameVote_ToCanonicalBytes_def FrameVote_FromCanonicalBytes_def])
    (auto simp: codec_simps bind_eq_Some_conv)

record FrameConfirmation =
  FrameNumber :: u64
  Selector :: bytes
  AggregateSignature :: "BLS48581AggregateSignature option"

definition FrameConfirmation_ToCanonicalBytes :: "FrameConfirmation \<Rightarrow> fault + bytes" where
  "FrameConfirmation_ToCanonicalBytes f = writes
     [w_u32 FrameConfirmationType, w_u64 (FrameConfirmation.FrameNumber f),
      w_bytes (FrameConfirmation.Selector f),
      w_opt BLS48581AggregateSignature_ToCanonicalBytes (FrameConfirmation.AggregateSignature f)]"

definition FrameConfirmation_FromCanonicalBytes :: "bytes \<Rightarrow> FrameConfirmation option" where
  "FrameConfirmation_FromCanonicalBytes data =
     do {
       buf \<leftarrow> r_type FrameConfirmationType data;
       (frameNumber, buf) \<leftarrow> be_u64 buf;
       (selector, buf) \<leftarrow> r_bytes buf;
       (aggregateSignature, buf) \<leftarrow>
         r_opt BLS48581AggregateSignature_FromCanonicalBytes buf;
       Some \<lparr>FrameConfirmation.FrameNumber = frameNumber, FrameConfirmation.Selector = selector,
             FrameConfirmation.AggregateSignature = aggregateSignature\<rparr>
     }"

interpretation frame_confirmation: lossless_codec FrameConfirmationType
  FrameConfirmation_ToCanonicalBytes FrameConfirmation_FromCanonicalBytes
  by (rule lossless_codecI
      [OF FrameConfirmation_ToCanonicalBytes_def FrameConfirmation_FromCanonicalBytes_def])
    (auto simp: codec_simps bind_eq_Some_conv)

definition GlobalFrameHeader_Validate :: "GlobalFrameHeader option \<Rightarrow> bool" where
  "GlobalFrameHeader_Validate p =
     (case p of None \<Rightarrow> False
      | Some h \<Rightarrow> GlobalFrameHeader.Timestamp h \<noteq> 0 \<and> GlobalFrameHeader.Difficulty h \<noteq> 0 \<and>
          length (GlobalFrameHeader.Output h) = 516 \<and>
          length (GlobalFrameHeader.ParentSelector h) = 32 \<and>
          length (GlobalFrameHeader.GlobalCommitments h) = 256 \<and>
          list_all (\<lambda>commitment. length commitment = 64 \<or> length commitment = 74)
            (GlobalFrameHeader.GlobalCommitments h) \<and>
          (length (GlobalFrameHeader.ProverTreeCommitment h) = 64 \<or>
           length (GlobalFrameHeader.ProverTreeCommitment h) = 74) \<and>
          GlobalFrameHeader.PublicKeySignatureBls48581 h \<noteq> None)"

definition FrameHeader_Validate :: "FrameHeader option \<Rightarrow> bool" where
  "FrameHeader_Validate p =
     (case p of None \<Rightarrow> False
      | Some h \<Rightarrow> 32 \<le> length (FrameHeader.Address h) \<and> length (FrameHeader.Address h) \<le> 64 \<and>
          FrameHeader.Timestamp h \<noteq> 0 \<and> FrameHeader.Difficulty h \<noteq> 0 \<and>
          length (FrameHeader.Output h) = 516 \<and>
          length (FrameHeader.ParentSelector h) = 32 \<and>
          (length (FrameHeader.RequestsRoot h) = 64 \<or> length (FrameHeader.RequestsRoot h) = 74) \<and>
          length (FrameHeader.StateRoots h) = 4 \<and>
          list_all (\<lambda>root. length root = 64 \<or> length root = 74) (FrameHeader.StateRoots h) \<and>
          length (FrameHeader.Prover h) = 32 \<and>
          FrameHeader.PublicKeySignatureBls48581 h \<noteq> None)"

definition FrameVote_Validate :: "FrameVote option \<Rightarrow> bool" where
  "FrameVote_Validate p =
     (case p of None \<Rightarrow> False
      | Some f \<Rightarrow> length (FrameVote.Proposer f) = 32 \<and>
          BLS48581AddressedSignature_Validate (FrameVote.PublicKeySignatureBls48581 f))"

definition FrameConfirmation_Validate :: "FrameConfirmation option \<Rightarrow> bool" where
  "FrameConfirmation_Validate p =
     (case p of None \<Rightarrow> False
      | Some f \<Rightarrow> length (FrameConfirmation.Selector f) = 32 \<and>
          FrameConfirmation.AggregateSignature f \<noteq> None)"

section \<open>Frames\<close>

record GlobalFrame =
  Header :: "GlobalFrameHeader option"
  Requests :: "MessageBundle option list"

definition GlobalFrame_ToCanonicalBytes :: "GlobalFrame \<Rightarrow> fault + bytes" where
  "GlobalFrame_ToCanonicalBytes g = writes
     [w_u32 GlobalFrameType, w_opt GlobalFrameHeader_ToCanonicalBytes (GlobalFrame.Header g),
      w_list (w_sub MessageBundle_ToCanonicalBytes) (GlobalFrame.Requests g)]"

definition GlobalFrame_FromCanonicalBytes :: "bytes \<Rightarrow> GlobalFrame option" where
  "GlobalFrame_FromCanonicalBytes data =
     do {
       buf \<leftarrow> r_type GlobalFrameType data;
       (header, buf) \<leftarrow> r_opt GlobalFrameHeader_FromCanonicalBytes buf;
       (requests, buf) \<leftarrow> r_list (r_sub MessageBundle_FromCanonicalBytes) buf;
       Some \<lparr>GlobalFrame.Header = header, GlobalFrame.Requests = requests\<rparr>
     }"

definition global_frame_canon :: "GlobalFrame \<Rightarrow> GlobalFrame" where
  "global_frame_canon f =
     f\<lparr>GlobalFrame.Requests := map (map_option bundle_canon) (GlobalFrame.Requests f)\<rparr>"

interpretation global_frame: codec GlobalFrameType
  GlobalFrame_ToCanonicalBytes GlobalFrame_FromCanonicalBytes global_frame_canon
  by unfold_locales
    (auto simp: GlobalFrame_ToCanonicalBytes_def GlobalFrame_FromCanonicalBytes_def
      global_frame_canon_def codec_simps bind_eq_Some_conv message_bundle.r_list_sub_written
      w_list_map message_bundle.w_sub_canon message_bundle.r_list_sub_canon
      dest: r_type_SomeD)

record AppShardFrame =
  Header :: "FrameHeader option"
  Requests :: "MessageBundle option list"

definition AppShardFrame_ToCanonicalBytes :: "AppShardFrame \<Rightarrow> fault + bytes" where
  "AppShardFrame_ToCanonicalBytes a = writes
     [w_u32 AppShardFrameType, w_opt FrameHeader_ToCanonicalBytes (AppShardFrame.Header a),
      w_list (w_sub MessageBundle_ToCanonicalBytes) (AppShardFrame.Requests a)]"

definition AppShardFrame_FromCanonicalBytes :: "bytes \<Rightarrow> AppShardFrame option" where
  "AppShardFrame_FromCanonicalBytes data =
     do {
       buf \<leftarrow> r_type AppShardFrameType data;
       (header, buf) \<leftarrow> r_opt FrameHeader_FromCanonicalBytes buf;
       (requests, buf) \<leftarrow> r_list (r_sub MessageBundle_FromCanonicalBytes) buf;
       Some \<lparr>AppShardFrame.Header = header, AppShardFrame.Requests = requests\<rparr>
     }"

definition app_shard_frame_canon :: "AppShardFrame \<Rightarrow> AppShardFrame" where
  "app_shard_frame_canon f =
     f\<lparr>AppShardFrame.Requests := map (map_option bundle_canon) (AppShardFrame.Requests f)\<rparr>"

interpretation app_shard_frame: codec AppShardFrameType
  AppShardFrame_ToCanonicalBytes AppShardFrame_FromCanonicalBytes app_shard_frame_canon
  by unfold_locales
    (auto simp: AppShardFrame_ToCanonicalBytes_def AppShardFrame_FromCanonicalBytes_def
      app_shard_frame_canon_def codec_simps bind_eq_Some_conv message_bundle.r_list_sub_written
      w_list_map message_bundle.w_sub_canon message_bundle.r_list_sub_canon
      dest: r_type_SomeD)

definition GlobalFrame_Validate :: "GlobalFrame option \<Rightarrow> bool" where
  "GlobalFrame_Validate p =
     (case p of None \<Rightarrow> False
      | Some g \<Rightarrow> GlobalFrameHeader_Validate (GlobalFrame.Header g) \<and>
          list_all MessageBundle_Validate (GlobalFrame.Requests g))"

definition AppShardFrame_Validate :: "AppShardFrame option \<Rightarrow> bool" where
  "AppShardFrame_Validate p =
     (case p of None \<Rightarrow> False
      | Some a \<Rightarrow> FrameHeader_Validate (AppShardFrame.Header a))"

section \<open>Validated requests can be encoded\<close>

text \<open>
  The kinds of request for which \<^verbatim>\<open>Validate\<close> checks everything the encoder relies on.  The
  others leave part of it unchecked: merge targets of a join, traversal proofs of transactions,
  operations of an execution, results and state changes of a finalisation may hold nil pointers,
  and the public key of an update's aggregate signature may be empty.
\<close>

fun self_contained :: "MessageRequest_Request \<Rightarrow> bool" where
  "self_contained (MessageRequest_Leave (Some _)) = True"
| "self_contained (MessageRequest_Pause (Some _)) = True"
| "self_contained (MessageRequest_Resume (Some _)) = True"
| "self_contained (MessageRequest_Confirm (Some _)) = True"
| "self_contained (MessageRequest_Reject (Some _)) = True"
| "self_contained (MessageRequest_Kick (Some _)) = True"
| "self_contained (MessageRequest_Update (Some _)) = True"
| "self_contained (MessageRequest_TokenDeploy (Some _)) = True"
| "self_contained (MessageRequest_MintTransaction (Some _)) = True"
| "self_contained (MessageRequest_HypergraphDeploy (Some _)) = True"
| "self_contained (MessageRequest_VertexAdd (Some _)) = True"
| "self_contained (MessageRequest_VertexRemove (Some _)) = True"
| "self_contained (MessageRequest_HyperedgeAdd (Some _)) = True"
| "self_contained (MessageRequest_HyperedgeRemove (Some _)) = True"
| "self_contained (MessageRequest_ComputeDeploy (Some _)) = True"
| "self_contained (MessageRequest_CodeDeploy (Some _)) = True"
| "self_contained _ = False"

lemmas always_encodes =
  BLS48581AddressedSignature_ToCanonicalBytes_def ProverLeave_ToCanonicalBytes_def
  ProverPause_ToCanonicalBytes_def ProverResume_ToCanonicalBytes_def
  ProverConfirm_ToCanonicalBytes_def ProverReject_ToCanonicalBytes_def
  ProverUpdate_ToCanonicalBytes_def Authority_ToCanonicalBytes_def FeeBasis_ToCanonicalBytes_def
  TokenMintStrategy_ToCanonicalBytes_def TokenConfiguration_ToCanonicalBytes_def
  TokenDeploy_ToCanonicalBytes_def VertexAdd_ToCanonicalBytes_def
  VertexRemove_ToCanonicalBytes_def HyperedgeAdd_ToCanonicalBytes_def
  HyperedgeRemove_ToCanonicalBytes_def ComputeConfiguration_ToCanonicalBytes_def
  ComputeDeploy_ToCanonicalBytes_def

lemma traversal_sub_proof_encodes:
  "TraversalSubProof_Validate (Some t) \<Longrightarrow> \<not> isl (TraversalSubProof_ToCanonicalBytes t)"
  using validated_list_encodes [of Path_Validate "TraversalSubProof.Paths t" Path_ToCanonicalBytes]
  by (simp add: TraversalSubProof_Validate_def TraversalSubProof_ToCanonicalBytes_def
      Path_Validate_def Path_ToCanonicalBytes_def isl_w isl_writes)

lemma traversal_proof_encodes:
  "TraversalProof_Validate (Some t) \<Longrightarrow> \<not> isl (TraversalProof_ToCanonicalBytes t)"
  using validated_list_encodes [of TraversalSubProof_Validate "TraversalProof.SubProofs t"
      TraversalSubProof_ToCanonicalBytes, OF _ _ traversal_sub_proof_encodes]
  by (auto simp: TraversalProof_Validate_def TraversalProof_ToCanonicalBytes_def
      TraversalSubProof_Validate_def Multiproof_ToCanonicalBytes_def isl_w isl_writes isl_w_opt_iff)

lemma kick_encodes: "ProverKick_Validate (Some t) \<Longrightarrow> \<not> isl (ProverKick_ToCanonicalBytes t)"
  by (auto simp: ProverKick_Validate_def ProverKick_ToCanonicalBytes_def codec_simps isl_w_opt_iff
      dest: traversal_proof_encodes)

lemma mint_encodes:
  assumes "MintTransaction_Validate (Some t)"
  shows "\<not> isl (MintTransaction_ToCanonicalBytes t)"
proof -
  have "\<not> isl (w_list (w_sub MintTransactionInput_ToCanonicalBytes) (MintTransaction.Inputs t))"
    using assms by (intro validated_list_encodes [of MintTransactionInput_Validate])
      (simp_all add: MintTransaction_Validate_def MintTransactionInput_Validate_def
        MintTransactionInput_ToCanonicalBytes_def codec_simps)
  moreover
  have "\<not> isl (w_list (w_sub MintTransactionOutput_ToCanonicalBytes) (MintTransaction.Outputs t))"
    using assms by (intro validated_list_encodes [of MintTransactionOutput_Validate])
      (simp_all add: MintTransaction_Validate_def MintTransactionOutput_Validate_def
        MintTransactionOutput_ToCanonicalBytes_def RecipientBundle_ToCanonicalBytes_def codec_simps
        isl_w_opt_iff)
  ultimately show ?thesis by (simp add: MintTransaction_ToCanonicalBytes_def isl_w isl_writes)
qed

lemma deploy_encodes:
  "HypergraphDeploy_Validate (Some h) \<Longrightarrow> \<not> isl (HypergraphDeploy_ToCanonicalBytes h)"
  "CodeDeployment_Validate (Some d) \<Longrightarrow> \<not> isl (CodeDeployment_ToCanonicalBytes d)"
  by (auto simp: HypergraphDeploy_Validate_def HypergraphDeploy_ToCanonicalBytes_def
      HypergraphConfiguration_Validate_def HypergraphConfiguration_ToCanonicalBytes_def
      CodeDeployment_Validate_def CodeDeployment_ToCanonicalBytes_def codec_simps isl_w_sub_iff
      split: option.splits)

section \<open>Properties\<close>

text \<open>Claim C12.  A request of any kind decodes from its canonical bytes, whatever follows them, to the
  same kind of request with the same contents; only the request's own timestamp, which the encoder
  drops, comes back as 0.\<close>

theorem request_roundtrip:
  assumes "MessageRequest_ToCanonicalBytes m = Inr bs" and "fits bs"
  shows "MessageRequest_FromCanonicalBytes (bs @ rest) = Some (m\<lparr>MessageRequest.Timestamp := 0\<rparr>)"
  using assms by (rule message_request.dec_enc)

theorem request_roundtrip_witness:
  "let m = \<lparr>MessageRequest.Request = Some (MessageRequest_HyperedgeAdd
               (Some \<lparr>HyperedgeAdd.Domain = [1], HyperedgeAdd.Value = [2],
                      HyperedgeAdd.Signature = [3]\<rparr>)),
             MessageRequest.Timestamp = 4\<rparr>;
       bs = projr (MessageRequest_ToCanonicalBytes m)
   in MessageRequest_ToCanonicalBytes m = Inr bs \<and>
      MessageRequest_FromCanonicalBytes (bs @ [9]) = Some (m\<lparr>MessageRequest.Timestamp := 0\<rparr>)"
proof -
  let ?m = "\<lparr>MessageRequest.Request = Some (MessageRequest_HyperedgeAdd
               (Some \<lparr>HyperedgeAdd.Domain = [1], HyperedgeAdd.Value = [2],
                      HyperedgeAdd.Signature = [3]\<rparr>)),
             MessageRequest.Timestamp = 4\<rparr>"
  let ?bs = "projr (MessageRequest_ToCanonicalBytes ?m)"
  have bs: "MessageRequest_ToCanonicalBytes ?m = Inr ?bs" by code_simp
  have "length ?bs < 100" by code_simp
  then have "fits ?bs" by linarith
  from request_roundtrip [OF bs this, of "[9]"] bs show ?thesis unfolding Let_def by (intro conjI)
qed

text \<open>Claim C13.  A global frame decodes from its canonical bytes to itself, header and bundles
  included, up to the timestamps inside the requests.\<close>

theorem global_frame_roundtrip:
  assumes "GlobalFrame_ToCanonicalBytes f = Inr bs" and "fits bs"
  shows "GlobalFrame_FromCanonicalBytes (bs @ rest) = Some (global_frame_canon f)"
  using assms by (rule global_frame.dec_enc)

theorem global_frame_roundtrip_witness:
  "let f = \<lparr>GlobalFrame.Header = None,
             GlobalFrame.Requests = [Some \<lparr>MessageBundle.Requests = [None],
                                           MessageBundle.Timestamp = 4\<rparr>]\<rparr>;
       bs = projr (GlobalFrame_ToCanonicalBytes f)
   in GlobalFrame_ToCanonicalBytes f = Inr bs \<and>
      GlobalFrame_FromCanonicalBytes (bs @ []) = Some (global_frame_canon f)"
proof -
  let ?f = "\<lparr>GlobalFrame.Header = None,
             GlobalFrame.Requests = [Some \<lparr>MessageBundle.Requests = [None],
                                           MessageBundle.Timestamp = 4\<rparr>]\<rparr>"
  let ?bs = "projr (GlobalFrame_ToCanonicalBytes ?f)"
  have bs: "GlobalFrame_ToCanonicalBytes ?f = Inr ?bs" by code_simp
  have "length ?bs < 100" by code_simp
  then have "fits ?bs" by linarith
  from global_frame_roundtrip [OF bs this, of "[]"] bs show ?thesis unfolding Let_def
    by (intro conjI)
qed

text \<open>Claim C21.  Application shard frames with the same canonical bytes are the same frame: equal
  headers, and equal bundles up to the timestamps inside the requests.\<close>

theorem app_shard_frame_bytes_injective:
  assumes "AppShardFrame_ToCanonicalBytes f = Inr bs" and "AppShardFrame_ToCanonicalBytes g = Inr bs"
    and "fits bs"
  shows "AppShardFrame.Header f = AppShardFrame.Header g \<and>
    map (map_option bundle_canon) (AppShardFrame.Requests f) =
      map (map_option bundle_canon) (AppShardFrame.Requests g)"
proof -
  have "app_shard_frame_canon f = app_shard_frame_canon g"
    using assms by (rule app_shard_frame.enc_eq_canon)
  then show ?thesis by (cases f, cases g) (simp add: app_shard_frame_canon_def)
qed

text \<open>Two frames that differ only in the timestamp of a request, and so have the same bytes.\<close>

definition stamped_frame :: "i64 \<Rightarrow> AppShardFrame" where
  "stamped_frame t =
     \<lparr>AppShardFrame.Header = None,
      AppShardFrame.Requests =
        [Some \<lparr>MessageBundle.Requests =
           [Some \<lparr>MessageRequest.Request = Some (MessageRequest_HyperedgeAdd
              (Some \<lparr>HyperedgeAdd.Domain = [1], HyperedgeAdd.Value = [2],
                     HyperedgeAdd.Signature = [3]\<rparr>)), MessageRequest.Timestamp = t\<rparr>],
           MessageBundle.Timestamp = 9\<rparr>]\<rparr>"

theorem app_shard_frame_bytes_injective_witness:
  "let bs = projr (AppShardFrame_ToCanonicalBytes (stamped_frame 1))
   in AppShardFrame_ToCanonicalBytes (stamped_frame 1) = Inr bs \<and>
      AppShardFrame_ToCanonicalBytes (stamped_frame 2) = Inr bs \<and>
      map (map_option bundle_canon) (AppShardFrame.Requests (stamped_frame 1)) =
        map (map_option bundle_canon) (AppShardFrame.Requests (stamped_frame 2))"
proof -
  let ?bs = "projr (AppShardFrame_ToCanonicalBytes (stamped_frame 1))"
  have 1: "AppShardFrame_ToCanonicalBytes (stamped_frame 1) = Inr ?bs" by code_simp
  have 2: "AppShardFrame_ToCanonicalBytes (stamped_frame 2) = Inr ?bs" by code_simp
  have "length ?bs < 100" by code_simp
  then have "fits ?bs" by linarith
  from app_shard_frame_bytes_injective [OF 1 2 this] 1 2 show ?thesis unfolding Let_def
    by (intro conjI) blast+
qed



text \<open>Claim C23.  A request of a self-contained kind that \<^verbatim>\<open>Validate\<close> accepts can be encoded: neither
  an error nor a panic.\<close>

theorem validated_request_encodes:
  assumes "MessageRequest_Validate (Some m)" and "MessageRequest.Request m = Some r"
    and "self_contained r"
  shows "\<exists>bs. MessageRequest_ToCanonicalBytes m = Inr bs"
proof -
  have "\<not> isl (request_bytes (Some r))"
    using assms
    by (cases r rule: self_contained.cases)
      (simp_all add: request_bytes_def via_def MessageRequest_Validate_def kick_encodes mint_encodes
        deploy_encodes, simp_all add: always_encodes codec_simps isl_w_opt_iff)
  with assms(2) show ?thesis
    by (cases "request_bytes (Some r)")
      (auto simp: MessageRequest_ToCanonicalBytes_def w_request_def codec_simps)
qed

theorem validated_request_encodes_witness:
  "let r = MessageRequest_HyperedgeAdd (Some \<lparr>HyperedgeAdd.Domain = replicate 32 1,
             HyperedgeAdd.Value = [2], HyperedgeAdd.Signature = [3]\<rparr>);
       m = \<lparr>MessageRequest.Request = Some r, MessageRequest.Timestamp = 4\<rparr>
   in MessageRequest_Validate (Some m) \<and> self_contained r \<and>
      (\<exists>bs. MessageRequest_ToCanonicalBytes m = Inr bs)"
proof -
  let ?r = "MessageRequest_HyperedgeAdd (Some \<lparr>HyperedgeAdd.Domain = replicate 32 1,
             HyperedgeAdd.Value = [2], HyperedgeAdd.Signature = [3]\<rparr>)"
  let ?m = "\<lparr>MessageRequest.Request = Some ?r, MessageRequest.Timestamp = 4\<rparr>"
  have "MessageRequest_Validate (Some ?m)"
    by (simp add: MessageRequest_Validate_def HyperedgeAdd_Validate_def)
  moreover have "self_contained ?r" by simp
  ultimately show ?thesis using validated_request_encodes [of ?m ?r] unfolding Let_def by simp
qed

text \<open>Validation does not imply that a request can be encoded: there is a finalisation
  request and a request without a payload that pass \<^verbatim>\<open>Validate\<close>, where encoding the first panics on
  a nil result and encoding the second fails.\<close>

theorem validated_request_may_not_encode:
  "\<exists>m n. MessageRequest_Validate (Some m) \<and> MessageRequest_ToCanonicalBytes m = Inl Panic \<and>
     MessageRequest_Validate (Some n) \<and> MessageRequest_ToCanonicalBytes n = Inl Err"
proof -
  let ?m = "\<lparr>MessageRequest.Request = Some (MessageRequest_CodeFinalize
      (Some \<lparr>CodeFinalize.Rendezvous = replicate 32 0, CodeFinalize.Results = [None],
             CodeFinalize.StateChanges = [], CodeFinalize.ProofOfExecution = [],
             CodeFinalize.MessageOutput = []\<rparr>)), MessageRequest.Timestamp = 0\<rparr>"
  let ?n = "\<lparr>MessageRequest.Request = None, MessageRequest.Timestamp = 0\<rparr>"
  have "MessageRequest_Validate (Some ?m)" by code_simp
  moreover have "MessageRequest_ToCanonicalBytes ?m = Inl Panic" by code_simp
  moreover have "MessageRequest_Validate (Some ?n)" by code_simp
  moreover have "MessageRequest_ToCanonicalBytes ?n = Inl Err" by code_simp
  ultimately show ?thesis by blast
qed

end
