(* ===== verification/Global_Time_Reel.thy ===== *)
theory Global_Time_Reel
  imports Fork_Choice Fee_Manager Frame_Messages "HOL-Library.Finite_Map"
begin

unbundle bit_operations_syntax

text \<open>
  The global time reel of \<^verbatim>\<open>node/consensus/time/global_time_reel.go\<close>: the tree of known global
  frames, the frames that wait for a parent, and the head of the canonical chain.

  A node is named by its frame ID, under which the reel's map holds it; every pointer to a live
  node is such an ID, so comparing pointers is comparing IDs.  \<^verbatim>\<open>Depth\<close> is a natural number (it
  grows by one per inserted frame).  Iteration over a Go map is in an order the language leaves
  open: \<open>order\<close> gives it, freely for every single loop (\<open>ranges\<close> counts them).  Events are the
  list of those sent on the channel, \<open>stored\<close> the list of store transactions committed.  The LRU
  cache, which only ever holds nodes of the map, logging and metrics are left out.  A result of
  \<^const>\<open>None\<close> is a panic or a loop without end.
\<close>

section \<open>Nodes, events and the reel\<close>

type_synonym frame_id = string

datatype TimeReelEventType =
    TimeReelEventNewHead
  | TimeReelEventForkDetected
  | TimeReelEventEquivocationDetected

record GlobalEvent =
  Type :: TimeReelEventType
  Frame :: GlobalFrame
  OldHead :: "GlobalFrame option"

record GlobalFrameNode =
  Frame :: GlobalFrame
  Parent :: "frame_id option"
  Children :: "frame_id set"
  Depth :: nat

record GlobalPendingFrame =
  Frame :: GlobalFrame
  ParentSelector :: bytes
  Timestamp :: i64

datatype reel_write =
    Persist "GlobalFrame list"
  | Rewind "GlobalFrame list"
  | DeleteRange u64 u64

record GlobalTimeReel =
  root :: "frame_id option"
  nodes :: "(frame_id, GlobalFrameNode) fmap"
  framesByNumber :: "(u64, frame_id list) fmap"
  head :: "frame_id option"
  pendingFrames :: "(bytes, GlobalPendingFrame list) fmap"
  forkChoiceParams :: Params
  equivocators :: "(u64, nat set) fmap"
  genesisFrameNumber :: u64
  archiveMode :: bool
  events :: "GlobalEvent list"
  stored :: "reel_write list"
  ranges :: nat

text \<open>
  What lies outside: the Poseidon hash as 32 bytes, the order of map iterations, whether
  materialising and writing a frame succeeds, whether reverting it does, whether transactions
  open and commit, and the clock.
\<close>

record reel_env =
  hash :: "bytes \<Rightarrow> bytes"
  order :: "nat \<Rightarrow> frame_id set \<Rightarrow> frame_id list"
  materialized :: "GlobalFrame \<Rightarrow> bool"
  reverted :: "GlobalFrame \<Rightarrow> bool"
  commits :: bool
  clock :: i64

datatype reel_error = GenesisExists | NotOlderThanRoot | SelectorMismatch | PersistFailed

definition maxGlobalTreeDepth :: nat where
  "maxGlobalTreeDepth = 360"

definition NewGlobalTimeReel :: "u8 \<Rightarrow> bool \<Rightarrow> GlobalTimeReel" where
  "NewGlobalTimeReel network archive =
     \<lparr>root = None, nodes = fmempty, framesByNumber = fmempty, head = None, pendingFrames = fmempty,
      forkChoiceParams = DefaultForkChoiceParams, equivocators = fmempty,
      genesisFrameNumber = (if network = 0 then 244200 else 0), archiveMode = archive,
      events = [], stored = [], ranges = 0\<rparr>"

text \<open>The header of a frame and its fields; \<open>Insert\<close> refuses (panics on) a frame without one.\<close>

abbreviation hdr :: "GlobalFrame \<Rightarrow> GlobalFrameHeader" where
  "hdr f \<equiv> the (GlobalFrame.Header f)"

abbreviation frame_number :: "GlobalFrame \<Rightarrow> u64" where
  "frame_number f \<equiv> GlobalFrameHeader.FrameNumber (hdr f)"

abbreviation output_of :: "GlobalFrame \<Rightarrow> bytes" where
  "output_of f \<equiv> GlobalFrameHeader.Output (hdr f)"

abbreviation selector_of :: "GlobalFrame \<Rightarrow> bytes" where
  "selector_of f \<equiv> GlobalFrameHeader.ParentSelector (hdr f)"

abbreviation node :: "GlobalTimeReel \<Rightarrow> frame_id \<Rightarrow> GlobalFrameNode" where
  "node g i \<equiv> the (fmlookup (nodes g) i)"

abbreviation frame_at :: "GlobalTimeReel \<Rightarrow> frame_id \<Rightarrow> GlobalFrame" where
  "frame_at g i \<equiv> GlobalFrameNode.Frame (node g i)"

abbreviation depth_at :: "GlobalTimeReel \<Rightarrow> frame_id \<Rightarrow> nat" where
  "depth_at g i \<equiv> Depth (node g i)"

section \<open>Frame IDs and signer bits\<close>

text \<open>\<^verbatim>\<open>%d\<close> of \<^verbatim>\<open>fmt.Sprintf\<close> on a \<^verbatim>\<open>uint64\<close> and on an \<^verbatim>\<open>int64\<close>.\<close>

fun decimal :: "nat \<Rightarrow> string" where
  "decimal n = (if n < 10 then [char_of (48 + n)] else decimal (n div 10) @ [char_of (48 + n mod 10)])"

declare decimal.simps [simp del]

definition decimal_i64 :: "i64 \<Rightarrow> string" where
  "decimal_i64 t = (if sint t < 0 then CHR ''-'' # decimal (nat (- sint t)) else decimal (nat (sint t)))"

definition ComputeFrameID :: "reel_env \<Rightarrow> GlobalFrame \<Rightarrow> frame_id" where
  "ComputeFrameID env frame =
     EncodeToString (hash env (map of_char
       (decimal (unat (frame_number frame)) @ '':'' @
        decimal_i64 (GlobalFrameHeader.Timestamp (hdr frame)) @ '':'' @
        EncodeToString (output_of frame) @ '':'' @ EncodeToString (selector_of frame))))"

definition isEqualGlobalFrame :: "GlobalFrame \<Rightarrow> GlobalFrame \<Rightarrow> bool" where
  "isEqualGlobalFrame a b \<longleftrightarrow>
     frame_number a = frame_number b \<and>
     GlobalFrameHeader.Timestamp (hdr a) = GlobalFrameHeader.Timestamp (hdr b) \<and>
     GlobalFrameHeader.Difficulty (hdr a) = GlobalFrameHeader.Difficulty (hdr b) \<and>
     output_of a = output_of b \<and> selector_of a = selector_of b"

definition byte_at :: "bytes \<Rightarrow> nat \<Rightarrow> u8" where
  "byte_at bs i = (if i < length bs then bs ! i else 0)"

definition overlap :: "bytes \<Rightarrow> bytes \<Rightarrow> bytes" where
  "overlap a b = map (\<lambda>i. byte_at a i AND byte_at b i) [0..<max (length a) (length b)]"

definition hasOverlappingBits :: "GlobalFrame \<Rightarrow> GlobalFrame \<Rightarrow> bool" where
  "hasOverlappingBits a b =
     (case (GlobalFrameHeader.PublicKeySignatureBls48581 (hdr a),
            GlobalFrameHeader.PublicKeySignatureBls48581 (hdr b)) of
        (Some s, Some t) \<Rightarrow>
          list_ex (\<lambda>x. x \<noteq> 0) (overlap (BLS48581AggregateSignature.Bitmask s)
            (BLS48581AggregateSignature.Bitmask t))
      | _ \<Rightarrow> False)"

text \<open>The positions \<open>i * 8 + bit\<close> of the bits set in a bit mask, in the order of the loops.\<close>

definition bit_positions :: "bytes \<Rightarrow> nat list" where
  "bit_positions bits =
     concat (map (\<lambda>i. map (\<lambda>b. i * 8 + b) (filter (\<lambda>b. bit (bits ! i) b) [0..<8]))
       [0..<length bits])"

definition computeFrameSeniority :: "GlobalTimeReel \<Rightarrow> GlobalFrame \<Rightarrow> u64" where
  "computeFrameSeniority g frame =
     (case GlobalFrameHeader.PublicKeySignatureBls48581 (hdr frame) of
        None \<Rightarrow> word_of_int SCALE div 64
      | Some s \<Rightarrow>
          let equivocated = (case fmlookup (equivocators g) (frame_number frame) of
                 None \<Rightarrow> {} | Some e \<Rightarrow> e);
              bitCount = length (filter (\<lambda>p. p \<notin> equivocated)
                 (bit_positions (BLS48581AggregateSignature.Bitmask s)))
          in if bitCount = 0 then 0 else (word_of_int SCALE div 64) * of_nat bitCount)"

section \<open>Walking the tree\<close>

definition range_nodes :: "reel_env \<Rightarrow> GlobalTimeReel \<Rightarrow> frame_id list \<times> GlobalTimeReel" where
  "range_nodes env g = (order env (ranges g) (fmdom' (nodes g)), g\<lparr>ranges := ranges g + 1\<rparr>)"

definition findNodeBySelector ::
  "reel_env \<Rightarrow> bytes \<Rightarrow> GlobalTimeReel \<Rightarrow> frame_id option \<times> GlobalTimeReel" where
  "findNodeBySelector env sel g =
     (let (ids, g) = range_nodes env g
      in (List.find (\<lambda>i. hash env (output_of (frame_at g i)) = sel) ids, g))"

definition findLeafNodes :: "reel_env \<Rightarrow> GlobalTimeReel \<Rightarrow> frame_id list \<times> GlobalTimeReel" where
  "findLeafNodes env g =
     (let (ids, g) = range_nodes env g in (filter (\<lambda>i. Children (node g i) = {}) ids, g))"

text \<open>A node and its ancestors, by the \<^verbatim>\<open>Parent\<close> pointers.\<close>

partial_function (option) ancestors ::
  "(frame_id, GlobalFrameNode) fmap \<Rightarrow> frame_id option \<Rightarrow> frame_id list option" where
  "ancestors ns current =
     (case current of None \<Rightarrow> Some []
      | Some i \<Rightarrow>
          do { n \<leftarrow> fmlookup ns i; up \<leftarrow> ancestors ns (Parent n); Some (i # up) })"

declare ancestors.simps [code]

definition isAncestorNode :: "GlobalTimeReel \<Rightarrow> frame_id \<Rightarrow> frame_id \<Rightarrow> bool option" where
  "isAncestorNode g ancestor descendant =
     do { up \<leftarrow> ancestors (nodes g) (Some descendant); Some (ancestor \<in> set up) }"

definition findCommonAncestor ::
  "GlobalTimeReel \<Rightarrow> frame_id \<Rightarrow> frame_id \<Rightarrow> (frame_id option \<times> frame_id list) option" where
  "findCommonAncestor g node1 node2 =
     do {
       path1 \<leftarrow> ancestors (nodes g) (Some node1);
       path2 \<leftarrow> ancestors (nodes g) (Some node2);
       Some (case List.find (\<lambda>i. i \<in> set path1) path2 of
               None \<Rightarrow> (None, [])
             | Some current \<Rightarrow> (Some current, takeWhile (\<lambda>i. i \<noteq> current) path1 @ [current]))
     }"

definition getNodeLineage :: "GlobalTimeReel \<Rightarrow> frame_id \<Rightarrow> GlobalFrame list option" where
  "getNodeLineage g i = do { up \<leftarrow> ancestors (nodes g) (Some i); Some (rev (map (frame_at g) up)) }"

definition nodeToBranch :: "GlobalTimeReel \<Rightarrow> frame_id \<Rightarrow> Branch option" where
  "nodeToBranch g i =
     do {
       up \<leftarrow> ancestors (nodes g) (Some i);
       Some \<lparr>Frames = map (\<lambda>j.
         \<lparr>Distance = 0, Seniority = computeFrameSeniority g (frame_at g j),
          ProverAddress = take 32 (output_of (frame_at g j))\<rparr>)
         (rev (take maxGlobalTreeDepth up))\<rparr>
     }"

section \<open>Events and the store\<close>

definition sendEvent :: "GlobalEvent \<Rightarrow> GlobalTimeReel \<Rightarrow> GlobalTimeReel" where
  "sendEvent e g = g\<lparr>events := events g @ [e]\<rparr>"

definition sendHeadEvent ::
  "frame_id \<Rightarrow> frame_id option \<Rightarrow> GlobalTimeReel \<Rightarrow> GlobalTimeReel option" where
  "sendHeadEvent newHead oldHead g =
     (case oldHead of
        None \<Rightarrow> Some (sendEvent \<lparr>Type = TimeReelEventNewHead, GlobalEvent.Frame = frame_at g newHead,
                               OldHead = None\<rparr> g)
      | Some old \<Rightarrow>
          do {
            anc \<leftarrow> isAncestorNode g old newHead;
            Some (sendEvent
              \<lparr>Type = (if anc then TimeReelEventNewHead else TimeReelEventForkDetected),
               GlobalEvent.Frame = frame_at g newHead, OldHead = Some (frame_at g old)\<rparr> g)
          })"

definition persistCanonicalFrames ::
  "reel_env \<Rightarrow> GlobalFrame list \<Rightarrow> GlobalTimeReel \<Rightarrow> bool \<times> GlobalTimeReel" where
  "persistCanonicalFrames env frames g =
     (if frames = [] then (True, g)
      else if \<not> commits env \<or> \<not> list_all (materialized env) frames then (False, g)
      else
        let g = g\<lparr>stored := stored g @ [Persist frames]\<rparr>
        in (True,
            (case head g of
               None \<Rightarrow> g
             | Some h \<Rightarrow>
                 if \<not> archiveMode g \<and> frame_number (frame_at g h) > of_nat maxGlobalTreeDepth
                 then g\<lparr>stored := stored g @
                   [DeleteRange 0 (frame_number (frame_at g h) - of_nat maxGlobalTreeDepth + 1)]\<rparr>
                 else g)))"

definition rewindFrames :: "reel_env \<Rightarrow> frame_id list \<Rightarrow> GlobalTimeReel \<Rightarrow> GlobalTimeReel" where
  "rewindFrames env revertNodes g =
     (let frames = filter (\<lambda>f. frame_number f \<noteq> 244200) (map (frame_at g) revertNodes)
      in if revertNodes = [] \<or> \<not> commits env \<or> \<not> list_all (reverted env) frames then g
         else g\<lparr>stored := stored g @ [Rewind frames]\<rparr>)"

definition emitReplayEvents ::
  "reel_env \<Rightarrow> frame_id \<Rightarrow> frame_id \<Rightarrow> GlobalTimeReel \<Rightarrow> GlobalTimeReel option" where
  "emitReplayEvents env commonAncestor newHead g =
     do {
       up \<leftarrow> ancestors (nodes g) (Some newHead);
       let frames = map (frame_at g) (rev (takeWhile (\<lambda>i. i \<noteq> commonAncestor) up));
       let g = snd (persistCanonicalFrames env frames g);
       Some (fold (\<lambda>f. sendEvent \<lparr>Type = TimeReelEventNewHead, GlobalEvent.Frame = f,
                                OldHead = None\<rparr>) frames g)
     }"

section \<open>Fork choice\<close>

text \<open>The head moves to a branch that does not contain the old head.\<close>

definition reorganize ::
  "reel_env \<Rightarrow> frame_id \<Rightarrow> frame_id \<Rightarrow> GlobalTimeReel \<Rightarrow> GlobalTimeReel option" where
  "reorganize env oldHead chosen g =
     do {
       (commonAncestor, reverts) \<leftarrow> findCommonAncestor g oldHead chosen;
       let g = sendEvent \<lparr>Type = TimeReelEventForkDetected, GlobalEvent.Frame = frame_at g chosen,
                          OldHead = Some (frame_at g oldHead)\<rparr> g;
       let g = (if reverts \<noteq> [] then rewindFrames env reverts g else g);
       (case commonAncestor of
          None \<Rightarrow> Some g
        | Some a \<Rightarrow> emitReplayEvents env a chosen g)
     }"

definition advance_event :: "frame_id \<Rightarrow> frame_id \<Rightarrow> GlobalTimeReel \<Rightarrow> GlobalTimeReel" where
  "advance_event oldHead chosen g =
     sendEvent \<lparr>Type = TimeReelEventNewHead, GlobalEvent.Frame = frame_at g chosen,
                OldHead = Some (frame_at g oldHead)\<rparr> g"

text \<open>The index of the head among the competing leaves, 0 when it is not one of them.\<close>

definition prev_choice :: "frame_id \<Rightarrow> frame_id list \<Rightarrow> nat" where
  "prev_choice h competingLeaves =
     (let k = length (takeWhile (\<lambda>i. i \<noteq> h) competingLeaves)
      in if k < length competingLeaves then k else 0)"

definition evaluateForkChoice ::
  "reel_env \<Rightarrow> frame_id \<Rightarrow> GlobalTimeReel \<Rightarrow> GlobalTimeReel option" where
  "evaluateForkChoice env newNode g =
     (case head g of
        None \<Rightarrow> sendHeadEvent newNode None (g\<lparr>head := Some newNode\<rparr>)
      | Some h \<Rightarrow>
          let (leafNodes, g) = findLeafNodes env g
          in if length leafNodes \<le> 1
             then (if depth_at g newNode > depth_at g h
                   then let g = g\<lparr>head := Some newNode\<rparr>;
                            g = snd (persistCanonicalFrames env [frame_at g newNode] g)
                        in sendHeadEvent newNode (Some h) g
                   else Some g)
             else
               let maxDepth = fold max (map (depth_at g) leafNodes) 0;
                   competingLeaves = filter (\<lambda>i. depth_at g i = maxDepth) leafNodes
               in (case competingLeaves of
                     [chosen] \<Rightarrow>
                       if chosen = h then Some g
                       else do {
                         let g = g\<lparr>head := Some chosen\<rparr>;
                         anc \<leftarrow> isAncestorNode g h chosen;
                         if \<not> anc then reorganize env h chosen g
                         else Some (advance_event h chosen
                           (snd (persistCanonicalFrames env [frame_at g newNode] g)))
                       }
                   | _ \<Rightarrow>
                       do {
                         branches \<leftarrow> those (map (nodeToBranch g) competingLeaves);
                         chosenIndex \<leftarrow> ForkChoice branches (forkChoiceParams g)
                           (int (prev_choice h competingLeaves));
                         if chosenIndex < 0 \<or> int (length competingLeaves) \<le> chosenIndex then None
                         else
                           let chosen = competingLeaves ! nat chosenIndex
                           in if chosen = h then Some g
                              else do {
                                let g = g\<lparr>head := Some chosen\<rparr>;
                                anc \<leftarrow> isAncestorNode g h chosen;
                                if \<not> anc then reorganize env h chosen g
                                else Some (advance_event h chosen g)
                              }
                       }))"

section \<open>Inserting frames\<close>

text \<open>The steps that make a frame a node below \<open>parent\<close>.\<close>

definition link_node ::
  "reel_env \<Rightarrow> GlobalFrame \<Rightarrow> frame_id \<Rightarrow> GlobalTimeReel \<Rightarrow> GlobalTimeReel" where
  "link_node env frame parent g =
     (let i = ComputeFrameID env frame; p = node g parent;
          n = \<lparr>GlobalFrameNode.Frame = frame, Parent = Some parent, Children = {},
               Depth = Depth p + 1\<rparr>;
          k = frame_number frame;
          at_k = (case fmlookup (framesByNumber g) k of None \<Rightarrow> [] | Some l \<Rightarrow> l)
      in g\<lparr>nodes := fmupd parent (p\<lparr>Children := insert i (Children p)\<rparr>) (fmupd i n (nodes g)),
           framesByNumber := fmupd k (at_k @ [i]) (framesByNumber g)\<rparr>)"

definition pending_at :: "GlobalTimeReel \<Rightarrow> bytes \<Rightarrow> GlobalPendingFrame list" where
  "pending_at g sel = (case fmlookup (pendingFrames g) sel of None \<Rightarrow> [] | Some l \<Rightarrow> l)"

definition addPendingFrame :: "GlobalFrame \<Rightarrow> GlobalTimeReel \<Rightarrow> GlobalTimeReel" where
  "addPendingFrame frame g =
     (let sel = selector_of frame;
          p = \<lparr>GlobalPendingFrame.Frame = frame, ParentSelector = sel,
               GlobalPendingFrame.Timestamp = GlobalFrameHeader.Timestamp (hdr frame)\<rparr>
      in g\<lparr>pendingFrames := fmupd sel (pending_at g sel @ [p]) (pendingFrames g)\<rparr>)"

text \<open>
  \<^verbatim>\<open>processPendingFrames\<close>: the list waiting for a new parent is taken out of the map and its
  frames become nodes one by one, each followed by the frames that wait for it.
\<close>

partial_function (option) process_list ::
  "reel_env \<Rightarrow> frame_id \<Rightarrow> GlobalPendingFrame list \<Rightarrow> GlobalTimeReel \<Rightarrow> GlobalTimeReel option" where
  "process_list env parent pendingList g =
     (case pendingList of [] \<Rightarrow> Some g
      | p # ps \<Rightarrow>
          let frame = GlobalPendingFrame.Frame p; i = ComputeFrameID env frame
          in if fmlookup (nodes g) i \<noteq> None then process_list env parent ps g
             else do {
               let g = link_node env frame parent g;
               let sel = hash env (output_of frame);
               g \<leftarrow> (if pending_at g sel = [] then Some g
                    else process_list env i (pending_at g sel)
                      (g\<lparr>pendingFrames := fmdrop sel (pendingFrames g)\<rparr>));
               g \<leftarrow> evaluateForkChoice env i g;
               process_list env parent ps g
             })"

declare process_list.simps [code]

definition processPendingFrames ::
  "reel_env \<Rightarrow> frame_id \<Rightarrow> GlobalTimeReel \<Rightarrow> GlobalTimeReel option" where
  "processPendingFrames env parent g =
     (let sel = hash env (output_of (frame_at g parent))
      in if pending_at g sel = [] then Some g
         else process_list env parent (pending_at g sel)
           (g\<lparr>pendingFrames := fmdrop sel (pendingFrames g)\<rparr>))"

section \<open>Pruning\<close>

text \<open>The kept children of a pruned node lose their parent.\<close>

definition detach_children :: "nat \<Rightarrow> frame_id \<Rightarrow> GlobalTimeReel \<Rightarrow> GlobalTimeReel" where
  "detach_children minDepthToKeep i g =
     g\<lparr>nodes := fmmap_keys (\<lambda>c n. if c \<in> Children (node g i) \<and> Depth n \<ge> minDepthToKeep
                                  then n\<lparr>Parent := None\<rparr> else n) (nodes g)\<rparr>"

definition new_root ::
  "reel_env \<Rightarrow> nat \<Rightarrow> GlobalTimeReel \<Rightarrow> frame_id option \<times> GlobalTimeReel" where
  "new_root env minDepthToKeep g =
     (let (ids, g) = range_nodes env g
      in (fold (\<lambda>i r. if depth_at g i = minDepthToKeep \<and>
                       (case r of None \<Rightarrow> True
                        | Some r' \<Rightarrow> frame_number (frame_at g i) < frame_number (frame_at g r'))
                      then Some i else r) ids None, g))"

text \<open>A pruned node leaves the map, the index and the children of its parent.\<close>

definition drop_node :: "reel_env \<Rightarrow> frame_id \<Rightarrow> GlobalTimeReel \<Rightarrow> GlobalTimeReel" where
  "drop_node env i g =
     (let n = node g i; k = frame_number (GlobalFrameNode.Frame n);
          frameID = ComputeFrameID env (GlobalFrameNode.Frame n);
          ns = fmdrop frameID (nodes g);
          byNum = (case fmlookup (framesByNumber g) k of
                     None \<Rightarrow> framesByNumber g
                   | Some l \<Rightarrow>
                       let l' = filter (\<lambda>j. j \<noteq> i) l
                       in if l' = [] then fmdrop k (framesByNumber g)
                          else fmupd k l' (framesByNumber g));
          ns = (case Parent n of
                  None \<Rightarrow> ns
                | Some p \<Rightarrow> (case fmlookup ns p of
                    None \<Rightarrow> ns
                  | Some m \<Rightarrow> fmupd p (m\<lparr>Children := Children m - {frameID}\<rparr>) ns))
      in g\<lparr>nodes := ns, framesByNumber := byNum\<rparr>)"

definition prune_node :: "reel_env \<Rightarrow> nat \<Rightarrow> frame_id \<Rightarrow> GlobalTimeReel \<Rightarrow> GlobalTimeReel" where
  "prune_node env minDepthToKeep i g =
     (let g' = drop_node env i g
      in if root g = Some i
         then (case new_root env minDepthToKeep g' of
                 (None, g') \<Rightarrow> g'\<lparr>root := None\<rparr>
               | (Some r, g') \<Rightarrow>
                   g'\<lparr>root := Some r, nodes := fmupd r ((node g' r)\<lparr>Parent := None\<rparr>) (nodes g')\<rparr>)
         else g')"

definition pruneOldFrames :: "reel_env \<Rightarrow> GlobalTimeReel \<Rightarrow> GlobalTimeReel" where
  "pruneOldFrames env g =
     (case head g of
        None \<Rightarrow> g
      | Some h \<Rightarrow>
          if depth_at g h < maxGlobalTreeDepth then g
          else
            let minDepthToKeep = depth_at g h - maxGlobalTreeDepth + 1;
                (ids, g) = range_nodes env g;
                nodesToPrune = filter (\<lambda>i. depth_at g i < minDepthToKeep) ids
            in fold (prune_node env minDepthToKeep) nodesToPrune
                 (fold (detach_children minDepthToKeep) nodesToPrune g))"

definition maxPendingAge :: int where
  "maxPendingAge = 5 * 60 * 1000"

definition pruneOldPendingFrames :: "reel_env \<Rightarrow> GlobalTimeReel \<Rightarrow> GlobalTimeReel" where
  "pruneOldPendingFrames env g =
     (let filtered = fmmap (filter (\<lambda>p.
            sint (clock env - GlobalPendingFrame.Timestamp p) \<le> maxPendingAge)) (pendingFrames g)
      in g\<lparr>pendingFrames := fmfilter (\<lambda>sel. fmlookup filtered sel \<noteq> Some []) filtered\<rparr>)"

section \<open>The operations\<close>

definition insertGenesisFrame ::
  "reel_env \<Rightarrow> GlobalFrame \<Rightarrow> frame_id \<Rightarrow> GlobalTimeReel
    \<Rightarrow> ((reel_error + unit) \<times> GlobalTimeReel) option" where
  "insertGenesisFrame env frame frameID g =
     (if root g \<noteq> None \<and> archiveMode g then Some (Inl GenesisExists, g)
      else if root g \<noteq> None \<and> frame_number frame \<ge> frame_number (frame_at g (the (root g)))
      then Some (Inl NotOlderThanRoot, g)
      else
        let n = \<lparr>GlobalFrameNode.Frame = frame, Parent = None, Children = {}, Depth = 0\<rparr>;
            g = g\<lparr>root := Some frameID, nodes := fmupd frameID n (nodes g),
                  framesByNumber := fmupd (frame_number frame) [frameID] (framesByNumber g),
                  head := Some frameID\<rparr>;
            (ok, g) = persistCanonicalFrames env [frame] g
        in if \<not> ok then Some (Inl PersistFailed, g)
           else do {
             let g = sendEvent \<lparr>Type = TimeReelEventNewHead, GlobalEvent.Frame = frame,
                                OldHead = None\<rparr> g;
             g \<leftarrow> processPendingFrames env frameID g;
             Some (Inr (), pruneOldFrames env g)
           })"

definition mark_equivocation :: "GlobalFrame \<Rightarrow> frame_id \<Rightarrow> GlobalTimeReel \<Rightarrow> GlobalTimeReel" where
  "mark_equivocation frame i g =
     (if \<not> isEqualGlobalFrame (frame_at g i) frame \<and> hasOverlappingBits (frame_at g i) frame
      then
        let k = frame_number frame;
            old = (case fmlookup (equivocators g) k of None \<Rightarrow> {} | Some e \<Rightarrow> e);
            common = (case (GlobalFrameHeader.PublicKeySignatureBls48581 (hdr (frame_at g i)),
                          GlobalFrameHeader.PublicKeySignatureBls48581 (hdr frame)) of
                (Some s, Some t) \<Rightarrow>
                  set (bit_positions (overlap (BLS48581AggregateSignature.Bitmask s)
                    (BLS48581AggregateSignature.Bitmask t)))
              | _ \<Rightarrow> {})
        in sendEvent \<lparr>Type = TimeReelEventEquivocationDetected, GlobalEvent.Frame = frame,
                      OldHead = None\<rparr>
             (g\<lparr>equivocators := fmupd k (old \<union> common) (equivocators g)\<rparr>)
      else g)"

definition Insert ::
  "reel_env \<Rightarrow> GlobalFrame \<Rightarrow> GlobalTimeReel \<Rightarrow> ((reel_error + unit) \<times> GlobalTimeReel) option" where
  "Insert env frame g =
     (if GlobalFrame.Header frame = None then None
      else
        let frameID = ComputeFrameID env frame
        in if fmlookup (nodes g) frameID \<noteq> None then Some (Inr (), g)
           else
             let atHeight = (case fmlookup (framesByNumber g) (frame_number frame) of
                   None \<Rightarrow> [] | Some l \<Rightarrow> l);
                 g = fold (mark_equivocation frame) atHeight g
             in if frame_number frame = genesisFrameNumber g
                then insertGenesisFrame env frame frameID g
                else if \<not> archiveMode g \<and> root g = None \<and> nodes g = fmempty
                then insertGenesisFrame env frame frameID g
                else
                  (case findNodeBySelector env (selector_of frame) g of
                     (None, g) \<Rightarrow>
                       (case head g of
                          Some h \<Rightarrow>
                            if \<not> archiveMode g \<and>
                               \<not> (frame_number frame > frame_number (frame_at g h) \<and>
                                  frame_number frame \<le> frame_number (frame_at g h) + 10) \<and>
                               frame_number frame < frame_number (frame_at g h) \<and>
                               frame_number (frame_at g h) - frame_number frame >
                                 of_nat maxGlobalTreeDepth
                            then Some (Inr (), g)
                            else Some (Inr (), addPendingFrame frame g)
                        | None \<Rightarrow> Some (Inr (), addPendingFrame frame g))
                   | (Some parent, g) \<Rightarrow>
                       if hash env (output_of (frame_at g parent)) \<noteq> selector_of frame
                       then Some (Inl SelectorMismatch, g)
                       else do {
                         let g = link_node env frame parent g;
                         g \<leftarrow> processPendingFrames env frameID g;
                         g \<leftarrow> evaluateForkChoice env frameID g;
                         Some (Inr (), pruneOldPendingFrames env (pruneOldFrames env g))
                       }))"

section \<open>Loading the reel from the store\<close>

text \<open>
  One step of the loop of \<^verbatim>\<open>bootstrapFromStore\<close>, on the previously loaded node and the reel.
\<close>

definition load_frame ::
  "reel_env \<Rightarrow> u64 \<Rightarrow> GlobalFrame \<Rightarrow> frame_id option \<times> GlobalTimeReel \<Rightarrow> frame_id option \<times> GlobalTimeReel"
where
  "load_frame env start frame st =
     (let (prev, g) = st; i = ComputeFrameID env frame;
          (parent, g) =
            (case prev of
               Some p \<Rightarrow> if selector_of frame = hash env (output_of (frame_at g p)) then (Some p, g)
                         else findNodeBySelector env (selector_of frame) g
             | None \<Rightarrow> findNodeBySelector env (selector_of frame) g);
          n = \<lparr>GlobalFrameNode.Frame = frame, Parent = parent, Children = {},
               Depth = (case parent of None \<Rightarrow> 0 | Some p \<Rightarrow> depth_at g p + 1)\<rparr>;
          ns = (case parent of None \<Rightarrow> nodes g
                | Some p \<Rightarrow> fmupd p ((node g p)\<lparr>Children := insert i (Children (node g p))\<rparr>) (nodes g));
          k = frame_number frame;
          at_k = (case fmlookup (framesByNumber g) k of None \<Rightarrow> [] | Some l \<Rightarrow> l)
      in (Some i,
          g\<lparr>root := (if root g = None \<or> \<not> archiveMode g \<and> k = start then Some i else root g),
            nodes := fmupd i n ns, framesByNumber := fmupd k (at_k @ [i]) (framesByNumber g),
            head := Some i\<rparr>))"

text \<open>
  \<open>latest\<close> is the answer of \<^verbatim>\<open>GetLatestGlobalClockFrame\<close> (\<^const>\<open>None\<close> for an empty store) and
  \<open>between\<close> the frames of \<^verbatim>\<open>RangeGlobalClockFrames\<close>; failing reads end the start of the reel and
  are left out.
\<close>

definition bootstrapFromStore ::
  "reel_env \<Rightarrow> GlobalFrame option \<Rightarrow> (u64 \<Rightarrow> u64 \<Rightarrow> GlobalFrame list) \<Rightarrow> GlobalTimeReel \<Rightarrow> GlobalTimeReel"
where
  "bootstrapFromStore env latest between g =
     (case latest of None \<Rightarrow> g
      | Some f \<Rightarrow>
          let latestNum = frame_number f;
              start = (if \<not> archiveMode g \<and> latestNum + 1 > of_nat maxGlobalTreeDepth
                       then latestNum - (of_nat maxGlobalTreeDepth - 1) else genesisFrameNumber g)
          in snd (fold (load_frame env start) (between start latestNum) (None, g)))"

section \<open>Queries\<close>

definition GetHead :: "GlobalTimeReel \<Rightarrow> GlobalFrame option" where
  "GetHead g = map_option (frame_at g) (head g)"

definition GetFrame :: "GlobalTimeReel \<Rightarrow> frame_id \<Rightarrow> GlobalFrame option" where
  "GetFrame g i = map_option GlobalFrameNode.Frame (fmlookup (nodes g) i)"

definition GetFramesByNumber :: "GlobalTimeReel \<Rightarrow> u64 \<Rightarrow> GlobalFrame list option" where
  "GetFramesByNumber g k =
     (case fmlookup (framesByNumber g) k of None \<Rightarrow> None
      | Some l \<Rightarrow> if l = [] then None else Some (map (frame_at g) l))"

definition GetLineage :: "GlobalTimeReel \<Rightarrow> GlobalFrame list option option" where
  "GetLineage g =
     (case head g of None \<Rightarrow> Some None | Some h \<Rightarrow> map_option Some (getNodeLineage g h))"

definition GetNodeLineage :: "GlobalTimeReel \<Rightarrow> frame_id \<Rightarrow> GlobalFrame list option option" where
  "GetNodeLineage g i =
     (if fmlookup (nodes g) i = None then Some None else map_option Some (getNodeLineage g i))"

definition GetBranchTips :: "reel_env \<Rightarrow> GlobalTimeReel \<Rightarrow> GlobalFrame list" where
  "GetBranchTips env g = map (frame_at g) (fst (findLeafNodes env g))"

definition GetChildFrames :: "reel_env \<Rightarrow> GlobalTimeReel \<Rightarrow> frame_id \<Rightarrow> GlobalFrame list option" where
  "GetChildFrames env g parentFrameID =
     (case fmlookup (nodes g) parentFrameID of None \<Rightarrow> None
      | Some parent \<Rightarrow> Some (map (frame_at g) (order env (ranges g) (Children parent))))"

definition GetPendingFrames :: "GlobalTimeReel \<Rightarrow> (bytes, GlobalFrame list) fmap" where
  "GetPendingFrames g = fmmap (map GlobalPendingFrame.Frame) (pendingFrames g)"

record TreeInfo =
  total_nodes :: nat
  pending_frames :: nat
  head_depth :: "nat option"
  head_frame_number :: "u64 option"
  pruning_needed :: bool
  branch_count :: nat
  max_depth :: u64
  min_depth :: u64
  tree_span :: u64
  total_pending :: nat

definition GetTreeInfo :: "reel_env \<Rightarrow> GlobalTimeReel \<Rightarrow> TreeInfo" where
  "GetTreeInfo env g =
     (let ids = order env (ranges g) (fmdom' (nodes g));
          depths = map (\<lambda>i. of_nat (depth_at g i)) ids;
          maxDepth = fold max depths (0 :: u64);
          minDepth = (if nodes g = fmempty then 0 else fold min depths (NOT 0))
      in \<lparr>total_nodes = card (fmdom' (nodes g)), pending_frames = card (fmdom' (pendingFrames g)),
          head_depth = map_option (depth_at g) (head g),
          head_frame_number = map_option (\<lambda>h. frame_number (frame_at g h)) (head g),
          pruning_needed = (case head g of None \<Rightarrow> False | Some h \<Rightarrow> depth_at g h \<ge> 360),
          branch_count = length (fst (findLeafNodes env g)),
          max_depth = maxDepth, min_depth = minDepth, tree_span = maxDepth - minDepth + 1,
          total_pending = (\<Sum>sel \<in> fmdom' (pendingFrames g). length (pending_at g sel))\<rparr>)"

definition SetForkChoiceParams :: "Params \<Rightarrow> GlobalTimeReel \<Rightarrow> GlobalTimeReel" where
  "SetForkChoiceParams params g = g\<lparr>forkChoiceParams := params\<rparr>"

section \<open>Well-formed reels\<close>

text \<open>
  Every node has a header and its own ID; a parent pointer leads to a node one level up that lists
  the child and whose output hashes to the child's selector; listed children point back.
\<close>

definition tree_ok :: "reel_env \<Rightarrow> (frame_id, GlobalFrameNode) fmap \<Rightarrow> bool" where
  "tree_ok env ns \<longleftrightarrow>
     (\<forall>i n. fmlookup ns i = Some n \<longrightarrow>
        GlobalFrame.Header (GlobalFrameNode.Frame n) \<noteq> None \<and>
        ComputeFrameID env (GlobalFrameNode.Frame n) = i \<and>
        (\<forall>p. Parent n = Some p \<longrightarrow>
           (\<exists>m. fmlookup ns p = Some m \<and> Depth n = Depth m + 1 \<and> i \<in> Children m \<and>
              selector_of (GlobalFrameNode.Frame n) = hash env (output_of (GlobalFrameNode.Frame m)))) \<and>
        (\<forall>c \<in> Children n. \<exists>m. fmlookup ns c = Some m \<and> Parent m = Some i))"

text \<open>
  There is a head as soon as there is a node; the index lists nodes under their number; frames
  wait under their own selector.
\<close>

definition reel_ok :: "reel_env \<Rightarrow> GlobalTimeReel \<Rightarrow> bool" where
  "reel_ok env g \<longleftrightarrow>
     tree_ok env (nodes g) \<and>
     (\<forall>i. head g = Some i \<or> root g = Some i \<longrightarrow> fmlookup (nodes g) i \<noteq> None) \<and>
     (head g = None \<longrightarrow> nodes g = fmempty) \<and>
     (\<forall>k l. fmlookup (framesByNumber g) k = Some l \<longrightarrow>
        (\<forall>i \<in> set l. fmlookup (nodes g) i \<noteq> None \<and> frame_number (frame_at g i) = k)) \<and>
     (\<forall>sel. \<forall>p \<in> set (pending_at g sel).
        GlobalFrame.Header (GlobalPendingFrame.Frame p) \<noteq> None \<and>
        selector_of (GlobalPendingFrame.Frame p) = sel) \<and>
     params_ok (forkChoiceParams g)"

definition fair_order :: "reel_env \<Rightarrow> bool" where
  "fair_order env \<longleftrightarrow> (\<forall>k S. finite S \<longrightarrow> set (order env k S) = S \<and> distinct (order env k S))"

definition deepest :: "GlobalTimeReel \<Rightarrow> bool" where
  "deepest g \<longleftrightarrow>
     (\<exists>h. head g = Some h \<and> fmlookup (nodes g) h \<noteq> None \<and>
        (\<forall>i n. fmlookup (nodes g) i = Some n \<longrightarrow> Depth n \<le> depth_at g h))"

lemma tree_okD:
  assumes "tree_ok env ns" and "fmlookup ns i = Some n"
  shows "GlobalFrame.Header (GlobalFrameNode.Frame n) \<noteq> None"
    and "ComputeFrameID env (GlobalFrameNode.Frame n) = i"
    and "Parent n = Some p \<Longrightarrow> \<exists>m. fmlookup ns p = Some m \<and> Depth n = Depth m + 1 \<and> i \<in> Children m \<and>
      selector_of (GlobalFrameNode.Frame n) = hash env (output_of (GlobalFrameNode.Frame m))"
    and "c \<in> Children n \<Longrightarrow> \<exists>m. fmlookup ns c = Some m \<and> Parent m = Some i"
  using assms unfolding tree_ok_def by blast+

text \<open>Walks along the parent pointers end.\<close>

lemma ancestors_total:
  assumes "tree_ok env ns"
  shows "fmlookup ns i = Some n \<Longrightarrow>
    \<exists>up. ancestors ns (Some i) = Some (i # up) \<and>
      (\<forall>j \<in> set up. \<exists>m. fmlookup ns j = Some m \<and> Depth m < Depth n)"
proof (induction "Depth n" arbitrary: i n rule: less_induct)
  case less
  show ?case
  proof (cases "Parent n")
    case None
    with less.prems show ?thesis by (subst ancestors.simps) (simp add: ancestors.simps [of _ None])
  next
    case (Some p)
    from tree_okD(3) [OF assms less.prems this] obtain m where
      m: "fmlookup ns p = Some m" "Depth n = Depth m + 1" by blast
    from less.hyps [OF _ m(1)] m(2) obtain up where
      up: "ancestors ns (Some p) = Some (p # up)"
        "\<forall>j \<in> set up. \<exists>m'. fmlookup ns j = Some m' \<and> Depth m' < Depth m" by auto
    with less.prems Some m show ?thesis
      by (subst ancestors.simps) (auto simp: less_Suc_eq)
  qed
qed

section \<open>Choosing the head\<close>

text \<open>The tree, the index and the pending frames are left alone; then also the head.\<close>

definition same_tree :: "GlobalTimeReel \<Rightarrow> GlobalTimeReel \<Rightarrow> bool" where
  "same_tree g g' \<longleftrightarrow>
     nodes g' = nodes g \<and> framesByNumber g' = framesByNumber g \<and>
     pendingFrames g' = pendingFrames g \<and> root g' = root g \<and>
     forkChoiceParams g' = forkChoiceParams g \<and> equivocators g' = equivocators g \<and>
     genesisFrameNumber g' = genesisFrameNumber g \<and> archiveMode g' = archiveMode g"

definition quiet :: "GlobalTimeReel \<Rightarrow> GlobalTimeReel \<Rightarrow> bool" where
  "quiet g g' \<longleftrightarrow> same_tree g g' \<and> head g' = head g"

named_theorems quiet_intros

lemma quiet_refl [quiet_intros]: "quiet g g"
  by (simp add: quiet_def same_tree_def)

lemma quiet_trans: "quiet g g' \<Longrightarrow> quiet g' g'' \<Longrightarrow> quiet g g''"
  by (simp add: quiet_def same_tree_def)

lemma quiet_sendEvent [quiet_intros]: "quiet g (sendEvent e g)"
  by (simp add: quiet_def same_tree_def sendEvent_def)

lemma quiet_persist [quiet_intros]: "quiet g (snd (persistCanonicalFrames env fs g))"
  by (simp add: quiet_def same_tree_def persistCanonicalFrames_def Let_def split: option.splits)

lemma quiet_rewind [quiet_intros]: "quiet g (rewindFrames env is g)"
  by (simp add: quiet_def same_tree_def rewindFrames_def Let_def)

lemma quiet_fold:
  assumes "\<And>x g. quiet g (f x g)"
  shows "quiet g (fold f xs g)"
  by (induction xs arbitrary: g) (auto intro: quiet_refl quiet_trans assms)

lemma range_nodes_ok:
  assumes "fair_order env" and "range_nodes env g = (ids, g')"
  shows "quiet g g'" and "set ids = fmdom' (nodes g)" and "distinct ids"
  using assms by (auto simp: range_nodes_def fair_order_def quiet_def same_tree_def)

lemma emitReplayEvents_ok:
  assumes "tree_ok env (nodes g)" and "fmlookup (nodes g) new \<noteq> None"
  shows "\<exists>g'. emitReplayEvents env a new g = Some g' \<and> quiet g g'"
proof -
  from assms ancestors_total obtain up where "ancestors (nodes g) (Some new) = Some up" by blast
  then obtain frames where "emitReplayEvents env a new g =
      Some (fold (\<lambda>f. sendEvent \<lparr>Type = TimeReelEventNewHead, GlobalEvent.Frame = f, OldHead = None\<rparr>)
        frames (snd (persistCanonicalFrames env frames g)))"
    by (simp add: emitReplayEvents_def Let_def)
  moreover have "quiet g (fold (\<lambda>f. sendEvent \<lparr>Type = TimeReelEventNewHead, GlobalEvent.Frame = f,
      OldHead = None\<rparr>) frames (snd (persistCanonicalFrames env frames g)))"
    by (rule quiet_trans [OF quiet_persist quiet_fold]) (rule quiet_sendEvent)
  ultimately show ?thesis by simp
qed

lemma reorganize_ok:
  assumes tree: "tree_ok env (nodes g)"
    and "fmlookup (nodes g) old \<noteq> None" and new: "fmlookup (nodes g) new \<noteq> None"
  shows "\<exists>g'. reorganize env old new g = Some g' \<and> quiet g g'"
proof -
  from assms ancestors_total obtain up1 up2 where
    "ancestors (nodes g) (Some old) = Some up1" "ancestors (nodes g) (Some new) = Some up2" by blast
  then obtain r where "findCommonAncestor g old new = Some r" by (simp add: findCommonAncestor_def)
  then obtain a reverts where fca: "findCommonAncestor g old new = Some (a, reverts)"
    by (cases r) auto
  define g1 where "g1 = sendEvent \<lparr>Type = TimeReelEventForkDetected,
      GlobalEvent.Frame = frame_at g new, OldHead = Some (frame_at g old)\<rparr> g"
  define g2 where "g2 = (if reverts \<noteq> [] then rewindFrames env reverts g1 else g1)"
  have q: "quiet g g2"
    unfolding g1_def g2_def by (auto intro: quiet_trans quiet_intros)
  then have "nodes g2 = nodes g" by (simp add: quiet_def same_tree_def)
  with tree new emitReplayEvents_ok [of env g2 new] q have
    replay: "\<exists>g'. emitReplayEvents env b new g2 = Some g' \<and> quiet g g'" for b
    by (metis quiet_trans)
  have "reorganize env old new g =
      (case a of None \<Rightarrow> Some g2 | Some a \<Rightarrow> emitReplayEvents env a new g2)"
    unfolding g1_def g2_def using fca by (simp add: reorganize_def Let_def)
  with q replay show ?thesis by (cases a) auto
qed

lemma isAncestorNode_ok:
  assumes "tree_ok env (nodes g)" and "fmlookup (nodes g) i \<noteq> None"
  shows "\<exists>b. isAncestorNode g a i = Some b"
  using assms ancestors_total by (fastforce simp: isAncestorNode_def)

lemma sendHeadEvent_ok:
  assumes "tree_ok env (nodes g)" and "fmlookup (nodes g) new \<noteq> None"
  shows "\<exists>g'. sendHeadEvent new old g = Some g' \<and> quiet g g'"
  using isAncestorNode_ok [OF assms, of "the old"]
  by (cases old) (auto simp: sendHeadEvent_def intro: quiet_sendEvent)

text \<open>The node a fork choice settles on becomes the head, whichever way it is announced.\<close>

lemma settle_ok:
  assumes tree: "tree_ok env (nodes g)" and "fmlookup (nodes g) h \<noteq> None"
    and "fmlookup (nodes g) c \<noteq> None"
    and adv: "\<And>g'. quiet g' (f g')"
  shows "\<exists>g'. (let g = g\<lparr>head := Some c\<rparr> in
      isAncestorNode g h c \<bind> (\<lambda>anc. if \<not> anc then reorganize env h c g else Some (f g))) = Some g' \<and>
    same_tree g g' \<and> head g' = Some c"
proof -
  let ?g = "g\<lparr>head := Some c\<rparr>"
  from isAncestorNode_ok [of env ?g c h] tree assms(3) obtain b where
    b: "isAncestorNode ?g h c = Some b" by auto
  from reorganize_ok [of env ?g h c] assms obtain g1 where
    "reorganize env h c ?g = Some g1" "quiet ?g g1" by auto
  with b adv [of ?g] show ?thesis
    by (cases b) (auto simp: quiet_def same_tree_def)
qed

lemma those_map_total:
  assumes "\<forall>x \<in> set xs. \<exists>y. f x = Some y"
  shows "\<exists>ys. those (map f xs) = Some ys \<and> length ys = length xs"
  using assms by (induction xs) auto

lemma ForkChoice_total:
  assumes "params_ok cfg" and "0 \<le> prev" and "prev < int (length branches)"
  shows "\<exists>r. ForkChoice branches cfg prev = Some r \<and> 0 \<le> r \<and> r < int (length branches)"
proof -
  define score where "score i = the (branchScore (branches ! nat i) cfg)" for i :: int
  have sc: "branchScore (branches ! nat i) cfg = Some (score i)" for i
    using branchScore_ok [OF assms(1), of "branches ! nat i"] by (metis option.sel score_def)
  have "\<And>i. i < length branches \<Longrightarrow> branchScore (branches ! i) cfg = Some (score (int (0 + i)))"
    using sc by (metis add_0 nat_int)
  from choose_branch_spec [OF this, of prev] obtain r where
    r: "choose_branch cfg branches 0 prev (score prev) = Some r"
      "r = prev \<or> 0 \<le> r \<and> r < int (length branches)" by auto
  from r(1) sc [of prev] assms(2, 3) have "ForkChoice branches cfg prev = Some r"
    by (simp add: ForkChoice_def)
  with r(2) assms(2, 3) show ?thesis by auto
qed

lemma fold_max_Max: "fold max xs (a :: nat) = Max (insert a (set xs))"
  using Max.set_eq_fold [of a xs] by simp

end
