(* ===== verification/Global_Reel_Safety.thy ===== *)
theory Global_Reel_Safety
  imports Global_Time_Reel
begin

text \<open>
  What fork choice and the connection of pending frames do to a well-formed global time reel.
  \<open>evaluateForkChoice_ok\<close>: the fork choice returns, leaves the tree alone and, after a new leaf, makes a
  node of greatest depth the head.  \<open>link_node_ok\<close>: a frame linked below its parent keeps the reel well
  formed.  \<open>process_list_ok\<close>: the mutual recursion that connects pending frames ends, by induction
  on the number of frames that still wait.
\<close>

section \<open>The head is a deepest node\<close>

lemma findLeafNodes_ok:
  assumes "fair_order env" and "findLeafNodes env g = (leaves, g')"
  shows "quiet g g'" and "set leaves = {i. \<exists>n. fmlookup (nodes g) i = Some n \<and> Children n = {}}"
    and "distinct leaves"
proof -
  obtain ids g1 where r: "range_nodes env g = (ids, g1)" by (cases "range_nodes env g") auto
  note ok = range_nodes_ok [OF assms(1) r]
  from assms(2) r have g': "g' = g1" "leaves = filter (\<lambda>i. Children (node g1 i) = {}) ids"
    by (auto simp: findLeafNodes_def)
  from ok(1) have "nodes g1 = nodes g" by (simp add: quiet_def same_tree_def)
  with g' ok show "quiet g g'" "distinct leaves"
    "set leaves = {i. \<exists>n. fmlookup (nodes g) i = Some n \<and> Children n = {}}"
    by (auto simp: fmdom'I fmlookup_dom'_iff)
qed

definition topmost :: "GlobalTimeReel \<Rightarrow> frame_id \<Rightarrow> bool" where
  "topmost g h \<longleftrightarrow> fmlookup (nodes g) h \<noteq> None \<and>
     (\<forall>i n. fmlookup (nodes g) i = Some n \<longrightarrow> Depth n \<le> depth_at g h)"

lemma deepest_top: "deepest g \<longleftrightarrow> (\<exists>h. head g = Some h \<and> topmost g h)"
  by (simp add: deepest_def topmost_def)

lemma top_leaf:
  assumes "tree_ok env (nodes g)" and "topmost g h"
  shows "Children (node g h) = {}"
proof (rule ccontr)
  assume "Children (node g h) \<noteq> {}"
  moreover obtain n where n: "fmlookup (nodes g) h = Some n" using assms(2) by (auto simp: topmost_def)
  ultimately obtain c where "c \<in> Children n" by auto
  from tree_okD(4) [OF assms(1) n this] obtain m where m: "fmlookup (nodes g) c = Some m"
    "Parent m = Some h" by blast
  from tree_okD(3) [OF assms(1) m] n have "Depth m = Depth n + 1" by auto
  with assms(2) m n show False by (fastforce simp: topmost_def)
qed

lemma top_exists:
  assumes "fmlookup (nodes g) j \<noteq> None"
  shows "\<exists>h. topmost g h"
proof -
  let ?D = "depth_at g ` fmdom' (nodes g)"
  have fin: "finite ?D" by simp
  from assms have ne: "?D \<noteq> {}" by (auto intro: fmdom'I)
  from Max_in [OF fin ne] obtain h where h: "h \<in> fmdom' (nodes g)" "depth_at g h = Max ?D" by auto
  have "Depth n \<le> depth_at g h" if "fmlookup (nodes g) i = Some n" for i n
  proof -
    from that have "Depth n \<in> ?D" by (force intro: fmdom'I)
    with fin h(2) show ?thesis by simp
  qed
  with h(1) show ?thesis by (auto simp: topmost_def fmlookup_dom'_iff)
qed

lemma top_depth: "topmost g h \<Longrightarrow> topmost g h' \<longleftrightarrow> fmlookup (nodes g) h' \<noteq> None \<and> depth_at g h' = depth_at g h"
  by (fastforce simp: topmost_def)

text \<open>The leaves of greatest depth are the nodes of greatest depth.\<close>

lemma competing_top:
  assumes tree: "tree_ok env (nodes g)" and "fmlookup (nodes g) j \<noteq> None"
    and leaves: "set leaves = {i. \<exists>n. fmlookup (nodes g) i = Some n \<and> Children n = {}}"
  shows "set (filter (\<lambda>i. depth_at g i = fold max (map (depth_at g) leaves) 0) leaves) = {i. topmost g i}"
proof -
  from top_exists [OF assms(2)] obtain h where h: "topmost g h" by blast
  with top_leaf [OF tree h] leaves have hl: "h \<in> set leaves" by (auto simp: topmost_def)
  have "Max (insert 0 (depth_at g ` set leaves)) = depth_at g h"
  proof (rule Max_eqI)
    fix d assume "d \<in> insert 0 (depth_at g ` set leaves)"
    with h leaves show "d \<le> depth_at g h" by (fastforce simp: topmost_def)
  qed (use hl in auto)
  then have M: "fold max (map (depth_at g) leaves) 0 = depth_at g h" by (simp add: fold_max_Max)
  have "i \<in> set leaves" if "topmost g i" for i
    using that top_leaf [OF tree that] leaves by (auto simp: topmost_def)
  moreover have "i \<in> set leaves \<Longrightarrow> fmlookup (nodes g) i \<noteq> None" for i
    using leaves by auto
  ultimately show ?thesis unfolding M using top_depth [OF h] by (auto simp del: not_None_eq)
qed

lemma sole_leaf_top:
  assumes tree: "tree_ok env (nodes g)"
    and leaves: "set leaves = {i. \<exists>n. fmlookup (nodes g) i = Some n \<and> Children n = {}}"
    and "length leaves \<le> 1" and i: "fmlookup (nodes g) i \<noteq> None" "Children (node g i) = {}"
  shows "topmost g i"
proof -
  from top_exists [OF i(1)] obtain h where h: "topmost g h" by blast
  from h top_leaf [OF tree h] i leaves have "h \<in> set leaves" "i \<in> set leaves"
    by (auto simp: topmost_def)
  with assms(3) have "h = i" by (cases leaves) auto
  with h show ?thesis by simp
qed

text \<open>What every outcome of a fork choice satisfies: the tree is as before, and the head one of its nodes.\<close>

definition settled :: "GlobalTimeReel \<Rightarrow> (frame_id \<Rightarrow> bool) \<Rightarrow> GlobalTimeReel option \<Rightarrow> bool" where
  "settled g P r \<longleftrightarrow> (\<exists>g' h. r = Some g' \<and> same_tree g g' \<and> head g' = Some h \<and>
     fmlookup (nodes g) h \<noteq> None \<and> P h)"

lemma evaluateForkChoice_few:
  assumes tree: "tree_ok env (nodes g)" and fair: "fair_order env"
    and new: "fmlookup (nodes g) new \<noteq> None" and h: "head g = Some h" "fmlookup (nodes g) h \<noteq> None"
    and lf: "findLeafNodes env g = (leaves, g1)" and few: "length leaves \<le> 1"
  shows "settled g (\<lambda>h'. Children (node g new) = {} \<or> deepest g \<longrightarrow> topmost g h')
    (evaluateForkChoice env new g)"
proof -
  note lf_ok = findLeafNodes_ok [OF fair lf]
  then have n1: "nodes g1 = nodes g" by (simp add: quiet_def same_tree_def)
  from sole_leaf_top [OF tree lf_ok(2) few new] have
    newtop: "Children (node g new) = {} \<Longrightarrow> topmost g new" .
  have headtop: "deepest g \<Longrightarrow> topmost g h" using h(1) by (auto simp: deepest_top)
  show ?thesis
  proof (cases "depth_at g new > depth_at g h")
    case False
    then have "evaluateForkChoice env new g = Some g1"
      using few lf n1 h by (simp add: evaluateForkChoice_def)
    moreover have "topmost g h" if "Children (node g new) = {} \<or> deepest g"
      using that newtop headtop False h(2) by (fastforce simp: topmost_def)
    ultimately show ?thesis using lf_ok(1) h by (auto simp: settled_def quiet_def)
  next
    case True
    define g2 where "g2 = snd (persistCanonicalFrames env [frame_at g1 new] (g1\<lparr>head := Some new\<rparr>))"
    have q2: "quiet (g1\<lparr>head := Some new\<rparr>) g2" unfolding g2_def by (rule quiet_persist)
    then have n2: "nodes g2 = nodes g" using n1 by (simp add: quiet_def same_tree_def)
    from sendHeadEvent_ok [of env g2 new "Some h"] tree new n2 obtain g3 where
      g3: "sendHeadEvent new (Some h) g2 = Some g3" "quiet g2 g3" by auto
    have "evaluateForkChoice env new g = Some g3"
      using True few lf n1 h g3(1) by (simp add: evaluateForkChoice_def g2_def)
    moreover have "same_tree g g3" "head g3 = Some new"
      using lf_ok(1) q2 g3(2) by (auto simp: quiet_def same_tree_def)
    moreover have "topmost g new" if "Children (node g new) = {} \<or> deepest g"
      using that newtop headtop True new by (fastforce simp: topmost_def)
    ultimately show ?thesis using new by (auto simp: settled_def)
  qed
qed

lemma evaluateForkChoice_many:
  assumes tree: "tree_ok env (nodes g)" and fair: "fair_order env" and params: "params_ok (forkChoiceParams g)"
    and h: "head g = Some h" "fmlookup (nodes g) h \<noteq> None"
    and lf: "findLeafNodes env g = (leaves, g1)" and many: "\<not> length leaves \<le> 1"
  shows "settled g (topmost g) (evaluateForkChoice env new g)"
proof -
  note lf_ok = findLeafNodes_ok [OF fair lf]
  then have n1: "nodes g1 = nodes g" and s1: "same_tree g g1" and h1: "head g1 = Some h"
    and p1: "forkChoiceParams g1 = forkChoiceParams g"
    using h by (simp_all add: quiet_def same_tree_def)
  define comp where "comp = filter (\<lambda>i. depth_at g1 i = fold max (map (depth_at g1) leaves) 0) leaves"
  have comp: "set comp = {i. topmost g i}"
    unfolding comp_def n1 by (rule competing_top [OF tree h(2) lf_ok(2)])
  then have "comp \<noteq> []" using top_exists [OF h(2)] by auto
  have settle: "settled g (topmost g) (if c = h then Some g1 else
      (let g = g1\<lparr>head := Some c\<rparr> in
        isAncestorNode g h c \<bind> (\<lambda>anc. if \<not> anc then reorganize env h c g else Some (f g))))"
    if c: "topmost g c" and f: "\<And>g'. quiet g' (f g')" for c f
    using settle_ok [of env g1 h c f] c f tree n1 s1 h h1
    by (auto simp: settled_def topmost_def same_tree_def)
  consider c where "comp = [c]" | "\<And>c. comp \<noteq> [c]" by blast
  then show ?thesis
  proof cases
    case 1
    let ?f = "\<lambda>g. advance_event h c (snd (persistCanonicalFrames env [frame_at g new] g))"
    have "quiet g' (?f g')" for g'
      unfolding advance_event_def by (rule quiet_trans [OF quiet_persist quiet_sendEvent])
    moreover have "topmost g c" using comp 1 by auto
    ultimately have "settled g (topmost g) (if c = h then Some g1 else
      (let g = g1\<lparr>head := Some c\<rparr> in
        isAncestorNode g h c \<bind> (\<lambda>anc. if \<not> anc then reorganize env h c g else Some (?f g))))"
      by (rule settle [rotated])
    then show ?thesis
      using 1 lf many h by (simp add: evaluateForkChoice_def comp_def [symmetric] split: if_splits)
  next
    case 2
    with \<open>comp \<noteq> []\<close> obtain a b cs where abc: "comp = a # b # cs"
      by (metis list.exhaust)
    have "\<exists>br. nodeToBranch g1 i = Some br" if "i \<in> set comp" for i
      using that comp tree n1 ancestors_total [of env "nodes g" i]
      by (fastforce simp: nodeToBranch_def topmost_def)
    then have "\<forall>i \<in> set comp. \<exists>br. nodeToBranch g1 i = Some br" by simp
    from those_map_total [OF this] obtain branches where
      br: "those (map (nodeToBranch g1) comp) = Some branches" "length branches = length comp" by blast
    have "prev_choice h comp < length comp" using abc by (simp add: prev_choice_def Let_def)
    with ForkChoice_total [of "forkChoiceParams g1" "int (prev_choice h comp)" branches] params p1 br(2)
    obtain r where r: "ForkChoice branches (forkChoiceParams g1) (int (prev_choice h comp)) = Some r"
      "0 \<le> r" "r < int (length comp)" by auto
    then have "topmost g (comp ! nat r)" using comp nth_mem [of "nat r" comp] by auto
    moreover have "quiet g' (advance_event h c g')" for c g'
      unfolding advance_event_def by (rule quiet_sendEvent)
    ultimately have "settled g (topmost g) (if comp ! nat r = h then Some g1 else
      (let g = g1\<lparr>head := Some (comp ! nat r)\<rparr> in isAncestorNode g h (comp ! nat r) \<bind>
        (\<lambda>anc. if \<not> anc then reorganize env h (comp ! nat r) g
               else Some (advance_event h (comp ! nat r) g))))" by (rule settle)
    moreover have "evaluateForkChoice env new g = (if comp ! nat r = h then Some g1 else
      (let g = g1\<lparr>head := Some (comp ! nat r)\<rparr> in isAncestorNode g h (comp ! nat r) \<bind>
        (\<lambda>anc. if \<not> anc then reorganize env h (comp ! nat r) g
               else Some (advance_event h (comp ! nat r) g))))"
      using abc br(1) r lf many h
      by (simp add: evaluateForkChoice_def comp_def [symmetric] Let_def del: those.simps list.map
          cong: if_cong)
    ultimately show ?thesis by simp
  qed
qed

lemma evaluateForkChoice_ok:
  assumes "tree_ok env (nodes g)" and "fair_order env" and "params_ok (forkChoiceParams g)"
    and "fmlookup (nodes g) new \<noteq> None" and "head g = Some h" and "fmlookup (nodes g) h \<noteq> None"
  shows "settled g (\<lambda>h'. Children (node g new) = {} \<or> deepest g \<longrightarrow> topmost g h')
    (evaluateForkChoice env new g)"
proof -
  obtain leaves g1 where lf: "findLeafNodes env g = (leaves, g1)"
    by (cases "findLeafNodes env g") auto
  show ?thesis
  proof (cases "length leaves \<le> 1")
    case True
    with assms lf show ?thesis by (intro evaluateForkChoice_few)
  next
    case False
    with assms lf have "settled g (topmost g) (evaluateForkChoice env new g)"
      by (intro evaluateForkChoice_many)
    then show ?thesis by (auto simp: settled_def)
  qed
qed

section \<open>Adding a node\<close>

text \<open>
  How a reel may grow: its nodes keep their frame, depth and parent, new nodes have parents, and
  everything else but the pending frames, the head, the index and the outputs stays.
\<close>

definition same_node :: "GlobalFrameNode \<Rightarrow> GlobalFrameNode \<Rightarrow> bool" where
  "same_node n n' \<longleftrightarrow> GlobalFrameNode.Frame n' = GlobalFrameNode.Frame n \<and> Depth n' = Depth n \<and>
     Parent n' = Parent n"

definition grows :: "GlobalTimeReel \<Rightarrow> GlobalTimeReel \<Rightarrow> bool" where
  "grows g g' \<longleftrightarrow>
     (\<forall>i n. fmlookup (nodes g) i = Some n \<longrightarrow> (\<exists>n'. fmlookup (nodes g') i = Some n' \<and> same_node n n')) \<and>
     (\<forall>i n'. fmlookup (nodes g') i = Some n' \<longrightarrow> fmlookup (nodes g) i = None \<longrightarrow> Parent n' \<noteq> None) \<and>
     root g' = root g \<and> forkChoiceParams g' = forkChoiceParams g \<and>
     genesisFrameNumber g' = genesisFrameNumber g \<and> archiveMode g' = archiveMode g \<and>
     equivocators g' = equivocators g"

lemma growsD:
  assumes "grows g g'"
  shows "fmlookup (nodes g) i = Some n \<Longrightarrow> \<exists>n'. fmlookup (nodes g') i = Some n' \<and> same_node n n'"
    and "fmlookup (nodes g') i = Some n' \<Longrightarrow> fmlookup (nodes g) i = None \<Longrightarrow> Parent n' \<noteq> None"
    and "root g' = root g" and "forkChoiceParams g' = forkChoiceParams g"
    and "genesisFrameNumber g' = genesisFrameNumber g" and "archiveMode g' = archiveMode g"
    and "equivocators g' = equivocators g"
  using assms unfolding grows_def by blast+

lemma same_node_refl [simp]: "same_node n n"
  by (simp add: same_node_def)

lemma same_node_trans: "same_node n n' \<Longrightarrow> same_node n' n'' \<Longrightarrow> same_node n n''"
  by (simp add: same_node_def)

lemma grows_same_tree: "same_tree g g' \<Longrightarrow> grows g g'"
  by (auto simp: grows_def same_tree_def)

lemma grows_trans:
  assumes "grows g g'" and "grows g' g''"
  shows "grows g g''"
  unfolding grows_def
proof (intro conjI allI impI)
  fix i n assume "fmlookup (nodes g) i = Some n"
  with growsD(1) [OF assms(1)] obtain n' where "fmlookup (nodes g') i = Some n'" "same_node n n'" by blast
  with growsD(1) [OF assms(2)] show "\<exists>n'. fmlookup (nodes g'') i = Some n' \<and> same_node n n'"
    by (blast intro: same_node_trans)
next
  fix i n'' assume n'': "fmlookup (nodes g'') i = Some n''" and none: "fmlookup (nodes g) i = None"
  show "Parent n'' \<noteq> None"
  proof (cases "fmlookup (nodes g') i")
    case None
    with growsD(2) [OF assms(2) n''] show ?thesis by blast
  next
    case (Some n')
    with growsD(2) [OF assms(1) Some none] growsD(1) [OF assms(2) Some] n'' show ?thesis
      by (auto simp: same_node_def)
  qed
qed (simp_all add: growsD(3-) [OF assms(1)] growsD(3-) [OF assms(2)])

lemma grows_frame:
  assumes "grows g g'" and "fmlookup (nodes g) i \<noteq> None"
  shows "fmlookup (nodes g') i \<noteq> None" and "frame_at g' i = frame_at g i"
  using assms growsD(1) [OF assms(1), of i] by (auto simp: same_node_def)

lemma reel_okD:
  assumes "reel_ok env g"
  shows "tree_ok env (nodes g)" and "head g = Some i \<Longrightarrow> fmlookup (nodes g) i \<noteq> None"
    and "root g = Some i \<Longrightarrow> fmlookup (nodes g) i \<noteq> None"
    and "fmlookup (nodes g) i \<noteq> None \<Longrightarrow> head g \<noteq> None"
    and "p \<in> set (pending_at g sel) \<Longrightarrow> GlobalFrame.Header (GlobalPendingFrame.Frame p) \<noteq> None \<and>
        selector_of (GlobalPendingFrame.Frame p) = sel"
    and "params_ok (forkChoiceParams g)"
    and "fmlookup (framesByNumber g) k = Some l \<Longrightarrow> i \<in> set l \<Longrightarrow>
        fmlookup (nodes g) i \<noteq> None \<and> frame_number (frame_at g i) = k"
proof -
  note ok = assms [unfolded reel_ok_def]
  show "tree_ok env (nodes g)" "params_ok (forkChoiceParams g)" using ok by blast+
  show "head g = Some i \<Longrightarrow> fmlookup (nodes g) i \<noteq> None"
    "root g = Some i \<Longrightarrow> fmlookup (nodes g) i \<noteq> None" using ok by blast+
  show "fmlookup (nodes g) i \<noteq> None \<Longrightarrow> head g \<noteq> None" using ok by (metis fmempty_lookup)
  show "p \<in> set (pending_at g sel) \<Longrightarrow> GlobalFrame.Header (GlobalPendingFrame.Frame p) \<noteq> None \<and>
        selector_of (GlobalPendingFrame.Frame p) = sel" using ok by blast
  show "fmlookup (framesByNumber g) k = Some l \<Longrightarrow> i \<in> set l \<Longrightarrow>
        fmlookup (nodes g) i \<noteq> None \<and> frame_number (frame_at g i) = k" using ok by blast
qed

lemma link_node_tree:
  assumes tree: "tree_ok env (nodes g)" and par: "fmlookup (nodes g) parent = Some p"
    and fresh: "fmlookup (nodes g) (ComputeFrameID env frame) = None"
    and "GlobalFrame.Header frame \<noteq> None" and "selector_of frame = hash env (output_of (frame_at g parent))"
  shows "tree_ok env (nodes (link_node env frame parent g))"
proof -
  let ?i = "ComputeFrameID env frame"
  let ?ns = "nodes (link_node env frame parent g)"
  have ns: "fmlookup ?ns j = (if j = parent then Some (p\<lparr>Children := insert ?i (Children p)\<rparr>)
      else if j = ?i then Some \<lparr>GlobalFrameNode.Frame = frame, Parent = Some parent, Children = {},
        Depth = Depth p + 1\<rparr> else fmlookup (nodes g) j)" for j
    using par by (simp add: link_node_def Let_def)
  have ne: "parent \<noteq> ?i" using par fresh by auto
  show ?thesis
    unfolding tree_ok_def
  proof (intro allI impI)
    fix j n assume j: "fmlookup ?ns j = Some n"
    show "GlobalFrame.Header (GlobalFrameNode.Frame n) \<noteq> None \<and>
        ComputeFrameID env (GlobalFrameNode.Frame n) = j \<and>
        (\<forall>q. Parent n = Some q \<longrightarrow>
           (\<exists>m. fmlookup ?ns q = Some m \<and> Depth n = Depth m + 1 \<and> j \<in> Children m \<and>
              selector_of (GlobalFrameNode.Frame n) = hash env (output_of (GlobalFrameNode.Frame m)))) \<and>
        (\<forall>c \<in> Children n. \<exists>m. fmlookup ?ns c = Some m \<and> Parent m = Some j)"
    proof (cases "j = ?i")
      case True
      with j ns ne assms show ?thesis by auto
    next
      case False
      define m where "m = (if j = parent then p else n)"
      have m: "fmlookup (nodes g) j = Some m" using j ns False par by (auto simp: m_def split: if_splits)
      have n: "GlobalFrameNode.Frame n = GlobalFrameNode.Frame m" "Parent n = Parent m" "Depth n = Depth m"
        "Children n = (if j = parent then insert ?i (Children m) else Children m)"
        using j ns False m by (auto simp: m_def split: if_splits)
      have "\<exists>m'. fmlookup ?ns q = Some m' \<and> Depth n = Depth m' + 1 \<and> j \<in> Children m' \<and>
          selector_of (GlobalFrameNode.Frame n) = hash env (output_of (GlobalFrameNode.Frame m'))"
        if q: "Parent n = Some q" for q
      proof -
        from tree_okD(3) [OF tree m] q n obtain m' where m': "fmlookup (nodes g) q = Some m'"
          "Depth m = Depth m' + 1" "j \<in> Children m'"
          "selector_of (GlobalFrameNode.Frame m) = hash env (output_of (GlobalFrameNode.Frame m'))" by auto
        then show ?thesis using ns n par fresh by (cases "q = parent") auto
      qed
      moreover have "\<exists>m'. fmlookup ?ns c = Some m' \<and> Parent m' = Some j" if "c \<in> Children n" for c
      proof (cases "c = ?i \<and> j = parent")
        case True
        then show ?thesis using ns ne by auto
      next
        case False
        with that n have "c \<in> Children m" by (auto split: if_splits)
        from tree_okD(4) [OF tree m this] show ?thesis using ns par fresh by auto
      qed
      ultimately show ?thesis using tree_okD(1, 2) [OF tree m] n by auto
    qed
  qed
qed

lemma link_node_lookup:
  assumes "fmlookup (nodes g) parent = Some p"
  shows "fmlookup (nodes (link_node env frame parent g)) j =
    (if j = parent then Some (p\<lparr>Children := insert (ComputeFrameID env frame) (Children p)\<rparr>)
     else if j = ComputeFrameID env frame
     then Some \<lparr>GlobalFrameNode.Frame = frame, Parent = Some parent, Children = {}, Depth = Depth p + 1\<rparr>
     else fmlookup (nodes g) j)"
  using assms by (simp add: link_node_def Let_def)

lemma link_node_other [simp]:
  "pendingFrames (link_node env frame parent g) = pendingFrames g"
  "head (link_node env frame parent g) = head g" "root (link_node env frame parent g) = root g"
  "forkChoiceParams (link_node env frame parent g) = forkChoiceParams g"
  "genesisFrameNumber (link_node env frame parent g) = genesisFrameNumber g"
  "archiveMode (link_node env frame parent g) = archiveMode g"
  "equivocators (link_node env frame parent g) = equivocators g"
  by (simp_all add: link_node_def Let_def)

lemma pending_at_cong: "pendingFrames g' = pendingFrames g \<Longrightarrow> pending_at g' = pending_at g"
  by (simp add: pending_at_def fun_eq_iff)

lemma link_node_grows:
  assumes "fmlookup (nodes g) parent = Some p" and "fmlookup (nodes g) (ComputeFrameID env frame) = None"
  shows "grows g (link_node env frame parent g)"
  using assms by (auto simp: grows_def link_node_lookup same_node_def)

lemma link_node_index:
  assumes "fmlookup (framesByNumber (link_node env frame parent g)) k = Some l" and "i \<in> set l"
  shows "i = ComputeFrameID env frame \<and> frame_number frame = k \<or>
    (\<exists>l'. fmlookup (framesByNumber g) k = Some l' \<and> i \<in> set l')"
  using assms by (auto simp: link_node_def Let_def split: if_splits option.splits)

lemma link_node_ok:
  assumes ok: "reel_ok env g" and par: "fmlookup (nodes g) parent = Some p"
    and fresh: "fmlookup (nodes g) (ComputeFrameID env frame) = None"
    and hd: "GlobalFrame.Header frame \<noteq> None"
    and sel: "selector_of frame = hash env (output_of (frame_at g parent))"
  shows "reel_ok env (link_node env frame parent g)"
proof -
  let ?g = "link_node env frame parent g"
  have gr: "grows g ?g" by (rule link_node_grows [OF par fresh])
  have "head g \<noteq> None" using reel_okD(4) [OF ok] par by auto
  moreover have "fmlookup (nodes ?g) i \<noteq> None \<and> frame_number (frame_at ?g i) = k"
    if "fmlookup (framesByNumber ?g) k = Some l" "i \<in> set l" for i k l
    using link_node_index [OF that]
  proof
    assume "i = ComputeFrameID env frame \<and> frame_number frame = k"
    then show ?thesis using link_node_lookup [OF par] par fresh by auto
  next
    assume "\<exists>l'. fmlookup (framesByNumber g) k = Some l' \<and> i \<in> set l'"
    then show ?thesis using reel_okD(7) [OF ok] grows_frame [OF gr] by metis
  qed
  moreover have "fmlookup (nodes ?g) i \<noteq> None" if "head g = Some i \<or> root g = Some i" for i
    using that reel_okD(2, 3) [OF ok] grows_frame(1) [OF gr] by metis
  ultimately show ?thesis
    using link_node_tree [OF reel_okD(1) [OF ok] par fresh hd sel] reel_okD(5, 6) [OF ok]
    unfolding reel_ok_def link_node_other pending_at_cong [OF link_node_other(1)] by auto
qed

section \<open>Connecting the frames that wait\<close>

definition waiting :: "GlobalTimeReel \<Rightarrow> nat" where
  "waiting g = (\<Sum>sel \<in> fmdom' (pendingFrames g). length (pending_at g sel))"

lemma waiting_cong: "pendingFrames g' = pendingFrames g \<Longrightarrow> waiting g' = waiting g"
  by (simp add: waiting_def pending_at_def)

lemma pending_at_drop:
  "pending_at (g\<lparr>pendingFrames := fmdrop sel (pendingFrames g)\<rparr>) s = (if s = sel then [] else pending_at g s)"
  by (simp add: pending_at_def)

lemma waiting_drop:
  "waiting (g\<lparr>pendingFrames := fmdrop sel (pendingFrames g)\<rparr>) + length (pending_at g sel) = waiting g"
proof (cases "sel \<in> fmdom' (pendingFrames g)")
  case True
  have "waiting g = length (pending_at g sel) +
      (\<Sum>s \<in> fmdom' (pendingFrames g) - {sel}. length (pending_at g s))"
    unfolding waiting_def using True by (simp add: sum.remove)
  then show ?thesis by (simp add: waiting_def pending_at_drop)
next
  case False
  then have "pending_at g sel = []" by (simp add: pending_at_def fmlookup_dom'_iff)
  moreover have "fmdrop sel (pendingFrames g) = pendingFrames g"
    using False by (simp add: fmdrop_idle')
  ultimately show ?thesis by simp
qed

lemma reel_ok_drop:
  "reel_ok env g \<Longrightarrow> reel_ok env (g\<lparr>pendingFrames := fmdrop sel (pendingFrames g)\<rparr>)"
  by (simp add: reel_ok_def pending_at_drop)

lemma reel_ok_settled:
  assumes "reel_ok env g" and "same_tree g g'" and "head g' = Some h" and "fmlookup (nodes g) h \<noteq> None"
  shows "reel_ok env g'"
  using assms pending_at_cong [of g' g] by (auto simp: reel_ok_def same_tree_def)

definition connected :: "reel_env \<Rightarrow> GlobalTimeReel \<Rightarrow> GlobalTimeReel option \<Rightarrow> bool" where
  "connected env g r \<longleftrightarrow> (\<exists>g'. r = Some g' \<and> reel_ok env g' \<and> grows g g' \<and> waiting g' \<le> waiting g \<and>
     (nodes g' = nodes g \<and> head g' = head g \<or> deepest g'))"

lemma connected_refl: "reel_ok env g \<Longrightarrow> connected env g (Some g)"
  by (auto simp: connected_def grows_def)

text \<open>The fork choice after a new leaf, and after the frames that waited for it, picks a deepest node.\<close>

lemma evaluate_connected:
  assumes fair: "fair_order env" and i: "fmlookup (nodes g) i \<noteq> None" "Children (node g i) = {}"
    and r: "connected env g r"
  shows "\<exists>g'. r \<bind> evaluateForkChoice env i = Some g' \<and> reel_ok env g' \<and> grows g g' \<and>
    waiting g' \<le> waiting g \<and> deepest g'"
proof -
  from r obtain g1 where g1: "r = Some g1" "reel_ok env g1" "grows g g1" "waiting g1 \<le> waiting g"
    "nodes g1 = nodes g \<and> head g1 = head g \<or> deepest g1" by (auto simp: connected_def)
  from grows_frame(1) [OF g1(3) i(1)] have i1: "fmlookup (nodes g1) i \<noteq> None" .
  then obtain h where h: "head g1 = Some h" "fmlookup (nodes g1) h \<noteq> None"
    using reel_okD(2, 4) [OF g1(2)] by blast
  from evaluateForkChoice_ok [OF reel_okD(1) [OF g1(2)] fair reel_okD(6) [OF g1(2)] i1 h]
  obtain g' h' where g': "evaluateForkChoice env i g1 = Some g'" "same_tree g1 g'" "head g' = Some h'"
    "fmlookup (nodes g1) h' \<noteq> None" "Children (node g1 i) = {} \<or> deepest g1 \<longrightarrow> topmost g1 h'"
    by (auto simp: settled_def)
  from g1(5) i(2) have "Children (node g1 i) = {} \<or> deepest g1" by auto
  with g'(2, 3, 5) have "deepest g'" by (auto simp: deepest_top topmost_def same_tree_def)
  moreover have "waiting g' = waiting g1" using g'(2) by (intro waiting_cong) (simp add: same_tree_def)
  ultimately show ?thesis
    using g1 g'(1) reel_ok_settled [OF g1(2) g'(2-4)] grows_trans [OF g1(3) grows_same_tree [OF g'(2)]]
    by auto
qed

lemma connected_after:
  assumes "grows g g1" and "waiting g1 \<le> waiting g" and "deepest g1" and "connected env g1 r"
  shows "connected env g r"
proof -
  from assms(4) obtain g' where g': "r = Some g'" "reel_ok env g'" "grows g1 g'" "waiting g' \<le> waiting g1"
    "nodes g' = nodes g1 \<and> head g' = head g1 \<or> deepest g'" by (auto simp: connected_def)
  then have "deepest g'" using assms(3) by (auto simp: deepest_def)
  with g' assms show ?thesis by (auto simp: connected_def intro: grows_trans)
qed

text \<open>
  Connecting pending frames ends: every call takes the frames it works on out of the map, so the
  number of frames that still wait or still are to be handled goes down.
\<close>

lemma process_list_ok:
  assumes fair: "fair_order env"
  shows "reel_ok env g \<Longrightarrow> fmlookup (nodes g) parent \<noteq> None \<Longrightarrow>
    \<forall>p \<in> set ps. GlobalFrame.Header (GlobalPendingFrame.Frame p) \<noteq> None \<and>
      selector_of (GlobalPendingFrame.Frame p) = hash env (output_of (frame_at g parent)) \<Longrightarrow>
    connected env g (process_list env parent ps g)"
proof (induction "waiting g + length ps" arbitrary: g parent ps rule: less_induct)
  case less
  note ok = less.prems(1)
  show ?case
  proof (cases ps)
    case Nil
    with ok show ?thesis by (subst process_list.simps) (simp add: connected_refl)
  next
    case (Cons p ps')
    define frame where "frame = GlobalPendingFrame.Frame p"
    define i where "i = ComputeFrameID env frame"
    define g1 where "g1 = link_node env frame parent g"
    define sel where "sel = hash env (output_of frame)"
    define g2 where "g2 = g1\<lparr>pendingFrames := fmdrop sel (pendingFrames g1)\<rparr>"
    show ?thesis
    proof (cases "fmlookup (nodes g) i = None")
      case False
      then have "process_list env parent ps g = process_list env parent ps' g"
        using Cons by (subst process_list.simps) (simp add: i_def frame_def Let_def)
      with less.hyps [of g ps' parent] less.prems Cons show ?thesis by simp
    next
      case True
      obtain pn where pn: "fmlookup (nodes g) parent = Some pn" using less.prems(2) by auto
      have fr: "GlobalFrame.Header frame \<noteq> None" "selector_of frame = hash env (output_of (frame_at g parent))"
        using less.prems(3) Cons by (auto simp: frame_def)
      have ok1: "reel_ok env g1" unfolding g1_def
        by (rule link_node_ok [OF ok pn True [unfolded i_def] fr])
      have gr1: "grows g g1" unfolding g1_def by (rule link_node_grows [OF pn True [unfolded i_def]])
      have w1: "waiting g1 = waiting g" unfolding g1_def by (rule waiting_cong) simp
      have i1: "fmlookup (nodes g1) i = Some \<lparr>GlobalFrameNode.Frame = frame, Parent = Some parent,
          Children = {}, Depth = Depth pn + 1\<rparr>"
        using link_node_lookup [OF pn] pn True by (auto simp: g1_def i_def)
      have inner: "connected env g1 (if pending_at g1 sel = [] then Some g1
          else process_list env i (pending_at g1 sel) g2)"
      proof (cases "pending_at g1 sel = []")
        case False
        have w2: "waiting g2 + length (pending_at g1 sel) = waiting g1"
          unfolding g2_def by (rule waiting_drop)
        have "\<forall>q \<in> set (pending_at g1 sel). GlobalFrame.Header (GlobalPendingFrame.Frame q) \<noteq> None \<and>
            selector_of (GlobalPendingFrame.Frame q) = hash env (output_of (frame_at g2 i))"
          using reel_okD(5) [OF ok1] i1 by (auto simp: g2_def sel_def)
        with less.hyps [of g2 "pending_at g1 sel" i] reel_ok_drop [OF ok1] i1 w1 w2 Cons
        have "connected env g2 (process_list env i (pending_at g1 sel) g2)" by (simp add: g2_def)
        with False w2 show ?thesis by (auto simp: connected_def g2_def grows_def)
      qed (simp add: connected_refl ok1)
      from evaluate_connected [OF fair _ _ inner, of i] i1 obtain g3 where
        g3: "(if pending_at g1 sel = [] then Some g1 else process_list env i (pending_at g1 sel) g2) \<bind>
            evaluateForkChoice env i = Some g3"
          "reel_ok env g3" "grows g1 g3" "waiting g3 \<le> waiting g1" "deepest g3" by auto
      have gr3: "grows g g3" by (rule grows_trans [OF gr1 g3(3)])
      have "process_list env parent ps g = process_list env parent ps' g3"
        using Cons True g3(1)
        by (subst process_list.simps)
          (auto simp: i_def frame_def g1_def g2_def sel_def Let_def bind_eq_Some_conv split: if_splits)
      moreover have "connected env g3 (process_list env parent ps' g3)"
        using less.hyps [of g3 ps' parent] g3 w1 Cons less.prems(2, 3) grows_frame [OF gr3 less.prems(2)]
        by auto
      ultimately show ?thesis using connected_after [OF gr3 _ g3(5)] g3(4) w1 by simp
    qed
  qed
qed

lemma processPendingFrames_ok:
  assumes "fair_order env" and "reel_ok env g" and "fmlookup (nodes g) parent \<noteq> None"
  shows "connected env g (processPendingFrames env parent g)"
proof -
  define sel where "sel = hash env (output_of (frame_at g parent))"
  let ?g = "g\<lparr>pendingFrames := fmdrop sel (pendingFrames g)\<rparr>"
  have "connected env ?g (process_list env parent (pending_at g sel) ?g)"
    using assms(3) reel_okD(5) [OF assms(2)]
    by (intro process_list_ok [OF assms(1) reel_ok_drop [OF assms(2)]]) (auto simp: sel_def)
  with waiting_drop [of sel g] connected_refl [OF assms(2)] show ?thesis
    by (auto simp: processPendingFrames_def Let_def sel_def connected_def grows_def)
qed

end
