(* ===== verification/Global_Reel_Pruning.thy ===== *)
theory Global_Reel_Pruning
  imports Global_Reel_Safety
begin

text \<open>
  Pruning the tree.  The loops of \<^verbatim>\<open>pruneOldFrames\<close> -- clearing the parent pointers of the kept
  children, then deleting the nodes one by one while the root moves -- amount to one cut of the tree
  at a depth (\<open>cut_at\<close>, \<open>pruneOldFrames_ok\<close>), in whatever order the nodes are visited.
\<close>

section \<open>Cutting a tree at a depth\<close>

definition cut_at :: "nat \<Rightarrow> (frame_id, GlobalFrameNode) fmap \<Rightarrow> (frame_id, GlobalFrameNode) fmap" where
  "cut_at d ns = fmmap (\<lambda>n. if Depth n = d then n\<lparr>Parent := None\<rparr> else n)
     (fmfilter (\<lambda>i. d \<le> Depth (the (fmlookup ns i))) ns)"

lemma cut_lookup: "fmlookup (cut_at d ns) i =
    (case fmlookup ns i of None \<Rightarrow> None
     | Some n \<Rightarrow> if Depth n < d then None else Some (if Depth n = d then n\<lparr>Parent := None\<rparr> else n))"
  by (auto simp: cut_at_def split: option.splits)

lemma cut_kept:
  assumes "fmlookup (cut_at d ns) i = Some n"
  shows "\<exists>n0. fmlookup ns i = Some n0 \<and> d \<le> Depth n0 \<and> Depth n = Depth n0 \<and> Children n = Children n0 \<and>
    GlobalFrameNode.Frame n = GlobalFrameNode.Frame n0 \<and>
    Parent n = (if Depth n0 = d then None else Parent n0)"
proof (cases "fmlookup ns i")
  case None
  with assms show ?thesis by (simp add: cut_lookup)
next
  case (Some n0)
  with assms have "d \<le> Depth n0" "n = (if Depth n0 = d then n0\<lparr>Parent := None\<rparr> else n0)"
    by (simp_all add: cut_lookup split: if_splits)
  with Some show ?thesis by simp
qed

lemma cut_keeps:
  assumes "fmlookup ns i = Some n" and "d \<le> Depth n"
  shows "\<exists>n'. fmlookup (cut_at d ns) i = Some n' \<and> Depth n' = Depth n \<and> Children n' = Children n \<and>
    GlobalFrameNode.Frame n' = GlobalFrameNode.Frame n \<and> (Depth n \<noteq> d \<longrightarrow> Parent n' = Parent n)"
  using assms by (auto simp: cut_lookup)

lemma cut_tree:
  assumes tree: "tree_ok env ns"
  shows "tree_ok env (cut_at d ns)"
  unfolding tree_ok_def
proof (intro allI impI)
  fix i n assume "fmlookup (cut_at d ns) i = Some n"
  from cut_kept [OF this] obtain n0 where n0: "fmlookup ns i = Some n0" "d \<le> Depth n0"
    and n: "Depth n = Depth n0" "Children n = Children n0" "GlobalFrameNode.Frame n = GlobalFrameNode.Frame n0"
      "Parent n = (if Depth n0 = d then None else Parent n0)" by blast
  have "\<exists>m. fmlookup (cut_at d ns) p = Some m \<and> Depth n = Depth m + 1 \<and> i \<in> Children m \<and>
      selector_of (GlobalFrameNode.Frame n) = hash env (output_of (GlobalFrameNode.Frame m))"
    if "Parent n = Some p" for p
  proof -
    from that n(4) have p0: "Parent n0 = Some p" and "Depth n0 \<noteq> d" by (auto split: if_splits)
    from tree_okD(3) [OF tree n0(1) p0] obtain m where m: "fmlookup ns p = Some m"
      "Depth n0 = Depth m + 1" "i \<in> Children m"
      "selector_of (GlobalFrameNode.Frame n0) = hash env (output_of (GlobalFrameNode.Frame m))" by blast
    have "d \<le> Depth m" using m(2) n0(2) \<open>Depth n0 \<noteq> d\<close> by linarith
    from cut_keeps [OF m(1) this] m n show ?thesis by auto
  qed
  moreover have "\<exists>m. fmlookup (cut_at d ns) c = Some m \<and> Parent m = Some i" if c: "c \<in> Children n" for c
  proof -
    from tree_okD(4) [OF tree n0(1)] c n obtain m where m: "fmlookup ns c = Some m" "Parent m = Some i"
      by auto
    from tree_okD(3) [OF tree m] n0(1) have "Depth m = Depth n0 + 1" by auto
    with cut_keeps [OF m(1), of d] n0(2) m(2) show ?thesis by auto
  qed
  ultimately show "GlobalFrame.Header (GlobalFrameNode.Frame n) \<noteq> None \<and>
      ComputeFrameID env (GlobalFrameNode.Frame n) = i \<and>
      (\<forall>p. Parent n = Some p \<longrightarrow> (\<exists>m. fmlookup (cut_at d ns) p = Some m \<and> Depth n = Depth m + 1 \<and>
         i \<in> Children m \<and>
         selector_of (GlobalFrameNode.Frame n) = hash env (output_of (GlobalFrameNode.Frame m)))) \<and>
      (\<forall>c \<in> Children n. \<exists>m. fmlookup (cut_at d ns) c = Some m \<and> Parent m = Some i)"
    using tree_okD(1, 2) [OF tree n0(1)] n(3) by auto
qed

section \<open>Detaching the kept children\<close>

lemma detach_children_children:
  "Children (node (detach_children d i g) j) = Children (node g j)"
  by (cases "fmlookup (nodes g) j") (auto simp: detach_children_def)

lemma detach_fold_nodes:
  "nodes (fold (detach_children d) is g) =
     fmmap_keys (\<lambda>c n. if (\<exists>i \<in> set is. c \<in> Children (node g i)) \<and> d \<le> Depth n
       then n\<lparr>Parent := None\<rparr> else n) (nodes g)"
proof (induction "is" arbitrary: g)
  case Nil
  show ?case by (rule fmap_ext) (simp add: option.map_ident)
next
  case (Cons i "is")
  define g1 where "g1 = detach_children d i g"
  have ch: "Children (node g1 j) = Children (node g j)" for j
    unfolding g1_def by (rule detach_children_children)
  have lk: "fmlookup (nodes g1) c = map_option (\<lambda>n. if c \<in> Children (node g i) \<and> d \<le> Depth n
      then n\<lparr>Parent := None\<rparr> else n) (fmlookup (nodes g) c)" for c
    by (simp add: g1_def detach_children_def)
  have "nodes (fold (detach_children d) (i # is) g) =
     fmmap_keys (\<lambda>c n. if (\<exists>j \<in> set is. c \<in> Children (node g j)) \<and> d \<le> Depth n
       then n\<lparr>Parent := None\<rparr> else n) (nodes g1)"
    using Cons.IH [of g1] by (simp add: g1_def [symmetric] ch)
  also have "\<dots> = fmmap_keys (\<lambda>c n. if (\<exists>j \<in> set (i # is). c \<in> Children (node g j)) \<and> d \<le> Depth n
       then n\<lparr>Parent := None\<rparr> else n) (nodes g)"
  proof (rule fmap_ext, goal_cases)
    case (1 c)
    show ?case by (cases "fmlookup (nodes g) c") (auto simp: lk)
  qed
  finally show ?case .
qed

lemma detach_fold_other:
  "\<exists>ns. fold (detach_children d) is g = g\<lparr>nodes := ns\<rparr>"
proof (induction "is" arbitrary: g)
  case Nil
  show ?case by (rule exI [of _ "nodes g"]) simp
next
  case (Cons i "is")
  from Cons.IH [of "detach_children d i g"] show ?case by (auto simp: detach_children_def)
qed

lemma detached_kept:
  assumes tree: "tree_ok env (nodes g)"
    and ids: "\<And>i n. fmlookup (nodes g) i = Some n \<Longrightarrow> i \<in> set is \<longleftrightarrow> Depth n < d"
    and sub: "\<And>i. i \<in> set is \<Longrightarrow> fmlookup (nodes g) i \<noteq> None"
    and c: "fmlookup (nodes g) c = Some n"
  shows "fmlookup (nodes (fold (detach_children d) is g)) c =
    Some (if Depth n = d then n\<lparr>Parent := None\<rparr> else n)"
proof -
  have iff: "(\<exists>i \<in> set is. c \<in> Children (node g i)) \<and> d \<le> Depth n \<longleftrightarrow> Parent n \<noteq> None \<and> Depth n = d"
    (is "?L \<longleftrightarrow> ?R")
  proof
    assume ?L
    then obtain i where i: "i \<in> set is" "c \<in> Children (node g i)" "d \<le> Depth n" by blast
    from sub [OF i(1)] obtain m where m: "fmlookup (nodes g) i = Some m" by blast
    from tree_okD(4) [OF tree m, of c] i(2) m c have p: "Parent n = Some i" by auto
    from tree_okD(3) [OF tree c p] m have "Depth n = Depth m + 1" by auto
    with ids [OF m] i p show ?R by auto
  next
    assume R: ?R
    then obtain p where p: "Parent n = Some p" by blast
    from tree_okD(3) [OF tree c p] obtain m where m: "fmlookup (nodes g) p = Some m"
      "Depth n = Depth m + 1" "c \<in> Children m" by blast
    with ids [OF m(1)] R show ?L by (auto intro!: bexI [of _ p])
  qed
  have "n = n\<lparr>Parent := None\<rparr>" if "Parent n = None" using that by simp
  with c show ?thesis by (auto simp: detach_fold_nodes iff)
qed

section \<open>Removing the nodes above the cut\<close>

lemma new_root_fold:
  "fold (\<lambda>i r. if P i \<and> Q i r then Some i else r) ids r0 = r \<Longrightarrow>
     (\<And>i. Q i None) \<Longrightarrow>
     (r = r0 \<or> (\<exists>i \<in> set ids. r = Some i \<and> P i)) \<and> (r = None \<longrightarrow> (\<forall>i \<in> set ids. \<not> P i))"
proof (induction ids arbitrary: r0)
  case (Cons i ids)
  define r1 where "r1 = (if P i \<and> Q i r0 then Some i else r0)"
  have "fold (\<lambda>i r. if P i \<and> Q i r then Some i else r) ids r1 = r"
    using Cons.prems(1) by (simp add: r1_def)
  from Cons.IH [OF this Cons.prems(2)] have
    IH: "r = r1 \<or> (\<exists>i \<in> set ids. r = Some i \<and> P i)" "r = None \<Longrightarrow> \<forall>i \<in> set ids. \<not> P i" by blast+
  have "\<not> P i" if "r = None"
    using IH(1) that Cons.prems(2) [of i] by (auto simp: r1_def split: if_splits)
  with IH show ?case by (auto simp: r1_def split: if_splits)
qed simp

lemma new_root_ok:
  assumes "fair_order env" and nr: "new_root env d g = (r, g')"
  shows "quiet g g'"
    and "r = Some i \<Longrightarrow> fmlookup (nodes g) i \<noteq> None \<and> depth_at g i = d"
    and "r = None \<Longrightarrow> fmlookup (nodes g) i = Some n \<Longrightarrow> Depth n \<noteq> d"
proof -
  obtain ids g1 where rn: "range_nodes env g = (ids, g1)" by (cases "range_nodes env g") auto
  note ids = range_nodes_ok [OF assms(1) rn]
  then have n1: "nodes g1 = nodes g" by (simp add: quiet_def same_tree_def)
  from nr rn have "g' = g1"
    and f: "fold (\<lambda>i r. if depth_at g1 i = d \<and> (case r of None \<Rightarrow> True
        | Some r' \<Rightarrow> frame_number (frame_at g1 i) < frame_number (frame_at g1 r')) then Some i else r) ids None = r"
    by (auto simp: new_root_def)
  with ids(1) show "quiet g g'" by simp
  from new_root_fold [OF f] have "r = None \<or> (\<exists>i \<in> set ids. r = Some i \<and> depth_at g1 i = d)"
    "r = None \<Longrightarrow> \<forall>i \<in> set ids. depth_at g1 i \<noteq> d" by auto
  with ids(2) have r: "r = Some i \<Longrightarrow> i \<in> fmdom' (nodes g) \<and> depth_at g i = d"
    "r = None \<Longrightarrow> i \<in> fmdom' (nodes g) \<Longrightarrow> depth_at g i \<noteq> d" for i
    by (auto simp: n1)
  show "r = Some i \<Longrightarrow> fmlookup (nodes g) i \<noteq> None \<and> depth_at g i = d"
    using r(1) [of i] by (auto simp: fmlookup_dom'_iff)
  show "r = None \<Longrightarrow> fmlookup (nodes g) i = Some n \<Longrightarrow> Depth n \<noteq> d"
    using r(2) [of i] by (simp add: fmlookup_dom'_iff)
qed

text \<open>
  The state of the pruning loop: \<open>ns\<close> is the tree after the kept children were detached and \<open>is\<close>
  what remains to be removed.
\<close>

definition pruning ::
  "nat \<Rightarrow> (frame_id, GlobalFrameNode) fmap \<Rightarrow> frame_id list \<Rightarrow> GlobalTimeReel \<Rightarrow> bool" where
  "pruning d ns is g \<longleftrightarrow>
     (\<forall>i n. fmlookup ns i = Some n \<longrightarrow> d \<le> Depth n \<longrightarrow> fmlookup (nodes g) i = Some n) \<and>
     (\<forall>i n. fmlookup (nodes g) i = Some n \<longrightarrow>
        (\<exists>n0. fmlookup ns i = Some n0 \<and> same_node n0 n \<and> (d \<le> Depth n \<longrightarrow> n = n0) \<and>
           (Depth n < d \<longrightarrow> i \<in> set is))) \<and>
     (\<forall>i \<in> set is. \<exists>n. fmlookup (nodes g) i = Some n \<and> Depth n < d) \<and>
     (\<forall>k l i. fmlookup (framesByNumber g) k = Some l \<longrightarrow> i \<in> set l \<longrightarrow>
        fmlookup (nodes g) i \<noteq> None \<and> frame_number (frame_at g i) = k)"

lemma pruningD:
  assumes "pruning d ns is g"
  shows "fmlookup ns i = Some n \<Longrightarrow> d \<le> Depth n \<Longrightarrow> fmlookup (nodes g) i = Some n"
    and "fmlookup (nodes g) i = Some n \<Longrightarrow>
        \<exists>n0. fmlookup ns i = Some n0 \<and> same_node n0 n \<and> (d \<le> Depth n \<longrightarrow> n = n0) \<and> (Depth n < d \<longrightarrow> i \<in> set is)"
    and "i \<in> set is \<Longrightarrow> \<exists>n. fmlookup (nodes g) i = Some n \<and> Depth n < d"
    and "fmlookup (framesByNumber g) k = Some l \<Longrightarrow> i \<in> set l \<Longrightarrow>
        fmlookup (nodes g) i \<noteq> None \<and> frame_number (frame_at g i) = k"
  using assms unfolding pruning_def by blast+

lemma drop_node_index:
  assumes "fmlookup (framesByNumber (drop_node env i g)) k = Some l" and "j \<in> set l"
  shows "(j \<noteq> i \<or> k \<noteq> frame_number (frame_at g i)) \<and>
    (\<exists>l'. fmlookup (framesByNumber g) k = Some l' \<and> j \<in> set l')"
  using assms by (auto simp: drop_node_def Let_def split: if_splits option.splits)

lemma drop_node_lookup:
  assumes n: "fmlookup (nodes g) i = Some n" and "ComputeFrameID env (GlobalFrameNode.Frame n) = i"
  shows "fmlookup (nodes (drop_node env i g)) j =
    (if j = i then None
     else if Parent n = Some j
     then map_option (\<lambda>m. m\<lparr>Children := Children m - {i}\<rparr>) (fmlookup (nodes g) j)
     else fmlookup (nodes g) j)"
  using assms by (auto simp: drop_node_def Let_def split: option.splits)

lemma drop_node_other [simp]:
  "pendingFrames (drop_node env i g) = pendingFrames g" "head (drop_node env i g) = head g"
  "root (drop_node env i g) = root g" "forkChoiceParams (drop_node env i g) = forkChoiceParams g"
  "genesisFrameNumber (drop_node env i g) = genesisFrameNumber g"
  "archiveMode (drop_node env i g) = archiveMode g" "equivocators (drop_node env i g) = equivocators g"
  by (simp_all add: drop_node_def Let_def)

text \<open>What the loop may rely on of the tree it cuts.\<close>

definition cuttable :: "reel_env \<Rightarrow> nat \<Rightarrow> (frame_id, GlobalFrameNode) fmap \<Rightarrow> bool" where
  "cuttable env d ns \<longleftrightarrow>
     (\<forall>i n. fmlookup ns i = Some n \<longrightarrow> ComputeFrameID env (GlobalFrameNode.Frame n) = i \<and>
        (Depth n = d \<longrightarrow> Parent n = None) \<and>
        (\<forall>p m. Parent n = Some p \<longrightarrow> Depth n < d \<longrightarrow> fmlookup ns p = Some m \<longrightarrow> Depth m < d))"

lemma cuttableD:
  assumes "cuttable env d ns" and "fmlookup ns i = Some n"
  shows "ComputeFrameID env (GlobalFrameNode.Frame n) = i" and "Depth n = d \<Longrightarrow> Parent n = None"
    and "Parent n = Some p \<Longrightarrow> Depth n < d \<Longrightarrow> fmlookup ns p = Some m \<Longrightarrow> Depth m < d"
  using assms unfolding cuttable_def by blast+

lemma pruning_id:
  assumes "cuttable env d ns" and "pruning d ns is g" and n: "fmlookup (nodes g) i = Some n"
  shows "ComputeFrameID env (GlobalFrameNode.Frame n) = i"
proof -
  from pruningD(2) [OF assms(2) n] obtain n0 where n0: "fmlookup ns i = Some n0" "same_node n0 n" by blast
  from cuttableD(1) [OF assms(1) n0(1)] n0(2) show ?thesis by (simp add: same_node_def)
qed

lemma drop_node_pruning:
  assumes c: "cuttable env d ns" and pr: "pruning d ns (i # is) g" and di: "i \<notin> set is"
  shows "pruning d ns is (drop_node env i g)"
proof -
  let ?g = "drop_node env i g"
  from pruningD(3) [OF pr, of i] obtain n where n: "fmlookup (nodes g) i = Some n" "Depth n < d" by auto
  from pruningD(2) [OF pr n(1)] obtain n0 where n0: "fmlookup ns i = Some n0" "same_node n0 n" by blast
  note lk = drop_node_lookup [OF n(1) pruning_id [OF c pr n(1)]]
  have shallow: "Depth m < d" if "Parent n = Some p" "fmlookup (nodes g) p = Some m" for p m
  proof -
    from pruningD(2) [OF pr that(2)] obtain m0 where "fmlookup ns p = Some m0" "same_node m0 m" by blast
    with cuttableD(3) [OF c n0(1), of p m0] n0(2) n(2) that(1) show ?thesis by (simp add: same_node_def)
  qed
  have same: "\<exists>m. fmlookup (nodes g) j = Some m \<and> same_node m m' \<and> (d \<le> Depth m' \<longrightarrow> m' = m)"
    if "fmlookup (nodes ?g) j = Some m'" for j m'
    using that shallow [of j "node g j"] lk [of j] by (auto simp: same_node_def split: if_splits)
  show ?thesis
    unfolding pruning_def
  proof (intro conjI allI ballI impI)
    fix j m assume j: "fmlookup ns j = Some m" "d \<le> Depth m"
    with pruningD(1) [OF pr] have "fmlookup (nodes g) j = Some m" by blast
    with j(2) n shallow [of j m] show "fmlookup (nodes ?g) j = Some m" by (auto simp: lk)
  next
    fix j m' assume j: "fmlookup (nodes ?g) j = Some m'"
    then have "j \<noteq> i" by (auto simp: lk)
    from same [OF j] obtain m where m: "fmlookup (nodes g) j = Some m" "same_node m m'"
      "d \<le> Depth m' \<longrightarrow> m' = m" by blast
    from pruningD(2) [OF pr m(1)] obtain m0 where "fmlookup ns j = Some m0" "same_node m0 m"
      "d \<le> Depth m \<longrightarrow> m = m0" "Depth m < d \<longrightarrow> j \<in> set (i # is)" by blast
    with m \<open>j \<noteq> i\<close> show "\<exists>n0. fmlookup ns j = Some n0 \<and> same_node n0 m' \<and> (d \<le> Depth m' \<longrightarrow> m' = n0) \<and>
        (Depth m' < d \<longrightarrow> j \<in> set is)" by (auto simp: same_node_def)
  next
    fix j assume j: "j \<in> set is"
    with di have "j \<noteq> i" by auto
    from pruningD(3) [OF pr, of j] j obtain m where "fmlookup (nodes g) j = Some m" "Depth m < d" by auto
    with \<open>j \<noteq> i\<close> show "\<exists>n. fmlookup (nodes ?g) j = Some n \<and> Depth n < d" by (auto simp: lk)
  next
    fix k l j assume "fmlookup (framesByNumber ?g) k = Some l" "j \<in> set l"
    from drop_node_index [OF this] obtain l' where
      "j \<noteq> i \<or> k \<noteq> frame_number (frame_at g i)" "fmlookup (framesByNumber g) k = Some l'" "j \<in> set l'" by blast
    with pruningD(4) [OF pr] have "j \<noteq> i" "fmlookup (nodes g) j \<noteq> None" "frame_number (frame_at g j) = k"
      by blast+
    then show "fmlookup (nodes ?g) j \<noteq> None" "frame_number (frame_at ?g j) = k" by (auto simp: lk)
  qed
qed

text \<open>What pruning leaves alone.\<close>

definition same_rest :: "GlobalTimeReel \<Rightarrow> GlobalTimeReel \<Rightarrow> bool" where
  "same_rest g g' \<longleftrightarrow> pendingFrames g' = pendingFrames g \<and> head g' = head g \<and>
     forkChoiceParams g' = forkChoiceParams g \<and> genesisFrameNumber g' = genesisFrameNumber g \<and>
     archiveMode g' = archiveMode g \<and> equivocators g' = equivocators g"

lemma prune_node_pruning:
  assumes fair: "fair_order env" and c: "cuttable env d ns" and pr: "pruning d ns (i # is) g"
    and di: "i \<notin> set is" and rt: "\<forall>r. root g = Some r \<longrightarrow> fmlookup (nodes g) r \<noteq> None"
  shows "pruning d ns is (prune_node env d i g)" and "same_rest g (prune_node env d i g)"
    and "root g = None \<Longrightarrow> root (prune_node env d i g) = None"
    and "\<forall>r. root (prune_node env d i g) = Some r \<longrightarrow> fmlookup (nodes (prune_node env d i g)) r \<noteq> None"
    and "root g \<noteq> None \<Longrightarrow> root (prune_node env d i g) = None \<Longrightarrow>
      fmlookup (nodes (prune_node env d i g)) j = Some n \<Longrightarrow> Depth n \<noteq> d"
proof -
  let ?g = "drop_node env i g" and ?p = "prune_node env d i g"
  note dp = drop_node_pruning [OF c pr di]
  from pruningD(3) [OF pr, of i] obtain m where m: "fmlookup (nodes g) i = Some m" by auto
  have kept: "fmlookup (nodes ?g) r \<noteq> None" if "fmlookup (nodes g) r \<noteq> None" "r \<noteq> i" for r
    using that drop_node_lookup [OF m pruning_id [OF c pr m]] by simp
  obtain r g1 where nr: "new_root env d ?g = (r, g1)" by (cases "new_root env d ?g") auto
  note nr_ok = new_root_ok [OF fair nr]
  from nr_ok(1) have q: "nodes g1 = nodes ?g" "framesByNumber g1 = framesByNumber ?g" "same_rest ?g g1"
    by (auto simp: quiet_def same_tree_def same_rest_def)
  have upd: "fmupd j ((node g1 j)\<lparr>Parent := None\<rparr>) (nodes g1) = nodes ?g" if "r = Some j" for j
  proof (rule fmap_ext)
    from nr_ok(2) [OF that] obtain m where m: "fmlookup (nodes ?g) j = Some m" "Depth m = d" by auto
    from pruningD(2) [OF dp m(1)] m(2) have "fmlookup ns j = Some m" by auto
    with c m(2) have "m\<lparr>Parent := None\<rparr> = m" by (auto simp: cuttable_def)
    with m q(1) show "fmlookup (fmupd j ((node g1 j)\<lparr>Parent := None\<rparr>) (nodes g1)) x = fmlookup (nodes ?g) x"
      for x by auto
  qed
  have p: "nodes ?p = nodes ?g" "framesByNumber ?p = framesByNumber ?g" "same_rest g ?p"
    "root ?p = (if root g = Some i then r else root g)"
    using nr q upd by (auto simp: prune_node_def Let_def same_rest_def split: option.splits)
  from p(1, 2) dp show "pruning d ns is ?p" by (simp add: pruning_def)
  show "same_rest g ?p" by (rule p(3))
  show "root g = None \<Longrightarrow> root ?p = None" by (simp add: p(4))
  show "\<forall>r. root ?p = Some r \<longrightarrow> fmlookup (nodes ?p) r \<noteq> None"
    using nr_ok(2) kept rt by (auto simp: p(1, 4))
  show "root g \<noteq> None \<Longrightarrow> root ?p = None \<Longrightarrow> fmlookup (nodes ?p) j = Some n \<Longrightarrow> Depth n \<noteq> d"
    using nr_ok(3) [of j n] by (simp add: p(1, 4) split: if_splits)
qed

lemma prune_fold:
  assumes fair: "fair_order env" and c: "cuttable env d ns"
  shows "pruning d ns is g \<Longrightarrow> distinct is \<Longrightarrow> \<forall>r. root g = Some r \<longrightarrow> fmlookup (nodes g) r \<noteq> None \<Longrightarrow>
    (let g' = fold (prune_node env d) is g in
      pruning d ns [] g' \<and> same_rest g g' \<and> (\<forall>r. root g' = Some r \<longrightarrow> fmlookup (nodes g') r \<noteq> None) \<and>
      (root g \<noteq> None \<longrightarrow> root g' = None \<longrightarrow> (\<forall>i n. fmlookup ns i = Some n \<longrightarrow> Depth n \<noteq> d)))"
proof (induction "is" arbitrary: g)
  case (Cons i "is")
  let ?g = "prune_node env d i g"
  from Cons.prems(2) have di: "i \<notin> set is" "distinct is" by auto
  note step = prune_node_pruning [OF fair c Cons.prems(1) di(1) Cons.prems(3)]
  have none: "Depth n \<noteq> d" if "root g \<noteq> None" "root ?g = None" "fmlookup ns j = Some n" for j n
    using step(5) [OF that(1, 2), of j n] pruningD(1) [OF step(1) that(3)] by fastforce
  from Cons.IH [OF step(1) di(2) step(4)] step(2) none show ?case
    by (auto simp: Let_def same_rest_def)
qed (auto simp: Let_def same_rest_def)

lemma cuttable_detached:
  assumes tree: "tree_ok env (nodes g)"
    and ids: "\<And>i n. fmlookup (nodes g) i = Some n \<Longrightarrow> i \<in> set is \<longleftrightarrow> Depth n < d"
    and sub: "\<And>i. i \<in> set is \<Longrightarrow> fmlookup (nodes g) i \<noteq> None"
  shows "cuttable env d (nodes (fold (detach_children d) is g))"
  unfolding cuttable_def
proof (intro allI impI conjI)
  let ?ns = "nodes (fold (detach_children d) is g)"
  have orig: "\<exists>n. fmlookup (nodes g) i = Some n \<and> n' = (if Depth n = d then n\<lparr>Parent := None\<rparr> else n)"
    if "fmlookup ?ns i = Some n'" for i n'
  proof (cases "fmlookup (nodes g) i")
    case None
    with that show ?thesis by (simp add: detach_fold_nodes)
  next
    case (Some n)
    with detached_kept [OF tree ids sub Some] that show ?thesis by simp
  qed
  fix i n' assume "fmlookup ?ns i = Some n'"
  with orig obtain n where n: "fmlookup (nodes g) i = Some n"
    "n' = (if Depth n = d then n\<lparr>Parent := None\<rparr> else n)" by blast
  with tree_okD(2) [OF tree n(1)] show "ComputeFrameID env (GlobalFrameNode.Frame n') = i" by simp
  from n show "Depth n' = d \<Longrightarrow> Parent n' = None" by auto
  fix p m' assume p: "Parent n' = Some p" "Depth n' < d" and m': "fmlookup ?ns p = Some m'"
  from p n(2) have "Parent n = Some p" "Depth n < d" by (auto split: if_splits)
  with tree_okD(3) [OF tree n(1)] orig [OF m'] show "Depth m' < d" by (auto split: if_splits)
qed

text \<open>
  Pruning is cutting the tree: with a head at depth 360 or more, exactly the 360 deepest levels up to
  the head and what lies beyond it stay.
\<close>

definition prune_depth :: "GlobalTimeReel \<Rightarrow> nat" where
  "prune_depth g = (case head g of None \<Rightarrow> 0
     | Some h \<Rightarrow> if depth_at g h < maxGlobalTreeDepth then 0 else depth_at g h - maxGlobalTreeDepth + 1)"

lemma pruning_start:
  assumes tree: "tree_ok env (nodes g)"
    and ids: "\<And>i n. fmlookup (nodes g) i = Some n \<Longrightarrow> i \<in> set is \<longleftrightarrow> Depth n < d"
    and sub: "\<And>i. i \<in> set is \<Longrightarrow> fmlookup (nodes g) i \<noteq> None"
    and index: "\<And>k l i. fmlookup (framesByNumber g) k = Some l \<Longrightarrow> i \<in> set l \<Longrightarrow>
        fmlookup (nodes g) i \<noteq> None \<and> frame_number (frame_at g i) = k"
  shows "pruning d (nodes (fold (detach_children d) is g)) is (fold (detach_children d) is g)"
proof -
  let ?g = "fold (detach_children d) is g"
  have lk: "fmlookup (nodes ?g) c = Some (if Depth n = d then n\<lparr>Parent := None\<rparr> else n)"
    if "fmlookup (nodes g) c = Some n" for c n by (rule detached_kept [OF tree ids sub that])
  have orig: "\<exists>n. fmlookup (nodes g) i = Some n \<and> Depth n' = Depth n" if "fmlookup (nodes ?g) i = Some n'" for i n'
    using that by (cases "fmlookup (nodes g) i") (auto simp: lk, simp add: detach_fold_nodes)
  have byNum: "framesByNumber ?g = framesByNumber g"
    using detach_fold_other [of d "is" g] by auto
  show ?thesis
    unfolding pruning_def byNum
  proof (intro conjI allI ballI impI)
    fix i n assume n: "fmlookup (nodes ?g) i = Some n"
    from orig [OF n] ids show "\<exists>n0. fmlookup (nodes ?g) i = Some n0 \<and> same_node n0 n \<and>
        (d \<le> Depth n \<longrightarrow> n = n0) \<and> (Depth n < d \<longrightarrow> i \<in> set is)" using n by auto
  next
    fix i assume i: "i \<in> set is"
    with sub [OF i] obtain n where "fmlookup (nodes g) i = Some n" by blast
    with lk [OF this] ids [OF this] i show "\<exists>n. fmlookup (nodes ?g) i = Some n \<and> Depth n < d" by auto
  next
    fix k l i assume "fmlookup (framesByNumber g) k = Some l" "i \<in> set l"
    from index [OF this] obtain n where "fmlookup (nodes g) i = Some n"
      "frame_number (GlobalFrameNode.Frame n) = k" by auto
    with lk [OF this(1)] show "fmlookup (nodes ?g) i \<noteq> None" "frame_number (frame_at ?g i) = k" by auto
  qed
qed

lemma pruned_is_cut:
  assumes "pruning d ns [] g'"
    and "\<And>i n. fmlookup (nodes g) i = Some n \<Longrightarrow> fmlookup ns i = Some (if Depth n = d then n\<lparr>Parent := None\<rparr> else n)"
    and "\<And>i. fmlookup (nodes g) i = None \<Longrightarrow> fmlookup ns i = None"
  shows "nodes g' = cut_at d (nodes g)"
proof (rule fmap_ext)
  fix i
  note orig = pruningD(2) [OF assms(1), of i]
  show "fmlookup (nodes g') i = fmlookup (cut_at d (nodes g)) i"
  proof (cases "fmlookup (nodes g) i")
    case None
    with assms(3) orig show ?thesis by (cases "fmlookup (nodes g') i") (auto simp: cut_lookup)
  next
    case (Some n)
    note ns = assms(2) [OF Some]
    show ?thesis
    proof (cases "Depth n < d")
      case True
      have "fmlookup (nodes g') i = None"
      proof (rule ccontr)
        assume "fmlookup (nodes g') i \<noteq> None"
        then obtain m where "fmlookup (nodes g') i = Some m" by blast
        from orig [OF this] obtain n0 where n0: "fmlookup ns i = Some n0" "same_node n0 m"
          "Depth m < d \<longrightarrow> i \<in> set []" by blast
        from n0(1) ns have "Depth n0 = Depth n" by (auto split: if_splits)
        with n0(2, 3) True show False by (simp add: same_node_def)
      qed
      with Some True show ?thesis by (simp add: cut_lookup)
    next
      case False
      with pruningD(1) [OF assms(1) ns] Some show ?thesis by (auto simp: cut_lookup)
    qed
  qed
qed

lemma pruneOldFrames_ok:
  assumes fair: "fair_order env" and ok: "reel_ok env g"
  shows "reel_ok env (pruneOldFrames env g) \<and> same_rest g (pruneOldFrames env g) \<and>
    (if prune_depth g = 0 then pruneOldFrames env g = g
     else nodes (pruneOldFrames env g) = cut_at (prune_depth g) (nodes g)) \<and>
    (root g \<noteq> None \<longrightarrow> root (pruneOldFrames env g) = None \<longrightarrow>
      (\<forall>i n. fmlookup (nodes g) i = Some n \<longrightarrow> Depth n \<noteq> prune_depth g))"
proof (cases "prune_depth g = 0")
  case True
  then have "pruneOldFrames env g = g"
    by (auto simp: pruneOldFrames_def prune_depth_def split: option.splits if_splits)
  with ok True show ?thesis by (auto simp: same_rest_def)
next
  case False
  then obtain h where h: "head g = Some h" "\<not> depth_at g h < maxGlobalTreeDepth"
    and d: "prune_depth g = depth_at g h - maxGlobalTreeDepth + 1"
    by (auto simp: prune_depth_def split: option.splits if_splits)
  let ?d = "prune_depth g"
  obtain ids g1 where rn: "range_nodes env g = (ids, g1)" by (cases "range_nodes env g") auto
  note ids = range_nodes_ok [OF fair rn]
  then have g1: "nodes g1 = nodes g" "framesByNumber g1 = framesByNumber g" "root g1 = root g" "same_rest g g1"
    by (auto simp: quiet_def same_tree_def same_rest_def)
  define is' where "is' = filter (\<lambda>i. depth_at g1 i < ?d) ids"
  define g2 where "g2 = fold (detach_children ?d) is' g1"
  note tree = reel_okD(1) [OF ok]
  have is1: "i \<in> set is' \<longleftrightarrow> Depth n < ?d" if "fmlookup (nodes g1) i = Some n" for i n
    using that ids(2) g1(1) by (auto simp: is'_def fmdom'I)
  have is2: "fmlookup (nodes g1) i \<noteq> None" if "i \<in> set is'" for i
    using that ids(2) g1(1) by (auto simp: is'_def fmlookup_dom'_iff)
  have tree1: "tree_ok env (nodes g1)" using tree g1(1) by simp
  have lk: "fmlookup (nodes g2) c = Some (if Depth n = ?d then n\<lparr>Parent := None\<rparr> else n)"
    if "fmlookup (nodes g) c = Some n" for c n
    unfolding g2_def by (rule detached_kept [OF tree1 is1 is2]) (simp_all add: g1(1) that)
  have g2: "root g2 = root g1" "same_rest g1 g2"
    using detach_fold_other [of ?d is' g1] by (auto simp: g2_def same_rest_def)
  have pr: "pruning ?d (nodes g2) is' g2"
    unfolding g2_def using reel_okD(7) [OF ok] g1 by (intro pruning_start [OF tree1 is1 is2]) auto
  have rt: "\<forall>r. root g2 = Some r \<longrightarrow> fmlookup (nodes g2) r \<noteq> None"
  proof (intro allI impI)
    fix r assume "root g2 = Some r"
    with g1(3) g2(1) reel_okD(3) [OF ok, of r] obtain n where "fmlookup (nodes g) r = Some n" by auto
    with lk show "fmlookup (nodes g2) r \<noteq> None" by simp
  qed
  define g3 where "g3 = fold (prune_node env ?d) is' g2"
  have g3: "pruneOldFrames env g = g3"
    using h d rn by (simp add: pruneOldFrames_def g3_def g2_def is'_def Let_def)
  have dist: "distinct is'" using ids(3) by (simp add: is'_def)
  have "cuttable env ?d (nodes g2)" unfolding g2_def by (rule cuttable_detached [OF tree1 is1 is2])
  note fin = prune_fold [OF fair this pr dist rt, folded g3_def, unfolded Let_def]
  have cut: "nodes g3 = cut_at ?d (nodes g)"
  proof (rule pruned_is_cut)
    show "pruning ?d (nodes g2) [] g3" using fin by blast
    show "fmlookup (nodes g2) i = Some (if Depth n = ?d then n\<lparr>Parent := None\<rparr> else n)"
      if "fmlookup (nodes g) i = Some n" for i n using lk that by simp
    show "fmlookup (nodes g2) i = None" if "fmlookup (nodes g) i = None" for i
      using that g1(1) by (simp add: g2_def detach_fold_nodes)
  qed
  have rest: "same_rest g g3" using fin g1(4) g2(2) by (auto simp: same_rest_def)
  have head: "fmlookup (nodes g3) h \<noteq> None"
    using reel_okD(2) [OF ok h(1)] d h(2) by (auto simp: cut cut_lookup maxGlobalTreeDepth_def)
  have "reel_ok env g3"
    using cut_tree [OF tree] head h(1) rest fin pruningD(4) [of ?d _ "[]" g3] reel_okD(5, 6) [OF ok]
      pending_at_cong [of g3 g]
    unfolding reel_ok_def same_rest_def cut by auto
  moreover have "Depth n \<noteq> ?d" if "root g \<noteq> None" "root g3 = None" "fmlookup (nodes g) i = Some n" for i n
    using fin that g1 g2 lk [of i n] by (fastforce split: if_splits)
  ultimately show ?thesis using False rest cut g3 by simp
qed

end
