(* ===== verification/Global_Reel_Insert.thy ===== *)
theory Global_Reel_Insert
  imports Global_Reel_Pruning
begin

text \<open>
  The insertion of a frame as a whole.  \<open>Insert_outcome\<close> shows that \<^verbatim>\<open>Insert\<close> returns on every
  well-formed reel, keeps it well formed, and ends in one of four ways (\<open>outcome\<close>).
\<close>

section \<open>Every insertion returns and keeps the reel well formed\<close>

text \<open>The invariant speaks of the environment only through its hash.\<close>

lemma ComputeFrameID_cong: "hash env = hash env' \<Longrightarrow> ComputeFrameID env = ComputeFrameID env'"
  by (simp add: ComputeFrameID_def fun_eq_iff)

lemma reel_ok_cong: "hash env = hash env' \<Longrightarrow> reel_ok env g = reel_ok env' g"
  by (simp add: reel_ok_def tree_ok_def ComputeFrameID_cong [of env env'])

lemma reel_ok_fields:
  assumes "reel_ok env g" and "nodes g' = nodes g" and "head g' = head g" and "root g' = root g"
    and "framesByNumber g' = framesByNumber g" and "params_ok (forkChoiceParams g')"
    and "\<And>p sel. p \<in> set (pending_at g' sel) \<Longrightarrow> p \<in> set (pending_at g sel) \<or>
      GlobalFrame.Header (GlobalPendingFrame.Frame p) \<noteq> None \<and> selector_of (GlobalPendingFrame.Frame p) = sel"
  shows "reel_ok env g'"
  using assms(1) assms(7) unfolding reel_ok_def assms(2-5) using assms(6) by blast

definition marked :: "GlobalTimeReel \<Rightarrow> GlobalTimeReel \<Rightarrow> bool" where
  "marked g g' \<longleftrightarrow> nodes g' = nodes g \<and> head g' = head g \<and> root g' = root g \<and>
     framesByNumber g' = framesByNumber g \<and> forkChoiceParams g' = forkChoiceParams g \<and>
     pendingFrames g' = pendingFrames g \<and> genesisFrameNumber g' = genesisFrameNumber g \<and>
     archiveMode g' = archiveMode g"

lemma mark_fold: "marked g (fold (mark_equivocation frame) is g)"
proof (induction "is" arbitrary: g)
  case (Cons i "is")
  have "marked g (mark_equivocation frame i g)"
    by (simp add: marked_def mark_equivocation_def sendEvent_def Let_def)
  with Cons [of "mark_equivocation frame i g"] show ?case by (simp add: marked_def)
qed (simp add: marked_def)

lemma reel_ok_marked: "reel_ok env g \<Longrightarrow> marked g g' \<Longrightarrow> reel_ok env g'"
  using pending_at_cong [of g' g] reel_okD(6) [of env g]
  by (intro reel_ok_fields [of env g g']) (auto simp: marked_def)

lemma addPendingFrame_ok:
  assumes "reel_ok env g" and "GlobalFrame.Header frame \<noteq> None"
  shows "reel_ok env (addPendingFrame frame g)"
proof (rule reel_ok_fields [OF assms(1)])
  show "p \<in> set (pending_at g sel) \<or>
      GlobalFrame.Header (GlobalPendingFrame.Frame p) \<noteq> None \<and> selector_of (GlobalPendingFrame.Frame p) = sel"
    if "p \<in> set (pending_at (addPendingFrame frame g) sel)" for p sel
    using that assms(2)
    by (auto simp: addPendingFrame_def Let_def pending_at_def [of _ sel] pending_at_def [of g]
        split: option.splits if_splits)
qed (use reel_okD(6) [OF assms(1)] in \<open>simp_all add: addPendingFrame_def Let_def\<close>)

lemma pruneOldPendingFrames_ok:
  assumes "reel_ok env g"
  shows "reel_ok env (pruneOldPendingFrames env' g)"
proof (rule reel_ok_fields [OF assms])
  show "p \<in> set (pending_at g sel) \<or>
      GlobalFrame.Header (GlobalPendingFrame.Frame p) \<noteq> None \<and> selector_of (GlobalPendingFrame.Frame p) = sel"
    if "p \<in> set (pending_at (pruneOldPendingFrames env' g) sel)" for p sel
    using that by (auto simp: pruneOldPendingFrames_def Let_def pending_at_def split: option.splits if_splits)
qed (use reel_okD(6) [OF assms] in \<open>simp_all add: pruneOldPendingFrames_def Let_def\<close>)

text \<open>A new root.\<close>

definition plant :: "GlobalFrame \<Rightarrow> frame_id \<Rightarrow> GlobalTimeReel \<Rightarrow> GlobalTimeReel" where
  "plant frame i g = g\<lparr>root := Some i,
     nodes := fmupd i \<lparr>GlobalFrameNode.Frame = frame, Parent = None, Children = {}, Depth = 0\<rparr> (nodes g),
     framesByNumber := fmupd (frame_number frame) [i] (framesByNumber g), head := Some i\<rparr>"

lemma plant_ok:
  assumes ok: "reel_ok env g" and fresh: "fmlookup (nodes g) i = None" and id: "ComputeFrameID env frame = i"
    and "GlobalFrame.Header frame \<noteq> None"
  shows "reel_ok env (plant frame i g)"
proof -
  have nc: "i \<notin> Children n" if "fmlookup (nodes g) j = Some n" for j n
    using tree_okD(4) [OF reel_okD(1) [OF ok] that, of i] fresh by auto
  have "tree_ok env (nodes (plant frame i g))"
    using reel_okD(1) [OF ok] fresh id assms(4)
    unfolding tree_ok_def plant_def by (auto 4 3 dest: nc)
  moreover have "fmlookup (nodes (plant frame i g)) j \<noteq> None \<and> frame_number (frame_at (plant frame i g) j) = k"
    if "fmlookup (framesByNumber (plant frame i g)) k = Some l" "j \<in> set l" for j k l
    using that reel_okD(7) [OF ok, of k l j] fresh by (auto simp: plant_def split: if_splits)
  moreover have "pending_at (plant frame i g) = pending_at g"
    by (rule pending_at_cong) (simp add: plant_def)
  ultimately show ?thesis
    using reel_okD(5, 6) [OF ok] unfolding reel_ok_def by (auto simp: plant_def)
qed

text \<open>
  What an insertion may do to the reel: nothing but note equivocators, let the frame wait, plant a
  root, or link the frame and prune.
\<close>

definition in_span :: "GlobalTimeReel \<Rightarrow> bool" where
  "in_span g \<longleftrightarrow> (\<forall>h i n. head g = Some h \<longrightarrow> fmlookup (nodes g) i = Some n \<longrightarrow>
     depth_at g h < Depth n + maxGlobalTreeDepth)"

lemma pruned_span:
  assumes "fair_order env" and ok: "reel_ok env g"
  shows "in_span (pruneOldFrames env g)"
proof -
  let ?g = "pruneOldFrames env g"
  note pr = pruneOldFrames_ok [OF assms]
  have "depth_at ?g h < Depth n + maxGlobalTreeDepth" if h: "head ?g = Some h" and n: "fmlookup (nodes ?g) i = Some n"
    for h i n
  proof -
    from pr h have hg: "head g = Some h" by (simp add: same_rest_def)
    show ?thesis
    proof (cases "prune_depth g = 0")
      case True
      with pr hg n show ?thesis by (auto simp: prune_depth_def split: if_splits)
    next
      case False
      with pr have cut: "nodes ?g = cut_at (prune_depth g) (nodes g)" by simp
      from cut_kept [OF n [unfolded cut]] have "prune_depth g \<le> Depth n" by auto
      moreover have "depth_at ?g h = depth_at g h"
      proof -
        from reel_okD(2) pr h have "fmlookup (nodes ?g) h \<noteq> None" by blast
        then obtain m where m: "fmlookup (nodes ?g) h = Some m" by blast
        from cut_kept [OF m [unfolded cut]] m show ?thesis by auto
      qed
      ultimately show ?thesis using False hg by (auto simp: prune_depth_def split: if_splits)
    qed
  qed
  then show ?thesis by (simp add: in_span_def)
qed

definition same_place :: "GlobalTimeReel \<Rightarrow> GlobalTimeReel \<Rightarrow> bool" where
  "same_place g g' \<longleftrightarrow> nodes g' = nodes g \<and> head g' = head g \<and> root g' = root g"

lemma same_place_refl: "same_place g g"
  by (simp add: same_place_def)

text \<open>The four ways an insertion ends, told apart by what happened to the tree.\<close>

inductive outcome :: "reel_env \<Rightarrow> GlobalFrame \<Rightarrow> GlobalTimeReel \<Rightarrow> GlobalTimeReel \<Rightarrow> bool"
  for env frame g where
  unchanged: "same_place g g' \<Longrightarrow> outcome env frame g g'"
| planted: "root g = None \<or> \<not> archiveMode g \<Longrightarrow> fmlookup (nodes g) i = None \<Longrightarrow>
    same_place (plant frame i g) g' \<Longrightarrow> outcome env frame g g'"
| grown: "root g = None \<or> \<not> archiveMode g \<Longrightarrow> fmlookup (nodes g) i = None \<Longrightarrow>
    connected env (plant frame i g) (Some g1) \<Longrightarrow>
    same_place (pruneOldFrames env g1) g' \<Longrightarrow> outcome env frame g g'"
| linked: "nodes g \<noteq> fmempty \<Longrightarrow> reel_ok env g1 \<Longrightarrow> grows g g1 \<Longrightarrow> deepest g1 \<Longrightarrow>
    same_place (pruneOldFrames env g1) g' \<Longrightarrow> outcome env frame g g'"

lemma insertGenesisFrame_outcome:
  assumes fair: "fair_order env" and ok: "reel_ok env g" and hd: "GlobalFrame.Header frame \<noteq> None"
    and fresh: "fmlookup (nodes g) (ComputeFrameID env frame) = None"
  shows "\<exists>r g'. insertGenesisFrame env frame (ComputeFrameID env frame) g = Some (r, g') \<and>
    reel_ok env g' \<and> archiveMode g' = archiveMode g \<and> equivocators g' = equivocators g \<and>
    outcome env frame g g'"
proof -
  let ?i = "ComputeFrameID env frame"
  let ?p = "plant frame ?i g"
  obtain b g1 where per: "persistCanonicalFrames env [frame] ?p = (b, g1)"
    by (cases "persistCanonicalFrames env [frame] ?p") auto
  from quiet_persist [of ?p env "[frame]"] per have q1: "quiet ?p g1" by simp
  have okp: "reel_ok env ?p" by (rule plant_ok [OF ok fresh refl hd])
  have arch: "archiveMode ?p = archiveMode g" "equivocators ?p = equivocators g" by (simp_all add: plant_def)
  have hdp: "head ?p = Some ?i" "fmlookup (nodes ?p) ?i \<noteq> None" by (simp_all add: plant_def)
  have okq: "reel_ok env g'" if "quiet ?p g'" for g'
    using that hdp by (intro reel_ok_settled [OF okp]) (auto simp: quiet_def)
  define old where "old = (root g \<noteq> None \<and> (archiveMode g \<or>
      frame_number frame \<ge> frame_number (frame_at g (the (root g)))))"
  have new: "root g = None \<or> \<not> archiveMode g" if "\<not> old" using that by (auto simp: old_def)
  consider (old) old | (failed) "\<not> old" "\<not> b" | (stored) "\<not> old" b by blast
  then show ?thesis
  proof cases
    case old
    then have "\<exists>r. insertGenesisFrame env frame ?i g = Some (r, g)"
      by (auto simp: insertGenesisFrame_def old_def)
    with ok outcome.unchanged [OF same_place_refl] show ?thesis by blast
  next
    case failed
    then have "insertGenesisFrame env frame ?i g = Some (Inl PersistFailed, g1)"
      using per by (auto simp: insertGenesisFrame_def plant_def Let_def old_def)
    moreover have "outcome env frame g g1"
      using new [OF failed(1)] fresh q1 by (intro outcome.planted) (auto simp: quiet_def same_tree_def same_place_def)
    ultimately show ?thesis using okq [OF q1] q1 arch by (auto simp: quiet_def same_tree_def)
  next
    case stored
    define g2 where "g2 = sendEvent \<lparr>Type = TimeReelEventNewHead, GlobalEvent.Frame = frame, OldHead = None\<rparr> g1"
    have q2: "quiet ?p g2" unfolding g2_def by (rule quiet_trans [OF q1 quiet_sendEvent])
    then have n2: "nodes g2 = nodes ?p" by (simp add: quiet_def same_tree_def)
    from processPendingFrames_ok [OF fair okq [OF q2], of ?i] n2 hdp(2) obtain g3 where
      g3: "processPendingFrames env ?i g2 = Some g3" "connected env g2 (Some g3)"
      by (auto simp: connected_def)
    have w: "waiting g2 = waiting ?p" using q2 by (intro waiting_cong) (simp add: quiet_def same_tree_def)
    have "connected env ?p (Some g3)"
      using g3(2) q2 w grows_trans [OF grows_same_tree, of ?p g2 g3]
      by (auto simp: connected_def quiet_def same_tree_def)
    then have "outcome env frame g (pruneOldFrames env g3)"
      using new [OF stored(1)] fresh by (intro outcome.grown) (auto simp: same_place_def)
    moreover have "insertGenesisFrame env frame ?i g = Some (Inr (), pruneOldFrames env g3)"
      using stored per g3(1) by (auto simp: insertGenesisFrame_def plant_def Let_def g2_def old_def)
    moreover have "reel_ok env g3" "archiveMode g3 = archiveMode g" "equivocators g3 = equivocators g"
      using g3(2) q2 arch by (auto simp: connected_def grows_def quiet_def same_tree_def)
    ultimately show ?thesis using pruneOldFrames_ok [OF fair, of g3] by (auto simp: same_rest_def)
  qed
qed

lemma findNodeBySelector_ok:
  assumes "fair_order env" and "findNodeBySelector env sel g = (r, g')"
  shows "quiet g g'" and "r = Some i \<Longrightarrow> fmlookup (nodes g) i \<noteq> None \<and> hash env (output_of (frame_at g i)) = sel"
proof -
  obtain ids g1 where rn: "range_nodes env g = (ids, g1)" by (cases "range_nodes env g") auto
  note ids = range_nodes_ok [OF assms(1) rn]
  from ids(1) have n1: "nodes g1 = nodes g" by (simp add: quiet_def same_tree_def)
  from assms(2) rn have "g' = g1" and f: "List.find (\<lambda>i. hash env (output_of (frame_at g1 i)) = sel) ids = r"
    by (auto simp: findNodeBySelector_def)
  with ids(1) show "quiet g g'" by simp
  show "r = Some i \<Longrightarrow> fmlookup (nodes g) i \<noteq> None \<and> hash env (output_of (frame_at g i)) = sel"
    using f ids(2) n1 by (auto simp: find_Some_iff fmlookup_dom'_iff dest: nth_mem)
qed

lemma link_outcome:
  assumes fair: "fair_order env" and ok: "reel_ok env g" and hd: "GlobalFrame.Header frame \<noteq> None"
    and fresh: "fmlookup (nodes g) (ComputeFrameID env frame) = None"
    and par: "fmlookup (nodes g) parent \<noteq> None" "hash env (output_of (frame_at g parent)) = selector_of frame"
  shows "\<exists>g'. processPendingFrames env (ComputeFrameID env frame) (link_node env frame parent g) \<bind>
      evaluateForkChoice env (ComputeFrameID env frame) = Some g' \<and> reel_ok env g' \<and> grows g g' \<and> deepest g'"
proof -
  let ?i = "ComputeFrameID env frame" and ?g = "link_node env frame parent g"
  obtain p where p: "fmlookup (nodes g) parent = Some p" using par(1) by blast
  have okl: "reel_ok env ?g" by (rule link_node_ok [OF ok p fresh hd par(2) [symmetric]])
  have i: "fmlookup (nodes ?g) ?i \<noteq> None" "Children (node ?g ?i) = {}"
    using link_node_lookup [OF p] p fresh by auto
  from evaluate_connected [OF fair i processPendingFrames_ok [OF fair okl i(1)]]
    grows_trans [OF link_node_grows [OF p fresh]] show ?thesis by blast
qed

lemma quiet_marked: "quiet g g' \<Longrightarrow> marked g g'"
  by (simp add: quiet_def same_tree_def marked_def)

text \<open>The reel after the conflicts with known frames of the same height were noted.\<close>

abbreviation noted :: "GlobalFrame \<Rightarrow> GlobalTimeReel \<Rightarrow> GlobalTimeReel" where
  "noted frame g \<equiv> fold (mark_equivocation frame)
     (case fmlookup (framesByNumber g) (frame_number frame) of None \<Rightarrow> [] | Some l \<Rightarrow> l) g"

lemma Insert_known:
  assumes "GlobalFrame.Header frame \<noteq> None" and "fmlookup (nodes g) (ComputeFrameID env frame) \<noteq> None"
  shows "Insert env frame g = Some (Inr (), g)"
  using assms by (simp add: Insert_def Let_def)

lemma Insert_outcome:
  assumes fair: "fair_order env" and ok: "reel_ok env g" and hd: "GlobalFrame.Header frame \<noteq> None"
    and fresh: "fmlookup (nodes g) (ComputeFrameID env frame) = None"
  shows "\<exists>r g'. Insert env frame g = Some (r, g') \<and> reel_ok env g' \<and>
    archiveMode g' = archiveMode g \<and> equivocators g' = equivocators (noted frame g) \<and>
    outcome env frame (noted frame g) g'"
proof -
  let ?i = "ComputeFrameID env frame"
  define g1 where "g1 = noted frame g"
  have m1: "marked g g1" unfolding g1_def by (rule mark_fold)
  have ok1: "reel_ok env g1" by (rule reel_ok_marked [OF ok m1])
  have fresh1: "fmlookup (nodes g1) ?i = None" using fresh m1 by (simp add: marked_def)
  have "\<exists>r g'. Insert env frame g = Some (r, g') \<and> reel_ok env g' \<and> archiveMode g' = archiveMode g1 \<and>
      equivocators g' = equivocators g1 \<and> outcome env frame g1 g'"
  proof (cases "frame_number frame = genesisFrameNumber g1 \<or>
      \<not> archiveMode g1 \<and> root g1 = None \<and> nodes g1 = fmempty")
    case True
    then have "Insert env frame g = insertGenesisFrame env frame ?i g1"
      using fresh hd by (auto simp: Insert_def Let_def g1_def)
    with insertGenesisFrame_outcome [OF fair ok1 hd fresh1] show ?thesis by simp
  next
    case False
    obtain r g2 where fn: "findNodeBySelector env (selector_of frame) g1 = (r, g2)"
      by (cases "findNodeBySelector env (selector_of frame) g1") auto
    note fn_ok = findNodeBySelector_ok [OF fair fn]
    have m2: "marked g1 g2" by (rule quiet_marked [OF fn_ok(1)])
    have eq2: "equivocators g2 = equivocators g1" using fn_ok(1) by (simp add: quiet_def same_tree_def)
    have ok2: "reel_ok env g2" by (rule reel_ok_marked [OF ok1 m2])
    show ?thesis
    proof (cases r)
      case None
      have "\<exists>g'. Insert env frame g = Some (Inr (), g') \<and> (g' = g2 \<or> g' = addPendingFrame frame g2)"
        using False fresh hd fn None by (auto simp: Insert_def Let_def g1_def split: option.splits)
      then obtain g' where g': "Insert env frame g = Some (Inr (), g')" "g' = g2 \<or> g' = addPendingFrame frame g2"
        by blast
      have "same_place g1 g'" "archiveMode g' = archiveMode g1" "equivocators g' = equivocators g1"
        using g'(2) m2 eq2 by (auto simp: addPendingFrame_def Let_def marked_def same_place_def)
      with g' ok2 addPendingFrame_ok [OF ok2 hd] show ?thesis by (auto intro: outcome.unchanged)
    next
      case (Some parent)
      from fn_ok(2) [OF Some] m2 have par: "fmlookup (nodes g2) parent \<noteq> None"
        "hash env (output_of (frame_at g2 parent)) = selector_of frame" by (auto simp: marked_def)
      have fresh2: "fmlookup (nodes g2) ?i = None" using fresh1 m2 by (simp add: marked_def)
      from link_outcome [OF fair ok2 hd fresh2 par] obtain g3 where
        g3: "processPendingFrames env ?i (link_node env frame parent g2) \<bind> evaluateForkChoice env ?i = Some g3"
          "reel_ok env g3" "grows g2 g3" "deepest g3" by blast
      define g4 where "g4 = pruneOldPendingFrames env (pruneOldFrames env g3)"
      have "Insert env frame g = Some (Inr (), g4)"
        using False fresh hd fn Some par g3(1)
        by (auto simp: Insert_def Let_def g1_def g4_def bind_eq_Some_conv)
      moreover have g4: "same_place (pruneOldFrames env g3) g4"
        "archiveMode g4 = archiveMode (pruneOldFrames env g3)"
        "equivocators g4 = equivocators (pruneOldFrames env g3)"
        by (simp_all add: g4_def pruneOldPendingFrames_def Let_def same_place_def)
      moreover have gr: "grows g1 g3"
        using grows_trans [OF grows_same_tree g3(3)] fn_ok(1) by (simp add: quiet_def)
      moreover have "outcome env frame g1 g4"
        using par(1) m2 by (intro outcome.linked [OF _ g3(2) gr g3(4) g4(1)]) (auto simp: marked_def)
      moreover note pruneOldFrames_ok [OF fair g3(2)]
        pruneOldPendingFrames_ok [of env "pruneOldFrames env g3" env]
      ultimately show ?thesis by (auto simp: same_rest_def g4_def growsD(6, 7) [OF gr])
    qed
  qed
  with m1 show ?thesis by (auto simp: marked_def g1_def)
qed

end
