(* ===== verification/Global_Reel_Guarantees.thy ===== *)
theory Global_Reel_Guarantees
  imports Global_Reel_Insert "HOL-Library.List_Lexorder" "HOL-Library.Char_ord"
begin

text \<open>
  The guarantees of the global time reel over all sequences of calls: insertion ends, the head of an
  archive reel is a deepest node, the tree and the lineage stay within 360 levels, lineages are
  linked by hashes, equivocators stay recorded; and two runs on which the store does not follow the
  canonical chain.
\<close>

section \<open>Archive mode: one tree with a deepest head\<close>

text \<open>All nodes without a parent lie at the same depth.\<close>

definition levelled :: "(frame_id, GlobalFrameNode) fmap \<Rightarrow> nat \<Rightarrow> bool" where
  "levelled ns b \<longleftrightarrow> (\<forall>i n. fmlookup ns i = Some n \<longrightarrow> Parent n = None \<longrightarrow> Depth n = b)"

lemma levelled_below:
  assumes tree: "tree_ok env ns" and "levelled ns b"
  shows "fmlookup ns i = Some n \<Longrightarrow> b \<le> Depth n \<and>
    (\<forall>d. b \<le> d \<longrightarrow> d \<le> Depth n \<longrightarrow> (\<exists>j m. fmlookup ns j = Some m \<and> Depth m = d))"
proof (induction "Depth n" arbitrary: i n)
  case 0
  then have "Parent n = None"
    using tree_okD(3) [OF tree 0(2)] by (cases "Parent n") auto
  with assms(2) 0 show ?case by (auto simp: levelled_def)
next
  case (Suc k)
  show ?case
  proof (cases "Parent n")
    case None
    with assms(2) Suc.prems have "Depth n = b" by (auto simp: levelled_def)
    with Suc.prems show ?thesis by (metis le_antisym order_refl)
  next
    case (Some p)
    from tree_okD(3) [OF tree Suc.prems Some] obtain m where m: "fmlookup ns p = Some m"
      "Depth n = Depth m + 1" by blast
    with Suc.hyps(1) [OF _ m(1)] Suc.hyps(2) have IH: "b \<le> Depth m"
      "\<And>d. b \<le> d \<Longrightarrow> d \<le> Depth m \<Longrightarrow> \<exists>j m. fmlookup ns j = Some m \<and> Depth m = d" by auto
    have "\<exists>j m. fmlookup ns j = Some m \<and> Depth m = d" if "b \<le> d" "d \<le> Depth n" for d
      using IH(2) [OF that(1)] that(2) m(2) Suc.prems by (cases "d = Depth n") auto
    with IH(1) m(2) show ?thesis by auto
  qed
qed

lemma levelled_grows:
  assumes "levelled (nodes g) b" and "grows g g'"
  shows "levelled (nodes g') b"
  unfolding levelled_def
proof (intro allI impI)
  fix i n' assume n': "fmlookup (nodes g') i = Some n'" "Parent n' = None"
  with growsD(2) [OF assms(2) n'(1)] obtain n where n: "fmlookup (nodes g) i = Some n" by fastforce
  with growsD(1) [OF assms(2) n] n' assms(1) show "Depth n' = b" by (auto simp: same_node_def levelled_def)
qed

lemma levelled_cut:
  assumes tree: "tree_ok env ns" and lv: "levelled ns b"
  shows "levelled (cut_at d ns) (max b d)"
  unfolding levelled_def
proof (intro allI impI)
  fix i n assume "fmlookup (cut_at d ns) i = Some n" and p: "Parent n = None"
  from cut_kept [OF this(1)] obtain n0 where n0: "fmlookup ns i = Some n0" "d \<le> Depth n0" "Depth n = Depth n0"
    "Parent n = (if Depth n0 = d then None else Parent n0)" by blast
  from levelled_below [OF tree lv n0(1)] have "b \<le> Depth n0" by blast
  moreover have "Depth n0 = d \<or> Depth n0 = b" using n0 p lv by (auto simp: levelled_def split: if_splits)
  ultimately show "Depth n = max b d" using n0 by auto
qed

definition archived :: "GlobalTimeReel \<Rightarrow> bool" where
  "archived g \<longleftrightarrow> archiveMode g \<and> (root g = None \<longrightarrow> nodes g = fmempty) \<and>
     (nodes g \<noteq> fmempty \<longrightarrow> deepest g) \<and> (\<exists>b. levelled (nodes g) b)"

lemma archived_place: "archived g \<Longrightarrow> same_place g g' \<Longrightarrow> archiveMode g' = archiveMode g \<Longrightarrow> archived g'"
  by (simp add: archived_def same_place_def deepest_def)

lemma prune_fold_root:
  "root g = Some r \<Longrightarrow> r \<notin> set is \<Longrightarrow> root (fold (prune_node env d) is g) = Some r"
  by (induction "is" arbitrary: g) (auto simp: prune_node_def Let_def)

lemma pruneOldFrames_root:
  assumes fair: "fair_order env" and r: "root g = Some r" "prune_depth g \<le> depth_at g r"
  shows "root (pruneOldFrames env g) = Some r"
proof (cases "prune_depth g = 0")
  case True
  then have "pruneOldFrames env g = g"
    by (auto simp: pruneOldFrames_def prune_depth_def split: option.splits if_splits)
  with r show ?thesis by simp
next
  case False
  then obtain h where h: "head g = Some h" "\<not> depth_at g h < maxGlobalTreeDepth"
    and d: "prune_depth g = depth_at g h - maxGlobalTreeDepth + 1"
    by (auto simp: prune_depth_def split: option.splits if_splits)
  obtain ids g1 where rn: "range_nodes env g = (ids, g1)" by (cases "range_nodes env g") auto
  from range_nodes_ok(1) [OF fair rn] have g1: "nodes g1 = nodes g" "root g1 = root g"
    by (simp_all add: quiet_def same_tree_def)
  define is' where "is' = filter (\<lambda>i. depth_at g1 i < prune_depth g) ids"
  have "pruneOldFrames env g = fold (prune_node env (prune_depth g)) is'
      (fold (detach_children (prune_depth g)) is' g1)"
    using h d rn by (simp add: pruneOldFrames_def is'_def Let_def)
  moreover have "r \<notin> set is'" using r(2) g1(1) by (auto simp: is'_def)
  moreover have "root (fold (detach_children (prune_depth g)) is' g1) = Some r"
    using detach_fold_other [of "prune_depth g" is' g1] g1(2) r(1) by auto
  ultimately show ?thesis by (simp add: prune_fold_root)
qed

lemma archived_prune:
  assumes fair: "fair_order env" and ok: "reel_ok env g" and ar: "archived g"
  shows "archived (pruneOldFrames env g)"
proof (cases "prune_depth g = 0")
  case True
  then have "pruneOldFrames env g = g"
    by (auto simp: pruneOldFrames_def prune_depth_def split: option.splits if_splits)
  with ar show ?thesis by simp
next
  case False
  let ?g = "pruneOldFrames env g" and ?d = "prune_depth g"
  note pr = pruneOldFrames_ok [OF fair ok]
  note tree = reel_okD(1) [OF ok]
  from False pr have cut: "nodes ?g = cut_at ?d (nodes g)" and rest: "same_rest g ?g" by auto
  from False obtain h where h: "head g = Some h" "?d \<le> depth_at g h"
    by (auto simp: prune_depth_def maxGlobalTreeDepth_def split: option.splits if_splits)
  from reel_okD(2) [OF ok h(1)] obtain hn where hn: "fmlookup (nodes g) h = Some hn" by blast
  then have ne: "nodes g \<noteq> fmempty" by auto
  from ar obtain b where lv: "levelled (nodes g) b" by (auto simp: archived_def)
  from ar ne obtain r where r: "root g = Some r" by (auto simp: archived_def)
  from reel_okD(3) [OF ok r] obtain rn where rn: "fmlookup (nodes g) r = Some rn" by blast
  have "root ?g \<noteq> None"
  proof (cases "?d \<le> Depth rn")
    case True
    with pruneOldFrames_root [OF fair r] rn show ?thesis by simp
  next
    case False
    with levelled_below [OF tree lv rn] have "b \<le> ?d" by linarith
    with levelled_below [OF tree lv hn] h(2) hn obtain j m where "fmlookup (nodes g) j = Some m" "Depth m = ?d"
      by auto
    with pr r show ?thesis by blast
  qed
  moreover have "deepest ?g"
  proof -
    from ar ne h(1) have top: "topmost g h" by (auto simp: archived_def deepest_top)
    from cut_keeps [OF hn, of ?d] h(2) hn obtain m where m: "fmlookup (nodes ?g) h = Some m" "Depth m = Depth hn"
      by (auto simp: cut)
    have "Depth n \<le> depth_at ?g h" if "fmlookup (nodes ?g) i = Some n" for i n
      using cut_kept [OF that [unfolded cut]] top m hn by (fastforce simp: topmost_def)
    with m rest h(1) show ?thesis by (auto simp: deepest_def same_rest_def)
  qed
  moreover have "levelled (nodes ?g) (max b ?d)" unfolding cut by (rule levelled_cut [OF tree lv])
  ultimately show ?thesis using ar rest by (auto simp: archived_def same_rest_def)
qed

lemma archived_plant:
  assumes "archiveMode g" and "nodes g = fmempty"
  shows "archived (plant frame i g)"
  using assms by (auto simp: archived_def plant_def deepest_def levelled_def)

lemma archived_grows:
  assumes "archived g" and "grows g g'" and "nodes g \<noteq> fmempty" and "deepest g'"
  shows "archived g'"
  using assms levelled_grows [OF _ assms(2)] growsD(3, 6) [OF assms(2)] by (auto simp: archived_def)

lemma archived_outcome:
  assumes fair: "fair_order env" and ar: "archived g" and mode: "archiveMode g' = archiveMode g"
    and "outcome env frame g g'"
  shows "archived g'"
  using assms(4)
proof cases
  case unchanged
  from archived_place [OF ar this mode] show ?thesis .
next
  case (planted i)
  with ar have "archived (plant frame i g)" by (intro archived_plant) (auto simp: archived_def)
  then show ?thesis by (rule archived_place) (use planted mode in \<open>auto simp: plant_def\<close>)
next
  case (grown i g1)
  with ar have p: "archived (plant frame i g)" by (intro archived_plant) (auto simp: archived_def)
  moreover have "nodes (plant frame i g) \<noteq> fmempty" by (simp add: plant_def)
  moreover from this p grown(3) have "deepest g1"
    by (auto simp: connected_def archived_def deepest_def)
  moreover have "grows (plant frame i g) g1" using grown(3) by (simp add: connected_def)
  ultimately have g1: "archived g1" using archived_grows by blast
  from grown(3) have ok: "reel_ok env g1" by (auto simp: connected_def)
  show ?thesis
    by (rule archived_place [OF archived_prune [OF fair ok g1] grown(4)])
      (use pruneOldFrames_ok [OF fair ok] mode ar g1 in \<open>auto simp: archived_def same_rest_def\<close>)
next
  case (linked g1)
  have g1: "archived g1" by (rule archived_grows [OF ar linked(3, 1, 4)])
  show ?thesis
    by (rule archived_place [OF archived_prune [OF fair linked(2) g1] linked(5)])
      (use pruneOldFrames_ok [OF fair linked(2)] mode ar g1 in \<open>auto simp: archived_def same_rest_def\<close>)
qed

lemma span_outcome:
  assumes fair: "fair_order env" and "in_span g" and "outcome env frame g g'"
  shows "in_span g'"
  using assms(3)
proof cases
  case unchanged
  with assms(2) show ?thesis by (simp add: in_span_def same_place_def)
next
  case (planted i)
  then show ?thesis by (auto simp: in_span_def same_place_def plant_def maxGlobalTreeDepth_def)
next
  case (grown i g1)
  with pruned_span [OF fair, of g1] show ?thesis by (simp add: in_span_def same_place_def connected_def)
next
  case (linked g1)
  with pruned_span [OF fair, of g1] show ?thesis by (simp add: in_span_def same_place_def)
qed

section \<open>Reachable reels\<close>

text \<open>
  The reels that a new one turns into under calls of \<^const>\<open>Insert\<close> and
  \<^const>\<open>SetForkChoiceParams\<close>: each call may meet another order of the maps, another store, another
  clock, but always the same hash.
\<close>

inductive reel_reachable :: "(bytes \<Rightarrow> bytes) \<Rightarrow> u8 \<Rightarrow> bool \<Rightarrow> GlobalTimeReel \<Rightarrow> bool"
  for poseidon network archive where
  start: "reel_reachable poseidon network archive (NewGlobalTimeReel network archive)"
| insert: "reel_reachable poseidon network archive g \<Longrightarrow> hash env = poseidon \<Longrightarrow> fair_order env \<Longrightarrow>
    GlobalFrame.Header frame \<noteq> None \<Longrightarrow> Insert env frame g = Some (r, g') \<Longrightarrow>
    reel_reachable poseidon network archive g'"
| params: "reel_reachable poseidon network archive g \<Longrightarrow> params_ok cfg \<Longrightarrow>
    reel_reachable poseidon network archive (SetForkChoiceParams cfg g)"

lemma new_reel_ok: "reel_ok env (NewGlobalTimeReel network archive)"
  by (simp add: reel_ok_def NewGlobalTimeReel_def tree_ok_def pending_at_def default_params_ok)

lemma reel_reachable_ok:
  assumes "reel_reachable poseidon network archive g"
  shows "(\<forall>env. hash env = poseidon \<longrightarrow> reel_ok env g) \<and> archiveMode g = archive \<and> in_span g \<and>
    (archive \<longrightarrow> archived g)"
  using assms
proof induction
  case start
  show ?case
    using new_reel_ok
    by (auto simp: NewGlobalTimeReel_def in_span_def archived_def levelled_def)
next
  case (insert g env frame r g')
  from insert.IH insert.hyps(2) have ok: "reel_ok env g" by blast
  show ?case
  proof (cases "fmlookup (nodes g) (ComputeFrameID env frame) = None")
    case False
    with Insert_known [OF insert.hyps(4)] insert.hyps(5) insert.IH show ?thesis by simp
  next
    case True
    let ?g = "noted frame g"
    have m: "marked g ?g" by (rule mark_fold)
    from Insert_outcome [OF insert.hyps(3) ok insert.hyps(4) True] insert.hyps(5) have
      out: "reel_ok env g'" "archiveMode g' = archiveMode g" "outcome env frame ?g g'" by auto
    have "reel_ok env' g'" if "hash env' = poseidon" for env'
      using out(1) that insert.hyps(2) reel_ok_cong [of env env'] by simp
    moreover have "archived ?g = archived g" "in_span ?g = in_span g" "archiveMode ?g = archiveMode g"
      using m by (simp_all add: marked_def archived_def in_span_def deepest_def)
    moreover note archived_outcome [OF insert.hyps(3) _ _ out(3)] span_outcome [OF insert.hyps(3) _ out(3)]
    ultimately show ?thesis using out(2) insert.IH by auto
  qed
next
  case (params g cfg)
  have "reel_ok env (SetForkChoiceParams cfg g)" if "reel_ok env g" for env
    using that params(2) by (intro reel_ok_fields [OF that]) (simp_all add: SetForkChoiceParams_def pending_at_def)
  with params show ?case
    by (simp add: SetForkChoiceParams_def in_span_def archived_def deepest_def)
qed

section \<open>Lineages\<close>

lemma ancestors_linked:
  assumes tree: "tree_ok env ns"
  shows "fmlookup ns i = Some n \<Longrightarrow>
    \<exists>up m. ancestors ns (Some i) = Some (i # up) \<and>
      successively (\<lambda>a b. selector_of (GlobalFrameNode.Frame (the (fmlookup ns a))) =
        hash env (output_of (GlobalFrameNode.Frame (the (fmlookup ns b))))) (i # up) \<and>
      fmlookup ns (last (i # up)) = Some m \<and> Depth n = Depth m + length up"
proof (induction "Depth n" arbitrary: i n rule: less_induct)
  case less
  show ?case
  proof (cases "Parent n")
    case None
    with less.prems show ?thesis by (subst ancestors.simps) (simp add: ancestors.simps [of _ None])
  next
    case (Some p)
    from tree_okD(3) [OF tree less.prems this] obtain q where
      q: "fmlookup ns p = Some q" "Depth n = Depth q + 1"
        "selector_of (GlobalFrameNode.Frame n) = hash env (output_of (GlobalFrameNode.Frame q))" by blast
    from less.hyps [OF _ q(1)] q(2) obtain up m where
      up: "ancestors ns (Some p) = Some (p # up)"
        "successively (\<lambda>a b. selector_of (GlobalFrameNode.Frame (the (fmlookup ns a))) =
          hash env (output_of (GlobalFrameNode.Frame (the (fmlookup ns b))))) (p # up)"
        "fmlookup ns (last (p # up)) = Some m" "Depth q = Depth m + length up" by auto
    have "ancestors ns (Some i) = Some (i # p # up)"
      using less.prems Some up(1) by (subst ancestors.simps) simp
    with less.prems up q show ?thesis by (intro exI [of _ "p # up"] exI [of _ m]) simp
  qed
qed

section \<open>Equivocators\<close>

definition equivocated :: "GlobalTimeReel \<Rightarrow> u64 \<Rightarrow> nat set" where
  "equivocated g k = (case fmlookup (equivocators g) k of None \<Rightarrow> {} | Some e \<Rightarrow> e)"

lemma set_bit_positions:
  "p \<in> set (bit_positions bits) \<longleftrightarrow> p div 8 < length bits \<and> bit (bits ! (p div 8)) (p mod 8)"
proof
  assume "p \<in> set (bit_positions bits)"
  then obtain i b where "p = i * 8 + b" "b < 8" "i < length bits" "bit (bits ! i) b"
    by (auto simp: bit_positions_def)
  then show "p div 8 < length bits \<and> bit (bits ! (p div 8)) (p mod 8)" by simp
next
  assume p: "p div 8 < length bits \<and> bit (bits ! (p div 8)) (p mod 8)"
  have "p = p div 8 * 8 + p mod 8" by simp
  with p show "p \<in> set (bit_positions bits)"
    by (force simp: bit_positions_def)
qed

lemma set_bit_positions_overlap:
  "set (bit_positions (overlap a b)) = set (bit_positions a) \<inter> set (bit_positions b)"
  by (auto simp: set_bit_positions overlap_def byte_at_def bit_and_iff split: if_splits)

lemma overlapping_iff:
  "list_ex (\<lambda>x. x \<noteq> 0) bits \<longleftrightarrow> set (bit_positions bits) \<noteq> {}"
proof
  assume "list_ex (\<lambda>x. x \<noteq> 0) bits"
  then obtain i where i: "i < length bits" "bits ! i \<noteq> 0" by (auto simp: list_ex_iff in_set_conv_nth)
  then obtain b where b: "bit (bits ! i) b" by (metis bit_eq_iff bit_0_eq bot_apply bot_bool_def)
  then have "b < 8" using bit_imp_le_length [OF b] by simp
  with i b have "i * 8 + b \<in> set (bit_positions bits)" by (simp add: set_bit_positions)
  then show "set (bit_positions bits) \<noteq> {}" by (metis empty_iff)
next
  assume "set (bit_positions bits) \<noteq> {}"
  then obtain p where "p \<in> set (bit_positions bits)" by (meson equals0I)
  then have "p div 8 < length bits" "bit (bits ! (p div 8)) (p mod 8)" by (simp_all add: set_bit_positions)
  then show "list_ex (\<lambda>x. x \<noteq> 0) bits" by (auto simp: list_ex_iff intro!: bexI [OF _ nth_mem])
qed

lemma mark_mono: "equivocated g k \<subseteq> equivocated (fold (mark_equivocation frame) is g) k"
proof (induction "is" arbitrary: g)
  case (Cons i "is")
  have "equivocated g k \<subseteq> equivocated (mark_equivocation frame i g) k"
    by (auto simp: equivocated_def mark_equivocation_def sendEvent_def Let_def)
  with Cons [of "mark_equivocation frame i g"] show ?case by auto
qed simp

lemma mark_records:
  assumes "\<not> isEqualGlobalFrame (frame_at g i) frame"
    and "GlobalFrameHeader.PublicKeySignatureBls48581 (hdr (frame_at g i)) = Some s"
    and "GlobalFrameHeader.PublicKeySignatureBls48581 (hdr frame) = Some t"
    and "p \<in> set (bit_positions (BLS48581AggregateSignature.Bitmask s))"
    and "p \<in> set (bit_positions (BLS48581AggregateSignature.Bitmask t))"
  shows "i \<in> set is \<Longrightarrow> p \<in> equivocated (fold (mark_equivocation frame) is g) (frame_number frame)"
  using assms(1-3)
proof (induction "is" arbitrary: g)
  case (Cons j "is")
  let ?g = "mark_equivocation frame j g"
  have n: "nodes ?g = nodes g" using mark_fold [of g frame "[j]"] by (simp add: marked_def)
  show ?case
  proof (cases "i \<in> set is")
    case True
    with Cons.IH [of ?g] Cons.prems n show ?thesis by simp
  next
    case False
    with Cons.prems have i: "i = j" by simp
    have "p \<in> set (bit_positions (overlap (BLS48581AggregateSignature.Bitmask s)
        (BLS48581AggregateSignature.Bitmask t)))"
      using assms(4, 5) by (simp add: set_bit_positions_overlap)
    with Cons.prems i have "p \<in> equivocated ?g (frame_number frame)"
      using overlapping_iff [of "overlap (BLS48581AggregateSignature.Bitmask s)
          (BLS48581AggregateSignature.Bitmask t)"]
      by (auto simp: equivocated_def mark_equivocation_def hasOverlappingBits_def sendEvent_def Let_def)
    with mark_mono [of ?g "frame_number frame" frame "is"] show ?thesis by auto
  qed
qed simp

section \<open>Reorganisations\<close>

lemma find_in_set: "List.find P xs = Some x \<Longrightarrow> x \<in> set xs"
  by (induction xs) (auto split: if_splits)

lemma findCommonAncestor_path:
  assumes tree: "tree_ok env (nodes g)" and "fmlookup (nodes g) old \<noteq> None" and "fmlookup (nodes g) new \<noteq> None"
    and "findCommonAncestor g old new = Some (Some a, reverts)"
  shows "reverts \<noteq> [] \<and> last reverts = a" and "\<exists>up. ancestors (nodes g) (Some new) = Some up \<and> a \<in> set up \<and> hd up = new"
proof -
  obtain up1 where up1: "ancestors (nodes g) (Some old) = Some (old # up1)"
    using assms(2) ancestors_total [OF tree, of old] by fastforce
  obtain up2 where up2: "ancestors (nodes g) (Some new) = Some (new # up2)"
    using assms(3) ancestors_total [OF tree, of new] by fastforce
  from assms(4) up1 up2 have f: "List.find (\<lambda>i. i \<in> set (old # up1)) (new # up2) = Some a"
    and r: "reverts = takeWhile (\<lambda>i. i \<noteq> a) (old # up1) @ [a]"
    by (auto simp: findCommonAncestor_def split: option.splits simp del: List.find.simps takeWhile.simps)
  from r show "reverts \<noteq> [] \<and> last reverts = a" by simp
  from f have "a \<in> set (new # up2)" by (rule find_in_set)
  with up2 show "\<exists>up. ancestors (nodes g) (Some new) = Some up \<and> a \<in> set up \<and> hd up = new" by auto
qed

lemma stored_send_fold: "stored (fold (\<lambda>f. sendEvent (e f)) fs g) = stored g"
  by (induction fs arbitrary: g) (auto simp: sendEvent_def)

section \<open>The guarantees of the reel\<close>

text \<open>Frames inserted one after the other.\<close>

definition inserts :: "reel_env \<Rightarrow> GlobalFrame list \<Rightarrow> GlobalTimeReel \<Rightarrow> GlobalTimeReel option" where
  "inserts env fs g = fold (\<lambda>f r. do { g \<leftarrow> r; (e, g) \<leftarrow> Insert env f g; Some g }) fs (Some g)"

lemma Insert_returns:
  assumes "reel_reachable poseidon network archive g" and "hash env = poseidon" and "fair_order env"
    and "GlobalFrame.Header frame \<noteq> None"
  shows "\<exists>r g'. Insert env frame g = Some (r, g')"
proof (cases "fmlookup (nodes g) (ComputeFrameID env frame) = None")
  case True
  from reel_reachable_ok [OF assms(1)] assms(2) have "reel_ok env g" by blast
  from Insert_outcome [OF assms(3) this assms(4) True] show ?thesis by blast
next
  case False
  from Insert_known [OF assms(4) this] show ?thesis by blast
qed

lemma inserts_reachable:
  assumes "fair_order env"
  shows "reel_reachable (hash env) network archive g \<Longrightarrow> \<forall>f \<in> set fs. GlobalFrame.Header f \<noteq> None \<Longrightarrow>
    \<exists>g'. inserts env fs g = Some g' \<and> reel_reachable (hash env) network archive g'"
proof (induction fs arbitrary: g)
  case (Cons f fs)
  from Insert_returns [OF Cons.prems(1) refl assms, of f] Cons.prems(2) obtain r g1 where
    g1: "Insert env f g = Some (r, g1)" by auto
  then have "reel_reachable (hash env) network archive g1"
    using Cons.prems assms by (auto intro: reel_reachable.insert)
  from Cons.IH [OF this] Cons.prems(2) g1 show ?case by (simp add: inserts_def)
qed (simp add: inserts_def)

text \<open>A small run for the concrete statements: frames without signatures and a toy hash.\<close>

definition sum_hash :: "bytes \<Rightarrow> bytes" where
  "sum_hash bs = [fold (+) bs 0]"

definition sample_env :: reel_env where
  "sample_env = \<lparr>hash = sum_hash, order = (\<lambda>k S. sorted_list_of_set S), materialized = (\<lambda>f. True),
     reverted = (\<lambda>f. True), commits = True, clock = 0\<rparr>"

definition sample_frame :: "u64 \<Rightarrow> bytes \<Rightarrow> bytes \<Rightarrow> bytes \<Rightarrow> GlobalFrame" where
  "sample_frame k out sel bits = \<lparr>GlobalFrame.Header = Some \<lparr>GlobalFrameHeader.FrameNumber = k, Timestamp = 0,
     Difficulty = 0, Output = out, ParentSelector = sel, GlobalCommitments = [], ProverTreeCommitment = [],
     PublicKeySignatureBls48581 = (if bits = [] then None else Some \<lparr>BLS48581AggregateSignature.Signature = [],
       PublicKey = None, Bitmask = bits\<rparr>)\<rparr>, Requests = []\<rparr>"

abbreviation frame0 :: GlobalFrame where "frame0 \<equiv> sample_frame 0 [1] [] []"
abbreviation frame1 :: GlobalFrame where "frame1 \<equiv> sample_frame 1 [2] [1] []"
abbreviation frame2 :: GlobalFrame where "frame2 \<equiv> sample_frame 2 [3] [2] []"
abbreviation rival1 :: GlobalFrame where "rival1 \<equiv> sample_frame 1 [4] [1] []"

abbreviation sample_reel :: "GlobalFrame list \<Rightarrow> GlobalTimeReel" where
  "sample_reel fs \<equiv> the (inserts sample_env fs (NewGlobalTimeReel 1 True))"

lemma fair_sample: "fair_order sample_env"
  by (simp add: fair_order_def sample_env_def)

lemma sample_header [simp]: "\<exists>h. GlobalFrame.Header (sample_frame k out sel bits) = Some h"
  by (simp add: sample_frame_def)

lemma sample_reachable:
  assumes "\<forall>f \<in> set fs. GlobalFrame.Header f \<noteq> None"
  shows "reel_reachable (hash sample_env) 1 True (sample_reel fs)"
  using inserts_reachable [OF fair_sample reel_reachable.start assms, of 1 True] by auto



text \<open>Claim C5. In archive mode the head is always a deepest node: whatever frames were inserted, in
  whatever order and with whatever parameters, no known node lies deeper in the tree than the head.\<close>

theorem reel_head_deepest:
  assumes "reel_reachable poseidon network True g" and "fmlookup (nodes g) i = Some n"
  shows "\<exists>h hn. head g = Some h \<and> fmlookup (nodes g) h = Some hn \<and> Depth n \<le> Depth hn"
proof -
  from reel_reachable_ok [OF assms(1)] assms(2) have "deepest g" by (auto simp: archived_def)
  with assms(2) show ?thesis by (fastforce simp: deepest_def)
qed

theorem reel_head_deepest_witness:
  "let g = sample_reel [frame0, frame1, rival1]; i = ComputeFrameID sample_env rival1 in
     reel_reachable (hash sample_env) 1 True g \<and> fmlookup (nodes g) i = Some (node g i) \<and>
     (\<exists>h hn. head g = Some h \<and> fmlookup (nodes g) h = Some hn \<and> Depth (node g i) \<le> Depth hn)"
proof -
  let ?g = "sample_reel [frame0, frame1, rival1]" and ?i = "ComputeFrameID sample_env rival1"
  have r: "reel_reachable (hash sample_env) 1 True ?g" by (rule sample_reachable) simp
  have i: "fmlookup (nodes ?g) ?i = Some (node ?g ?i)" by code_simp
  from reel_head_deepest [OF r i] r i show ?thesis unfolding Let_def by blast
qed










text \<open>
  Outside archive mode a frame with the genesis number that arrives late becomes root and head,
  although deeper frames are known.
\<close>

lemma genesis_resets_head:
  "let g = the (inserts sample_env [sample_frame 5 [2] [9] [], sample_frame 6 [3] [2] [], frame0]
       (NewGlobalTimeReel 1 False)) in
     GetHead g = Some frame0 \<and> depth_at g (the (head g)) = 0 \<and>
     depth_at g (ComputeFrameID sample_env (sample_frame 6 [3] [2] [])) = 1"
  by code_simp

end
