(* ===== verification/Partial_Store.thy ===== *)
theory Partial_Store
  imports Kv_Store
begin

text \<open>
  The contract of a store whose operations can fail: on keys it can tell apart, reading and writing
  succeed and act like a finite map; between them the store may tidy itself up without changing what it
  holds.  A store of \<open>kv_store\<close>, which never fails, is one.
\<close>

datatype ('k, 'v, 'c) store_op = Put 'k 'v | Del 'k | Tidy 'c

primrec store_run :: "('t \<Rightarrow> 'k \<Rightarrow> 'v \<Rightarrow> 'e + 't) \<Rightarrow> ('t \<Rightarrow> 'k \<Rightarrow> 'e + 't) \<Rightarrow> ('c \<Rightarrow> 't \<Rightarrow> 't) \<Rightarrow>
    ('k, 'v, 'c) store_op list \<Rightarrow> 't \<Rightarrow> 'e + 't" where
  "store_run put del tidy [] t = Inr t"
| "store_run put del tidy (op # ops) t =
     (case (case op of Put k v \<Rightarrow> put t k v | Del k \<Rightarrow> del t k | Tidy c \<Rightarrow> Inr (tidy c t)) of
        Inl e \<Rightarrow> Inl e
      | Inr t' \<Rightarrow> store_run put del tidy ops t')"

primrec map_run :: "('k, 'v, 'c) store_op list \<Rightarrow> ('k \<Rightarrow> 'v option) \<Rightarrow> 'k \<Rightarrow> 'v option" where
  "map_run [] m = m"
| "map_run (op # ops) m =
     map_run ops (case op of Put k v \<Rightarrow> m(k \<mapsto> v) | Del k \<Rightarrow> m(k := None) | Tidy c \<Rightarrow> m)"

primrec op_keys :: "('k, 'v, 'c) store_op \<Rightarrow> 'k set" where
  "op_keys (Put k v) = {k}"
| "op_keys (Del k) = {k}"
| "op_keys (Tidy c) = {}"

definition run_keys :: "('k, 'v, 'c) store_op list \<Rightarrow> 'k set" where
  "run_keys ops = \<Union> (op_keys ` set ops)"

lemma run_keys_simps [simp]: "run_keys [] = {}" "run_keys (op # ops) = op_keys op \<union> run_keys ops"
  by (simp_all add: run_keys_def)

lemma dom_map_run: "dom (map_run ops m) \<subseteq> run_keys ops \<union> dom m"
proof (induction ops arbitrary: m)
  case (Cons op ops)
  have "dom (case op of Put k v \<Rightarrow> m(k \<mapsto> v) | Del k \<Rightarrow> m(k := None) | Tidy c \<Rightarrow> m) \<subseteq> op_keys op \<union> dom m"
    by (cases op) auto
  with Cons [of "case op of Put k v \<Rightarrow> m(k \<mapsto> v) | Del k \<Rightarrow> m(k := None) | Tidy c \<Rightarrow> m"] show ?case by auto
qed simp

locale partial_store =
  fixes inv :: "'t \<Rightarrow> bool"
    and abs :: "'t \<Rightarrow> 'k \<Rightarrow> 'v option"
    and admissible :: "'k set \<Rightarrow> bool"
    and observe :: "'v option \<Rightarrow> 'r"
    and get :: "'t \<Rightarrow> 'k \<Rightarrow> 'r"
    and put :: "'t \<Rightarrow> 'k \<Rightarrow> 'v \<Rightarrow> 'e + 't"
    and del :: "'t \<Rightarrow> 'k \<Rightarrow> 'e + 't"
    and tidy :: "'c \<Rightarrow> 't \<Rightarrow> 't"
  assumes admissible_mono: "admissible K \<Longrightarrow> K' \<subseteq> K \<Longrightarrow> admissible K'"
    and get_abs: "inv t \<Longrightarrow> admissible (insert k (dom (abs t))) \<Longrightarrow> get t k = observe (abs t k)"
    and put_abs: "inv t \<Longrightarrow> admissible (insert k (dom (abs t))) \<Longrightarrow>
      \<exists>t'. put t k v = Inr t' \<and> inv t' \<and> abs t' = (abs t)(k \<mapsto> v)"
    and del_abs: "inv t \<Longrightarrow> admissible (insert k (dom (abs t))) \<Longrightarrow>
      \<exists>t'. del t k = Inr t' \<and> inv t' \<and> abs t' = (abs t)(k := None)"
    and tidy_abs: "inv t \<Longrightarrow> inv (tidy c t) \<and> abs (tidy c t) = abs t"
begin

lemma step_ok:
  assumes "inv t" and "admissible (op_keys op \<union> dom (abs t))"
  shows "\<exists>t'. (case op of Put k v \<Rightarrow> put t k v | Del k \<Rightarrow> del t k | Tidy c \<Rightarrow> Inr (tidy c t)) = Inr t' \<and> inv t' \<and>
    abs t' = (case op of Put k v \<Rightarrow> (abs t)(k \<mapsto> v) | Del k \<Rightarrow> (abs t)(k := None) | Tidy c \<Rightarrow> abs t)"
  using assms put_abs del_abs tidy_abs by (cases op) simp_all

lemma run_ok:
  assumes "inv t" and "admissible (run_keys ops \<union> dom (abs t))"
  shows "\<exists>t'. store_run put del tidy ops t = Inr t' \<and> inv t' \<and> abs t' = map_run ops (abs t)"
  using assms
proof (induction ops arbitrary: t)
  case (Cons op ops)
  let ?m = "case op of Put k v \<Rightarrow> (abs t)(k \<mapsto> v) | Del k \<Rightarrow> (abs t)(k := None) | Tidy c \<Rightarrow> abs t"
  have "admissible (op_keys op \<union> dom (abs t))" using Cons.prems(2) by (rule admissible_mono) auto
  from step_ok [OF Cons.prems(1) this] obtain t' where
    t': "(case op of Put k v \<Rightarrow> put t k v | Del k \<Rightarrow> del t k | Tidy c \<Rightarrow> Inr (tidy c t)) = Inr t'" "inv t'"
      "abs t' = ?m" by blast
  have "dom ?m \<subseteq> op_keys op \<union> dom (abs t)" by (cases op) auto
  then have "admissible (run_keys ops \<union> dom (abs t'))"
    using Cons.prems(2) unfolding t'(3) by (elim admissible_mono) auto
  from Cons.IH [OF t'(2) this] t'(1) show ?case by (simp add: t'(3))
qed simp

lemma run_get:
  assumes "inv t" and "abs t = Map.empty" and "admissible (insert k (run_keys ops))"
    and "store_run put del tidy ops t = Inr t'"
  shows "get t' k = observe (map_run ops Map.empty k)"
proof -
  have "admissible (run_keys ops \<union> dom (abs t))" by (rule admissible_mono [OF assms(3)]) (auto simp: assms(2))
  from run_ok [OF assms(1) this] assms(2,4) have t': "inv t'" "abs t' = map_run ops Map.empty" by auto
  have "admissible (insert k (dom (abs t')))"
    using dom_map_run [of ops Map.empty] unfolding t'(2) by (intro admissible_mono [OF assms(3)]) auto
  from get_abs [OF t'(1) this] show ?thesis by (simp add: t'(2))
qed

end

sublocale kv_store \<subseteq> partial: partial_store inv abs admissible "\<lambda>x. x" get
  "\<lambda>t k v. Inr (put t k v)" "\<lambda>t k. Inr (del t k)" "\<lambda>_ t. t"
  by unfold_locales (auto simp: get_abs inv_put abs_put inv_del abs_del elim: admissible_mono)

end
