(* ===== verification/Vector_Tree.thy ===== *)
theory Vector_Tree
  imports Canonical_Codec Kv_Store
begin

unbundle bit_operations_syntax

text \<open>
  The in-memory vector commitment tree of \<^verbatim>\<open>types/tries/proof_tree.go\<close>: a 64-ary trie over the
  six-bit groups of a key, with compressed prefixes, cached commitments and running sizes.

  A missing node is \<^const>\<open>None\<close>; \<^verbatim>\<open>Value\<close> tells the nil slice (\<^const>\<open>None\<close>) from the empty one,
  since \<^verbatim>\<open>Get\<close> does; a \<^verbatim>\<open>Commitment\<close> that is not computed yet is the empty list.  A
  result of \<^const>\<open>None\<close> is a panic (an array index of -1, a slice out of range) or a loop without
  end.  SHA-512 and the inclusion prover are parameters.
\<close>

section \<open>Six-bit groups of a key\<close>

definition BranchNodes :: nat where
  "BranchNodes = 64"

definition BranchBits :: nat where
  "BranchBits = 6"

definition getNextNibble :: "bytes \<Rightarrow> nat \<Rightarrow> int" where
  "getNextNibble key pos =
     (let startByte = pos div 8
      in if length key \<le> startByte then -1
         else
           let startBit = pos mod 8;
               bitsFromCurrentByte = 8 - startBit;
               result = take_bit bitsFromCurrentByte (unat (key ! startByte))
           in if BranchBits \<le> bitsFromCurrentByte
              then int (take_bit BranchBits (drop_bit (bitsFromCurrentByte - BranchBits) result))
              else
                let result = push_bit (BranchBits - bitsFromCurrentByte) result;
                    remainingBits = BranchBits - bitsFromCurrentByte;
                    result = (if startByte + 1 < length key
                              then result OR drop_bit (8 - remainingBits) (unat (key ! (startByte + 1)))
                              else result)
                in int (take_bit BranchBits result))"

function path_from :: "bytes \<Rightarrow> nat \<Rightarrow> int list" where
  "path_from key depth =
     (let n1 = getNextNibble key depth
      in if n1 = -1 then [] else n1 # path_from key (depth + BranchBits))"
  by pat_completeness auto

termination
proof (relation "measure (\<lambda>(key, depth). 8 * length key - depth)")
  fix key depth n1
  assume "n1 = getNextNibble key depth" and "n1 \<noteq> -1"
  then have "depth div 8 < length key" by (auto simp: getNextNibble_def Let_def split: if_splits)
  then have "depth < 8 * length key" by linarith
  then show "((key, depth + BranchBits), (key, depth)) \<in> measure (\<lambda>(key, depth). 8 * length key - depth)"
    by (simp add: BranchBits_def)
qed simp

declare path_from.simps [simp del]

definition getFullPath :: "bytes \<Rightarrow> int list" where
  "getFullPath key = path_from key 0"

partial_function (option) getNibblesUntilDiverge :: "bytes \<Rightarrow> bytes \<Rightarrow> nat \<Rightarrow> (int list \<times> nat) option"
where
  "getNibblesUntilDiverge key1 key2 depth =
     (let n1 = getNextNibble key1 depth; n2 = getNextNibble key2 depth
      in if n1 \<noteq> n2 then Some ([], depth)
         else do {
           (nibbles, d) \<leftarrow> getNibblesUntilDiverge key1 key2 (depth + BranchBits);
           Some (n1 # nibbles, d)
         })"

declare getNibblesUntilDiverge.simps [code]

section \<open>Nodes\<close>

datatype VectorCommitmentNode =
    LeafNode (Key: bytes) (Value: "bytes option") (HashTarget: bytes) (Commitment: bytes) (Size: int)
  | BranchNode (Prefix: "int list") (Children: "VectorCommitmentNode option list") (Commitment: bytes)
      (Size: int) (LeafCount: int) (LongestBranch: int)

record VectorCommitmentTree =
  Root :: "VectorCommitmentNode option"

definition TypeNil :: u8 where "TypeNil = 0"
definition TypeLeaf :: u8 where "TypeLeaf = 1"
definition TypeBranch :: u8 where "TypeBranch = 2"

text \<open>\<^verbatim>\<open>n.Children[i]\<close> and \<^verbatim>\<open>n.Children[i] = x\<close> on an array of 64: an index out of range panics.\<close>

definition child_at :: "'a option list \<Rightarrow> int \<Rightarrow> 'a option option" where
  "child_at cs i = (if 0 \<le> i \<and> i < int (length cs) then Some (cs ! nat i) else None)"

definition set_child :: "'a option list \<Rightarrow> int \<Rightarrow> 'a option \<Rightarrow> 'a option list option" where
  "set_child cs i x = (if 0 \<le> i \<and> i < int (length cs) then Some (cs[nat i := x]) else None)"

definition no_children :: "'a option list" where
  "no_children = replicate BranchNodes None"

lemma child_at_size:
  assumes "child_at cs i = Some child"
  shows "size_option size child \<le> size_list (size_option size) cs"
proof (rule size_list_estimation')
  show "child \<in> set cs"
    using assms by (auto simp: child_at_def split: if_splits)
qed simp

section \<open>Insertion\<close>

text \<open>The prefix of a branch against the key: the index of the first mismatch with both nibbles.\<close>

fun prefix_mismatch :: "bytes \<Rightarrow> nat \<Rightarrow> int list \<Rightarrow> nat \<Rightarrow> (nat \<times> int \<times> int) option" where
  "prefix_mismatch key depth [] i = None"
| "prefix_mismatch key depth (expected # rest) i =
     (let actual = getNextNibble key (depth + i * BranchBits)
      in if actual \<noteq> expected then Some (i, expected, actual) else prefix_mismatch key depth rest (i + 1))"

text \<open>How a branch takes account of what was inserted below it.\<close>

definition new_longest :: "int \<Rightarrow> VectorCommitmentNode \<Rightarrow> int" where
  "new_longest longest inserted =
     (case inserted of
        BranchNode _ _ _ _ _ l \<Rightarrow> if longest \<le> l then l + 1 else longest
      | LeafNode _ _ _ _ _ \<Rightarrow> 1)"

function (sequential) insert_node ::
  "bytes \<Rightarrow> bytes option \<Rightarrow> bytes \<Rightarrow> int \<Rightarrow> VectorCommitmentNode option \<Rightarrow> nat
    \<Rightarrow> (int \<times> VectorCommitmentNode) option" where
  "insert_node key value hashTarget sz None depth =
     Some (1, LeafNode key value hashTarget [] sz)"
| "insert_node key value hashTarget sz (Some (LeafNode k v h c s)) depth =
     (if k = key then Some (0, LeafNode k value hashTarget [] sz)
      else do {
        (sharedNibbles, divergeDepth) \<leftarrow> getNibblesUntilDiverge k key depth;
        cs \<leftarrow> set_child no_children (getNextNibble k divergeDepth) (Some (LeafNode k v h c s));
        cs \<leftarrow> set_child cs (getNextNibble key divergeDepth) (Some (LeafNode key value hashTarget [] sz));
        Some (1, BranchNode sharedNibbles cs [] (s + sz) 2 1)
      })"
| "insert_node key value hashTarget sz (Some (BranchNode pre cs c s count longest)) depth =
     (case prefix_mismatch key depth pre 0 of
        Some (i, expectedNibble, actualNibble) \<Rightarrow>
          do {
            cs' \<leftarrow> set_child no_children expectedNibble
              (Some (BranchNode (drop (i + 1) pre) cs c s count longest));
            cs' \<leftarrow> set_child cs' actualNibble (Some (LeafNode key value hashTarget [] sz));
            Some (1, BranchNode (take i pre) cs' [] (s + sz) (count + 1) (longest + 1))
          }
      | None \<Rightarrow>
          (let finalNibble = getNextNibble key (depth + length pre * BranchBits)
           in case child_at cs finalNibble of
                None \<Rightarrow> None
              | Some child \<Rightarrow>
                  do {
                    (delta, inserted) \<leftarrow> insert_node key value hashTarget sz child
                      (depth + length pre * BranchBits + BranchBits);
                    cs' \<leftarrow> set_child cs finalNibble (Some inserted);
                    Some (delta, BranchNode pre cs' [] (if delta \<noteq> 0 then s + sz else s)
                      (count + delta) (new_longest longest inserted))
                  }))"
  by pat_completeness auto

termination
  by (relation "measure (\<lambda>(key, value, h, sz, n, depth). size_option size n)")
    (auto dest!: child_at_size)

definition Insert ::
  "bytes \<Rightarrow> bytes option \<Rightarrow> bytes \<Rightarrow> int \<Rightarrow> VectorCommitmentTree \<Rightarrow> fault + VectorCommitmentTree" where
  "Insert key value hashTarget sz t =
     (if key = [] then Inl Err
      else (case insert_node key value hashTarget sz (Root t) 0 of
              None \<Rightarrow> Inl Panic
            | Some (_, node) \<Rightarrow> Inr (t\<lparr>Root := Some node\<rparr>)))"

section \<open>Lookup\<close>

function (sequential) get_node ::
  "bytes \<Rightarrow> VectorCommitmentNode option \<Rightarrow> nat \<Rightarrow> bytes option option" where
  "get_node key None depth = Some None"
| "get_node key (Some (LeafNode k v h c s)) depth = Some (if k = key then v else None)"
| "get_node key (Some (BranchNode pre cs c s count longest)) depth =
     (if prefix_mismatch key depth pre 0 \<noteq> None then Some None
      else (case child_at cs (getNextNibble key (depth + length pre * BranchBits)) of
              None \<Rightarrow> None
            | Some child \<Rightarrow> get_node key child (depth + length pre * BranchBits + BranchBits)))"
  by pat_completeness auto

termination
  by (relation "measure (\<lambda>(key, n, depth). size_option size n)")
    (auto dest!: child_at_size)

definition Get :: "VectorCommitmentTree \<Rightarrow> bytes \<Rightarrow> fault + bytes" where
  "Get t key =
     (if key = [] then Inl Err
      else (case get_node key (Root t) 0 of
              None \<Rightarrow> Inl Panic
            | Some None \<Rightarrow> Inl Err
            | Some (Some v) \<Rightarrow> Inr v))"

section \<open>Deletion\<close>

text \<open>The pass over the children that counts them, their leaves and the longest way down.\<close>

definition node_leaves :: "VectorCommitmentNode \<Rightarrow> int" where
  "node_leaves n = (case n of BranchNode _ _ _ _ count _ \<Rightarrow> count | LeafNode _ _ _ _ _ \<Rightarrow> 1)"

definition node_longest :: "VectorCommitmentNode \<Rightarrow> int" where
  "node_longest n = (case n of BranchNode _ _ _ _ _ l \<Rightarrow> l + 1 | LeafNode _ _ _ _ _ \<Rightarrow> 1)"

definition live_children :: "'a option list \<Rightarrow> (nat \<times> 'a) list" where
  "live_children cs = [(i, the (cs ! i)). i \<leftarrow> [0..<length cs], cs ! i \<noteq> None]"

definition rebuild :: "int list \<Rightarrow> VectorCommitmentNode option list \<Rightarrow> int \<Rightarrow> VectorCommitmentNode option" where
  "rebuild pre cs s =
     (case live_children cs of
        [] \<Rightarrow> None
      | [(i, BranchNode p cs' c' s' count' longest')] \<Rightarrow>
          Some (BranchNode (pre @ [int i] @ p) cs' [] s' count' longest')
      | [(i, LeafNode k v h c s')] \<Rightarrow> Some (LeafNode k v h c s')
      | live \<Rightarrow>
          Some (BranchNode pre cs [] s (sum_list (map (node_leaves \<circ> snd) live))
            (fold (\<lambda>l m. max m l) (map (node_longest \<circ> snd) live) 1)))"

function (sequential) remove_node ::
  "bytes \<Rightarrow> VectorCommitmentNode option \<Rightarrow> nat \<Rightarrow> (int \<times> VectorCommitmentNode option) option" where
  "remove_node key None depth = Some (0, None)"
| "remove_node key (Some (LeafNode k v h c s)) depth =
     Some (if k = key then (s, None) else (0, Some (LeafNode k v h c s)))"
| "remove_node key (Some (BranchNode pre cs c s count longest)) depth =
     (if prefix_mismatch key depth pre 0 \<noteq> None then Some (0, Some (BranchNode pre cs c s count longest))
      else
        (let finalNibble = getNextNibble key (depth + length pre * BranchBits)
         in case child_at cs finalNibble of
              None \<Rightarrow> None
            | Some child \<Rightarrow>
                do {
                  (sz, child') \<leftarrow> remove_node key child (depth + length pre * BranchBits + BranchBits);
                  cs' \<leftarrow> set_child cs finalNibble child';
                  Some (sz, rebuild pre cs' (s - sz))
                }))"
  by pat_completeness auto

termination
  by (relation "measure (\<lambda>(key, n, depth). size_option size n)")
    (auto dest!: child_at_size)

definition Delete :: "bytes \<Rightarrow> VectorCommitmentTree \<Rightarrow> fault + VectorCommitmentTree" where
  "Delete key t =
     (if key = [] then Inl Err
      else (case remove_node key (Root t) 0 of
              None \<Rightarrow> Inl Panic
            | Some (_, node) \<Rightarrow> Inr (t\<lparr>Root := node\<rparr>)))"

section \<open>Totals\<close>

definition GetMetadata :: "VectorCommitmentTree \<Rightarrow> int \<times> int" where
  "GetMetadata t =
     (case Root t of
        None \<Rightarrow> (0, 0)
      | Some (LeafNode _ _ _ _ _) \<Rightarrow> (1, 0)
      | Some (BranchNode _ _ _ _ count longest) \<Rightarrow> (count, longest))"

definition GetSize :: "VectorCommitmentTree \<Rightarrow> int" where
  "GetSize t = (case Root t of None \<Rightarrow> 0 | Some n \<Rightarrow> Size n)"

section \<open>Commitments\<close>

text \<open>
  SHA-512, the vector commitment over 64-byte cells, and the multiproofs; the errors of the prover
  are ignored by the code, so only the bytes returned matter.
\<close>

record multiproof =
  Multicommitment :: bytes
  Proof :: bytes

record prover =
  sha512 :: "bytes \<Rightarrow> bytes"
  CommitRaw :: "bytes \<Rightarrow> bytes"
  ProveRaw :: "bytes \<Rightarrow> nat \<Rightarrow> bytes"
  VerifyRaw :: "bytes \<Rightarrow> bytes \<Rightarrow> nat \<Rightarrow> bytes \<Rightarrow> bool"
  ProveMultiple_raw :: "bytes list \<Rightarrow> bytes list \<Rightarrow> u64 list \<Rightarrow> multiproof"
  VerifyMultiple_raw :: "bytes list \<Rightarrow> bytes list \<Rightarrow> u64 list \<Rightarrow> bytes \<Rightarrow> bytes \<Rightarrow> bool"

text \<open>The cell of a child: a branch is hashed once more with its prefix, a leaf is not.\<close>

definition child_cell :: "prover \<Rightarrow> VectorCommitmentNode \<Rightarrow> bytes \<Rightarrow> bytes" where
  "child_cell pr n out =
     (case n of
        BranchNode pre _ _ _ _ _ \<Rightarrow> sha512 pr ([1] @ concat (map (\<lambda>p. u32_be (word_of_int p)) pre) @ out)
      | LeafNode _ _ _ _ _ \<Rightarrow> out)"

definition leaf_digest :: "prover \<Rightarrow> bytes \<Rightarrow> bytes option \<Rightarrow> bytes \<Rightarrow> bytes" where
  "leaf_digest pr key value hashTarget =
     sha512 pr ([0] @ key @ (if hashTarget \<noteq> [] then hashTarget
                             else (case value of None \<Rightarrow> [] | Some v \<Rightarrow> v)))"

definition zero_cell :: bytes where
  "zero_cell = replicate 64 0"

lemma child_size:
  assumes "z \<in> set cs" and "x \<in> set_option z"
  shows "size x < Suc (size_list (size_option size) cs)"
proof -
  have "size_option size z \<le> size_list (size_option size) cs"
    using assms(1) by (intro size_list_estimation') auto
  with assms(2) show ?thesis by (cases z) auto
qed

function (sequential) commit_node :: "prover \<Rightarrow> bool \<Rightarrow> VectorCommitmentNode \<Rightarrow> bytes \<times> VectorCommitmentNode"
where
  "commit_node pr recalculate (LeafNode k v h c s) =
     (let c' = (if c = [] \<or> recalculate then leaf_digest pr k v h else c) in (c', LeafNode k v h c' s))"
| "commit_node pr recalculate (BranchNode pre cs c s count longest) =
     (if c = [] \<or> recalculate then
        let rs = map (map_option (commit_node pr recalculate)) cs;
            vector = map (\<lambda>r. case r of None \<Rightarrow> zero_cell | Some (out, n) \<Rightarrow> child_cell pr n out) rs;
            c' = CommitRaw pr (concat vector)
        in (c', BranchNode pre (map (map_option snd) rs) c' s count longest)
      else (c, BranchNode pre cs c s count longest))"
  by pat_completeness auto

termination
  by (relation "measure (\<lambda>(pr, r, n). size n)") (auto dest: child_size)

definition Commit :: "prover \<Rightarrow> bool \<Rightarrow> VectorCommitmentTree \<Rightarrow> bytes \<times> VectorCommitmentTree" where
  "Commit pr recalculate t =
     (case Root t of
        None \<Rightarrow> (zero_cell, t)
      | Some n \<Rightarrow> (let (out, n') = commit_node pr recalculate n in (out, t\<lparr>Root := Some n'\<rparr>)))"

end
