(* ===== verification/Vector_Tree_Shape.thy ===== *)
theory Vector_Tree_Shape
  imports Vector_Tree "HOL-Library.Sublist"
begin

text \<open>
  The shape of a vector commitment tree: the six-bit groups of a key as its path, the key sets whose
  paths can be told apart, well-formed nodes with the entries below them, and the walks of the code
  along a path (prefix comparison and divergence of two keys).
\<close>

section \<open>Nibbles and paths\<close>

abbreviation nib :: "bytes \<Rightarrow> nat \<Rightarrow> int" where
  "nib key i \<equiv> getNextNibble key (i * BranchBits)"

definition key_bit :: "bytes \<Rightarrow> nat \<Rightarrow> bool" where
  "key_bit key p \<longleftrightarrow> p div 8 < length key \<and> bit (key ! (p div 8)) (7 - p mod 8)"

lemma nibble_end: "getNextNibble key pos = -1 \<longleftrightarrow> length key \<le> pos div 8"
  by (simp add: getNextNibble_def Let_def)

lemma nibble_range: "getNextNibble key pos = -1 \<or> 0 \<le> getNextNibble key pos \<and> getNextNibble key pos < 64"
proof -
  have "int (take_bit 6 x) < 64" for x :: nat
    using take_bit_nat_less_exp [of 6 x] by simp
  then show ?thesis by (simp add: getNextNibble_def Let_def BranchBits_def)
qed

lemma path_from_nth:
  "i < length (path_from key d) \<Longrightarrow> path_from key d ! i = getNextNibble key (d + i * BranchBits)"
proof (induction key d arbitrary: i rule: path_from.induct)
  case (1 key d)
  then show ?case
    by (cases i) (auto simp: path_from.simps [of key d] Let_def algebra_simps split: if_splits)
qed

lemma path_from_end: "getNextNibble key (d + length (path_from key d) * BranchBits) = -1"
proof (induction key d rule: path_from.induct)
  case (1 key d)
  then show ?case
    by (auto simp: path_from.simps [of key d] Let_def algebra_simps)
qed

lemma path_from_inner: "x \<in> set (path_from key d) \<Longrightarrow> 0 \<le> x \<and> x < 64"
proof (induction key d rule: path_from.induct)
  case (1 key d)
  then show ?case
    using nibble_range [of key d] by (auto simp: path_from.simps [of key d] Let_def split: if_splits)
qed

lemma nib_path: "nib key i = (if i < length (getFullPath key) then getFullPath key ! i else -1)"
proof (cases "i < length (getFullPath key)")
  case True
  then show ?thesis using path_from_nth [of i key 0] by (simp add: getFullPath_def)
next
  case False
  have "length key \<le> (length (getFullPath key) * BranchBits) div 8"
    using path_from_end [of key 0] by (simp add: getFullPath_def nibble_end)
  also have "\<dots> \<le> (i * BranchBits) div 8"
    using False by (intro div_le_mono mult_le_mono1) simp
  finally show ?thesis using False by (simp add: nibble_end)
qed

lemma path_range: "i < length (getFullPath key) \<Longrightarrow> 0 \<le> getFullPath key ! i \<and> getFullPath key ! i < 64"
  using path_from_inner [of "getFullPath key ! i" key 0] by (auto simp: getFullPath_def)

text \<open>Keys of one length are told apart by their paths: the nibbles are the bits of the key.\<close>

lemma bit_unat_u8: "bit (unat (w :: u8)) n = bit w n"
  using bit_imp_le_length [of w n] unfolding unat_eq_nat_uint bit_nat_iff bit_uint_iff by auto

lemmas nibble_bit_simps = bit_of_nat_iff_bit bit_take_bit_iff bit_drop_bit_eq bit_push_bit_iff_nat
  bit_or_iff bit_unat_u8

lemma bit_u8_high: "8 \<le> n \<Longrightarrow> \<not> bit (w :: u8) n"
  using bit_imp_le_length [of w n] by auto

lemma div_mod_8: "x = r + q * 8 \<Longrightarrow> r < 8 \<Longrightarrow> x div 8 = q \<and> x mod 8 = (r :: nat)"
  by simp

lemma nibble_bit:
  assumes "pos div 8 < length key" and "j < 6"
  shows "bit (getNextNibble key pos) (5 - j) = key_bit key (pos + j)"
proof -
  define b s where "b = pos div 8" and "s = pos mod 8"
  have s: "s < 8" and pos: "pos = 8 * b + s" and b: "b < length key" using assms(1) by (simp_all add: b_def s_def)
  have bits: "key_bit key (pos + j) = (if s + j < 8 then bit (key ! b) (7 - (s + j))
      else Suc b < length key \<and> bit (key ! Suc b) (15 - (s + j)))"
  proof (cases "s + j < 8")
    case True
    then have "(pos + j) div 8 = b \<and> (pos + j) mod 8 = s + j" using pos by (intro div_mod_8) simp_all
    with True b show ?thesis by (simp add: key_bit_def)
  next
    case False
    then have "(pos + j) div 8 = Suc b \<and> (pos + j) mod 8 = s + j - 8"
      using pos s assms(2) by (intro div_mod_8) simp_all
    with False show ?thesis by (simp add: key_bit_def)
  qed
  show ?thesis
  proof (cases "s \<le> 2")
    case True
    then have "6 \<le> 8 - s" "8 - s - 6 = 2 - s" by linarith+
    then have "getNextNibble key pos = int (take_bit 6 (drop_bit (2 - s) (take_bit (8 - s) (unat (key ! b)))))"
      using b by (simp add: getNextNibble_def Let_def BranchBits_def b_def [symmetric] s_def [symmetric])
    moreover have "5 - j + (2 - s) = 7 - (s + j)" "7 - (s + j) < 8 - s" "5 - j < 6"
      using True assms(2) by linarith+
    ultimately show ?thesis using True assms(2) unfolding bits by (simp add: nibble_bit_simps)
  next
    case False
    with s have "\<not> 6 \<le> 8 - s" "6 - (8 - s) = s - 2" "8 - (s - 2) = 10 - s" by linarith+
    then have "getNextNibble key pos = int (take_bit 6 (if Suc b < length key
        then push_bit (s - 2) (take_bit (8 - s) (unat (key ! b))) OR drop_bit (10 - s) (unat (key ! Suc b))
        else push_bit (s - 2) (take_bit (8 - s) (unat (key ! b)))))"
      using b by (simp add: getNextNibble_def Let_def BranchBits_def b_def [symmetric] s_def [symmetric])
    then have nb: "bit (getNextNibble key pos) e \<longleftrightarrow>
        (s - 2 \<le> e \<and> e - (s - 2) < 8 - s \<and> bit (key ! b) (e - (s - 2))) \<or>
        (Suc b < length key \<and> bit (key ! Suc b) (e + (10 - s)))" if "e < 6" for e
      using that by (simp add: nibble_bit_simps add.commute)
    have "s - 2 \<le> 5 - j \<longleftrightarrow> s + j < 8" "5 - j + (10 - s) = 15 - (s + j)" "5 - j < 6"
      using False assms(2) s by linarith+
    moreover have "5 - j - (s - 2) = 7 - (s + j)" "7 - (s + j) < 8 - s" "8 \<le> 15 - (s + j)" if "s + j < 8"
      using False assms(2) that by linarith+
    ultimately show ?thesis
      using nb [of "5 - j"] bit_u8_high [of "15 - (s + j)" "key ! Suc b"] unfolding bits by auto
  qed
qed

lemma path_length: "length (getFullPath key) = (8 * length key + 5) div 6"
proof -
  let ?n = "length (getFullPath key)"
  have "length key \<le> (?n * 6) div 8"
    using path_from_end [of key 0] by (simp add: getFullPath_def nibble_end BranchBits_def)
  moreover have "\<not> length key \<le> ((?n - 1) * 6) div 8" if "?n > 0"
  proof -
    have "getFullPath key ! (?n - 1) \<noteq> -1" using that path_range [of "?n - 1" key] by fastforce
    then show ?thesis
      using that nib_path [of key "?n - 1"] nibble_end [of key "(?n - 1) * 6"] by (simp add: BranchBits_def)
  qed
  ultimately have "length key * 8 \<le> ?n * 6" and "?n > 0 \<Longrightarrow> (?n - 1) * 6 < length key * 8"
    by (simp_all add: less_eq_div_iff_mult_less_eq)
  then have "6 * ?n \<le> 8 * length key + 5" "8 * length key + 5 < 6 * Suc ?n"
    by (cases "?n > 0"; simp)+
  then show ?thesis by (rule div_nat_eqI [symmetric])
qed

lemma path_inj:
  assumes "length k = length k'" and "getFullPath k = getFullPath k'"
  shows "k = k'"
proof (rule nth_equalityI)
  show "length k = length k'" by (rule assms(1))
  fix i assume i: "i < length k"
  show "k ! i = k' ! i"
  proof (rule bit_word_eqI)
    fix n assume "n < LENGTH(8)"
    then have n: "n < 8" by simp
    define p where "p = 8 * i + (7 - n)"
    have "p div 8 = i \<and> p mod 8 = 7 - n" using n by (intro div_mod_8) (simp_all add: p_def)
    then have pd: "p div 8 = i" "p mod 8 = 7 - n" by blast+
    have pos: "(p div 6 * 6) div 8 < length k"
    proof -
      have "(p div 6 * 6) div 8 \<le> p div 8" by (intro div_le_mono) simp
      with pd i show ?thesis by simp
    qed
    have "bit (nib k (p div 6)) (5 - p mod 6) = bit (nib k' (p div 6)) (5 - p mod 6)"
      using assms(2) by (simp add: nib_path)
    then have "key_bit k p = key_bit k' p"
      using nibble_bit [of "p div 6 * 6" k "p mod 6"] nibble_bit [of "p div 6 * 6" k' "p mod 6"] pos assms(1)
      by (simp add: BranchBits_def)
    then show "bit (k ! i) n = bit (k' ! i) n"
      using pd i n assms(1) by (simp add: key_bit_def)
  qed
qed

section \<open>Keys that can live in one tree\<close>

text \<open>No key is empty and no path is an initial piece of another.\<close>

definition path_free :: "bytes set \<Rightarrow> bool" where
  "path_free K \<longleftrightarrow> [] \<notin> K \<and> (\<forall>k \<in> K. \<forall>k' \<in> K. k \<noteq> k' \<longrightarrow> \<not> prefix (getFullPath k) (getFullPath k'))"

lemma path_free_mono: "path_free K \<Longrightarrow> K' \<subseteq> K \<Longrightarrow> path_free K'"
  unfolding path_free_def by blast

lemma same_length_path_free:
  assumes "\<forall>k \<in> K. length k = n" and "0 < n"
  shows "path_free K"
proof -
  have "\<not> prefix (getFullPath k) (getFullPath k')" if "k \<in> K" "k' \<in> K" "k \<noteq> k'" for k k'
  proof
    assume "prefix (getFullPath k) (getFullPath k')"
    moreover have "length (getFullPath k) = length (getFullPath k')"
      using assms(1) that by (simp add: path_length)
    ultimately have "getFullPath k = getFullPath k'" by (auto simp: prefix_def)
    with path_inj [of k k'] assms(1) that show False by simp
  qed
  with assms show ?thesis by (auto simp: path_free_def)
qed

section \<open>Well-formed nodes and their entries\<close>

type_synonym entry = "bytes option \<times> bytes \<times> int"

primrec leaves :: "VectorCommitmentNode \<Rightarrow> (bytes \<times> entry) list" where
  "leaves (LeafNode k v h c s) = [(k, v, h, s)]"
| "leaves (BranchNode pre cs c s count longest) =
     concat (map (case_option [] (\<lambda>l. l)) (map (map_option leaves) cs))"

definition leaves_of :: "VectorCommitmentNode option \<Rightarrow> (bytes \<times> entry) list" where
  "leaves_of x = (case x of None \<Rightarrow> [] | Some n \<Rightarrow> leaves n)"

lemma leaves_of_simps [simp]: "leaves_of None = []" "leaves_of (Some n) = leaves n"
  by (simp_all add: leaves_of_def)

lemma leaves_branch [simp]:
  "leaves (BranchNode pre cs c s count longest) = concat (map leaves_of cs)"
  by (auto simp: leaves_of_def comp_def intro!: arg_cong [of _ _ concat] split: option.splits)

declare leaves.simps(2) [simp del]

lemma in_children:
  "e \<in> set (concat (map leaves_of cs)) \<longleftrightarrow> (\<exists>m n. m < length cs \<and> cs ! m = Some n \<and> e \<in> set (leaves n))"
proof
  assume "e \<in> set (concat (map leaves_of cs))"
  then obtain x where x: "x \<in> set cs" "e \<in> set (leaves_of x)" by auto
  from x(2) obtain n where "x = Some n" "e \<in> set (leaves n)" by (cases x) simp_all
  with x(1) show "\<exists>m n. m < length cs \<and> cs ! m = Some n \<and> e \<in> set (leaves n)"
    by (metis in_set_conv_nth)
next
  assume "\<exists>m n. m < length cs \<and> cs ! m = Some n \<and> e \<in> set (leaves n)"
  then obtain n where "Some n \<in> set cs" "e \<in> set (leaves n)" by (metis nth_mem)
  then show "e \<in> set (concat (map leaves_of cs))" by (auto intro!: bexI [of _ "Some n"])
qed

inductive wf_node :: "int list \<Rightarrow> VectorCommitmentNode \<Rightarrow> bool" where
  leaf: "k \<noteq> [] \<Longrightarrow> prefix p (getFullPath k) \<Longrightarrow> wf_node p (LeafNode k v h c s)"
| branch: "length cs = BranchNodes \<Longrightarrow>
    (\<And>i n. i < length cs \<Longrightarrow> cs ! i = Some n \<Longrightarrow> wf_node (p @ pre @ [int i]) n) \<Longrightarrow>
    i < length cs \<Longrightarrow> j < length cs \<Longrightarrow> i \<noteq> j \<Longrightarrow> cs ! i \<noteq> None \<Longrightarrow> cs ! j \<noteq> None \<Longrightarrow>
    wf_node p (BranchNode pre cs c s count longest)"

inductive_cases wf_leafE [elim!]: "wf_node p (LeafNode k v h c s)"
inductive_cases wf_branchE: "wf_node p (BranchNode pre cs c s count longest)"

lemma leaves_nonempty: "wf_node p n \<Longrightarrow> leaves n \<noteq> []"
proof (induction rule: wf_node.induct)
  case (branch cs p pre i j c s count longest)
  then obtain n where n: "cs ! i = Some n" by blast
  with branch have "leaves n \<noteq> []" by blast
  then obtain e where "e \<in> set (leaves n)" by (meson last_in_set)
  with n branch.hyps(3) in_children [of e cs] show ?case
    unfolding leaves_branch by (metis empty_iff empty_set)
qed simp

lemma leaves_path: "wf_node p n \<Longrightarrow> (k, e) \<in> set (leaves n) \<Longrightarrow> k \<noteq> [] \<and> prefix p (getFullPath k)"
proof (induction arbitrary: k e rule: wf_node.induct)
  case (branch cs p pre i j c s count longest)
  then obtain m n where "m < length cs" "cs ! m = Some n" "(k, e) \<in> set (leaves n)"
    unfolding leaves_branch in_children by blast
  with branch.IH have "k \<noteq> [] \<and> prefix (p @ pre @ [int m]) (getFullPath k)" by blast
  then show ?case by (auto simp: prefix_def)
qed auto

text \<open>An entry of a branch sits below the child that the nibble after the prefix selects.\<close>

lemma branch_entry:
  assumes wf: "wf_node p (BranchNode pre cs c s count longest)"
  shows "(k, e) \<in> set (leaves (BranchNode pre cs c s count longest)) \<longleftrightarrow>
    (\<exists>m n. m < length cs \<and> cs ! m = Some n \<and> (k, e) \<in> set (leaves n) \<and>
      prefix (p @ pre @ [int m]) (getFullPath k) \<and> wf_node (p @ pre @ [int m]) n)"
proof -
  have "wf_node (p @ pre @ [int m]) n \<and> ((k, e) \<in> set (leaves n) \<longrightarrow> prefix (p @ pre @ [int m]) (getFullPath k))"
    if "m < length cs" "cs ! m = Some n" for m n
  proof -
    from wf that have "wf_node (p @ pre @ [int m]) n" by (auto elim: wf_branchE)
    with leaves_path [OF this] show ?thesis by blast
  qed
  then show ?thesis unfolding leaves_branch in_children by blast
qed

section \<open>The walk of the code along a path\<close>

lemma nib_prefix:
  assumes "prefix p (getFullPath key)" and "i < length p"
  shows "nib key i = p ! i"
proof -
  from assms(1) obtain q where "getFullPath key = p @ q" by (auto simp: prefix_def)
  with assms(2) show ?thesis by (simp add: nib_path nth_append)
qed

lemma nib_next:
  assumes "prefix (p @ [x]) (getFullPath key)"
  shows "nib key (length p) = x"
  using nib_prefix [OF assms, of "length p"] by simp

lemma all_less_Suc_shift: "(\<forall>m < Suc l. P m) \<longleftrightarrow> P 0 \<and> (\<forall>m < l. P (Suc m))"
  by (auto simp: less_Suc_eq_0_disj)

lemma prefix_mismatch_None:
  "prefix_mismatch key (d * BranchBits) pre i = None \<longleftrightarrow>
     (\<forall>m < length pre. nib key (d + i + m) = pre ! m)"
proof (induction pre arbitrary: i)
  case (Cons x pre)
  have *: "d * BranchBits + i * BranchBits = (d + i) * BranchBits" by (simp add: algebra_simps)
  have "(\<forall>m < length (x # pre). nib key (d + i + m) = (x # pre) ! m) \<longleftrightarrow>
      nib key (d + i) = x \<and> (\<forall>m < length pre. nib key (d + Suc i + m) = pre ! m)"
    by (auto simp: less_Suc_eq_0_disj)
  with Cons [of "Suc i"] show ?case by (simp add: Let_def *)
qed simp

lemma prefix_mismatch_Some:
  assumes "prefix_mismatch key (d * BranchBits) pre i = Some (j, x, y)"
  shows "i \<le> j \<and> j - i < length pre \<and> x = pre ! (j - i) \<and> y = nib key (d + j) \<and> y \<noteq> x \<and>
    (\<forall>m < j - i. nib key (d + i + m) = pre ! m)"
  using assms
proof (induction pre arbitrary: i)
  case (Cons z pre)
  have *: "d * BranchBits + i * BranchBits = (d + i) * BranchBits" by (simp add: algebra_simps)
  show ?case
  proof (cases "nib key (d + i) = z")
    case False
    with Cons.prems show ?thesis by (auto simp: Let_def *)
  next
    case True
    with Cons.prems have "prefix_mismatch key (d * BranchBits) pre (Suc i) = Some (j, x, y)"
      by (simp add: Let_def *)
    note IH = Cons.IH [OF this]
    then obtain l where l: "j = Suc (i + l)" by (metis add_Suc le_iff_add)
    have "\<forall>m < Suc l. nib key (d + i + m) = (z # pre) ! m"
      using IH True by (simp add: l all_less_Suc_shift)
    with IH show ?thesis by (simp add: l)
  qed
qed simp


lemma prefix_extend:
  assumes "prefix p (getFullPath key)" and "\<And>m. m < length q \<Longrightarrow> nib key (length p + m) = q ! m"
    and "-1 \<notin> set q"
  shows "prefix (p @ q) (getFullPath key)"
  using assms(2, 3)
proof (induction q rule: rev_induct)
  case Nil
  with assms(1) show ?case by simp
next
  case (snoc x q)
  have "prefix (p @ q) (getFullPath key)"
  proof (rule snoc.IH)
    show "nib key (length p + m) = q ! m" if "m < length q" for m
      using snoc.prems(1) [of m] that by (simp add: nth_append)
  qed (use snoc.prems(2) in simp)
  then obtain r where r: "getFullPath key = p @ q @ r" by (auto simp: prefix_def)
  have "nib key (length p + length q) = x" using snoc.prems(1) [of "length q"] by simp
  with snoc.prems(2) have "length (p @ q) < length (getFullPath key)" and "getFullPath key ! length (p @ q) = x"
    by (auto simp: nib_path split: if_splits)
  then show ?case using r by (cases r) (auto simp: prefix_def nth_append)
qed

text \<open>Two keys apart: neither path starts with the other.\<close>

definition apart :: "bytes \<Rightarrow> bytes \<Rightarrow> bool" where
  "apart k k' \<longleftrightarrow> \<not> prefix (getFullPath k) (getFullPath k') \<and> \<not> prefix (getFullPath k') (getFullPath k)"

lemma apart_next:
  assumes "apart k key" and "prefix (q @ [x]) (getFullPath k)" and "prefix q (getFullPath key)"
  shows "prefix (q @ [nib key (length q)]) (getFullPath key) \<and> 0 \<le> nib key (length q) \<and> nib key (length q) < 64"
proof -
  from assms(3) obtain r where r: "getFullPath key = q @ r" by (auto simp: prefix_def)
  have "r \<noteq> []"
  proof
    assume "r = []"
    with r assms(2) have "prefix (getFullPath key) (getFullPath k)" by (auto simp: prefix_def)
    with assms(1) show False by (simp add: apart_def)
  qed
  then obtain y r' where "r = y # r'" by (cases r) auto
  with r have "nib key (length q) = y" and "length q < length (getFullPath key)"
    by (simp_all add: nib_path)
  with r \<open>r = y # r'\<close> path_range [of "length q" key] show ?thesis
    by (auto simp: prefix_def)
qed

lemma diverge:
  assumes "prefix p (getFullPath k)" and "prefix p (getFullPath key)" and "apart k key"
  shows "\<exists>q. getNibblesUntilDiverge k key (length p * BranchBits) = Some (q, (length p + length q) * BranchBits) \<and>
    prefix (p @ q) (getFullPath k) \<and> prefix (p @ q) (getFullPath key) \<and>
    nib k (length p + length q) \<noteq> nib key (length p + length q)"
  using assms
proof (induction "length (getFullPath k) - length p" arbitrary: p rule: less_induct)
  case less
  let ?x = "nib k (length p)" and ?y = "nib key (length p)"
  show ?case
  proof (cases "?x = ?y")
    case False
    with less.prems show ?thesis
      by (intro exI [of _ "[]"]) (simp add: getNibblesUntilDiverge.simps [of k key "length p * BranchBits"] Let_def)
  next
    case True
    have long: "length p < length (getFullPath k)"
      using less.prems by (auto simp: apart_def prefix_def)
    then have "prefix (p @ [?x]) (getFullPath k)"
      using less.prems(1) by (auto simp: prefix_def nib_path nth_append neq_Nil_conv)
    moreover from this have "prefix (p @ [?x]) (getFullPath key)"
      using apart_next [OF less.prems(3) _ less.prems(2)] True by auto
    moreover have "length (getFullPath k) - length (p @ [?x]) < length (getFullPath k) - length p"
      using long by simp
    ultimately obtain q where q: "getNibblesUntilDiverge k key (length (p @ [?x]) * BranchBits) =
        Some (q, (length (p @ [?x]) + length q) * BranchBits)"
      "prefix ((p @ [?x]) @ q) (getFullPath k)" "prefix ((p @ [?x]) @ q) (getFullPath key)"
      "nib k (length (p @ [?x]) + length q) \<noteq> nib key (length (p @ [?x]) + length q)"
      using less.hyps [of "p @ [?x]"] less.prems(3) by metis
    have *: "length p * BranchBits + BranchBits = length (p @ [?x]) * BranchBits" by simp
    have "getNibblesUntilDiverge k key (length p * BranchBits) =
        Some (?x # q, (length p + length (?x # q)) * BranchBits)"
      using q(1) True unfolding getNibblesUntilDiverge.simps [of k key "length p * BranchBits"] *
      by (simp add: Let_def)
    moreover have "length p + length (?x # q) = length (p @ [?x]) + length q" by simp
    ultimately show ?thesis using q(2-4) by (intro exI [of _ "?x # q"]) simp
  qed
qed

declare leaves_branch [simp del]

end
