(* ===== verification/Vector_Tree_Map.thy ===== *)
theory Vector_Tree_Map
  imports Vector_Tree_Shape
begin

text \<open>
  Insertion, lookup and deletion on well-formed trees: none panics on keys that can be told apart, the
  tree stays well-formed, and its entries change by the one key.
\<close>

section \<open>Insertion\<close>

lemma wf_reprefix:
  assumes "wf_node p (BranchNode pre cs c s count longest)" and "p @ pre = p' @ pre'"
  shows "wf_node p' (BranchNode pre' cs c' s' count' longest')"
proof -
  have eq: "p @ pre @ x = p' @ pre' @ x" for x using assms(2) by (metis append_assoc)
  from assms(1) show ?thesis
  proof (cases rule: wf_node.cases)
    case (branch i j)
    then show ?thesis by (intro wf_node.branch [where i = i and j = j]) (simp_all add: eq)
  qed
qed

lemma wf_child:
  "wf_node p (BranchNode pre cs c s count longest) \<Longrightarrow> i < length cs \<Longrightarrow> cs ! i = Some n \<Longrightarrow>
    wf_node (p @ pre @ [int i]) n"
  by (auto elim: wf_branchE)

lemma wf_length: "wf_node p (BranchNode pre cs c s count longest) \<Longrightarrow> length cs = BranchNodes"
  by (auto elim: wf_branchE)

lemma in_children_update:
  assumes "i < length cs"
  shows "e \<in> set (concat (map leaves_of (cs[i := x]))) \<longleftrightarrow>
    e \<in> set (leaves_of x) \<or> (\<exists>m n. m < length cs \<and> m \<noteq> i \<and> cs ! m = Some n \<and> e \<in> set (leaves n))"
  (is "_ \<longleftrightarrow> ?R")
proof -
  have "cs[i := x] ! m = (if m = i then x else cs ! m)" if "m < length cs" for m
    using that by simp
  then have "(\<exists>m n. m < length cs \<and> cs[i := x] ! m = Some n \<and> e \<in> set (leaves n)) \<longleftrightarrow>
      (\<exists>n. x = Some n \<and> e \<in> set (leaves n)) \<or>
      (\<exists>m n. m < length cs \<and> m \<noteq> i \<and> cs ! m = Some n \<and> e \<in> set (leaves n))"
    using assms by metis
  then show ?thesis unfolding in_children by (cases x) simp_all
qed


lemma wf_update:
  assumes "wf_node p (BranchNode pre cs c s count longest)" and "i < length cs"
    and "wf_node (p @ pre @ [int i]) n"
  shows "wf_node p (BranchNode pre (cs[i := Some n]) c' s' count' longest')"
  using assms(1)
proof (cases rule: wf_node.cases)
  case (branch a b)
  show ?thesis
  proof (rule wf_node.branch [where i = a and j = b])
    show "length (cs[i := Some n]) = BranchNodes" using branch by simp
    show "wf_node (p @ pre @ [int m]) x" if "m < length (cs[i := Some n])" "cs[i := Some n] ! m = Some x" for m x
      using that assms(3) branch(2) [of m x] by (cases "m = i") auto
  qed (use branch assms(2) in \<open>auto simp: nth_list_update\<close>)
qed

lemma length_no_children [simp]: "length no_children = 64"
  by (simp add: no_children_def BranchNodes_def)

lemma nth_no_children [simp]: "i < 64 \<Longrightarrow> no_children ! i = None"
  by (simp add: no_children_def BranchNodes_def)

text \<open>A branch made for two nodes.\<close>

definition two_children :: "int \<Rightarrow> 'a \<Rightarrow> int \<Rightarrow> 'a \<Rightarrow> 'a option list" where
  "two_children x a y b = no_children[nat x := Some a, nat y := Some b]"

lemma set_two_children:
  assumes "0 \<le> x" "x < 64" "0 \<le> y" "y < 64"
  shows "Option.bind (set_child no_children x (Some a)) (\<lambda>cs. Option.bind (set_child cs y (Some b)) f) =
    f (two_children x a y b)"
  using assms by (simp add: set_child_def two_children_def)

lemma wf_two_children:
  assumes "0 \<le> x" "x < 64" "0 \<le> y" "y < 64" "x \<noteq> y"
    and "wf_node (p @ pre @ [x]) a" "wf_node (p @ pre @ [y]) b"
  shows "wf_node p (BranchNode pre (two_children x a y b) c s count longest)"
proof (rule wf_node.branch [where i = "nat x" and j = "nat y"])
  show "wf_node (p @ pre @ [int m]) n"
    if "m < length (two_children x a y b)" "two_children x a y b ! m = Some n" for m n
    using that assms by (auto simp: two_children_def nth_list_update split: if_splits)
qed (use assms in \<open>auto simp: two_children_def nth_list_update BranchNodes_def nat_eq_iff\<close>)

lemma leaves_two_children:
  assumes "0 \<le> x" "x < 64" "0 \<le> y" "y < 64" "x \<noteq> y"
  shows "set (concat (map leaves_of (two_children x a y b))) = set (leaves a) \<union> set (leaves b)"
proof -
  have "nat x < length (no_children :: VectorCommitmentNode option list)"
    "nat y < length (no_children[nat x := Some a])" "nat x \<noteq> nat y" using assms by auto
  then have "e \<in> set (concat (map leaves_of (two_children x a y b))) \<longleftrightarrow> e \<in> set (leaves a) \<union> set (leaves b)" for e
    unfolding two_children_def in_children_update [OF \<open>nat y < _\<close>] by (auto simp: nth_list_update)
  then show ?thesis by blast
qed

text \<open>What an insertion of one entry promises: it returns, the node stays well-formed, and its entries
  are the old ones with that of the key replaced.\<close>

definition inserted :: "int list \<Rightarrow> bytes \<Rightarrow> entry \<Rightarrow> VectorCommitmentNode option \<Rightarrow>
    (int \<times> VectorCommitmentNode) option \<Rightarrow> bool" where
  "inserted p key e x r \<longleftrightarrow> (\<exists>delta n. r = Some (delta, n) \<and> wf_node p n \<and>
     set (leaves n) = insert (key, e) {kx \<in> set (leaves_of x). fst kx \<noteq> key} \<and>
     delta = (if key \<in> fst ` set (leaves_of x) then 0 else 1))"

lemma insertedI:
  "r = Some (delta, n) \<Longrightarrow> wf_node p n \<Longrightarrow>
    set (leaves n) = insert (key, e) {kx \<in> set (leaves_of x). fst kx \<noteq> key} \<Longrightarrow>
    delta = (if key \<in> fst ` set (leaves_of x) then 0 else 1) \<Longrightarrow> inserted p key e x r"
  unfolding inserted_def by blast

lemma insert_none:
  assumes "key \<noteq> []" and "prefix p (getFullPath key)"
  shows "inserted p key (v, h, sz) None (insert_node key v h sz None d)"
  using assms by (auto simp: inserted_def intro: wf_node.leaf)

lemma insert_leaf:
  assumes "key \<noteq> []" and "prefix p (getFullPath key)" and "k \<noteq> []" and "prefix p (getFullPath k)"
    and "k \<noteq> key \<Longrightarrow> apart k key"
  shows "inserted p key (v, h, sz) (Some (LeafNode k v' h' c' s'))
    (insert_node key v h sz (Some (LeafNode k v' h' c' s')) (length p * BranchBits))"
proof (cases "k = key")
  case True
  with assms show ?thesis by (auto simp: inserted_def intro: wf_node.leaf)
next
  case False
  with assms obtain q where q: "getNibblesUntilDiverge k key (length p * BranchBits) =
      Some (q, (length p + length q) * BranchBits)"
    "prefix (p @ q) (getFullPath k)" "prefix (p @ q) (getFullPath key)"
    "nib k (length p + length q) \<noteq> nib key (length p + length q)"
    using diverge by blast
  let ?x = "nib k (length (p @ q))" and ?y = "nib key (length (p @ q))"
  from q(2,3) False assms(5) have "length (p @ q) < length (getFullPath k)" by (auto simp: apart_def prefix_def)
  with q(2) have x: "prefix ((p @ q) @ [?x]) (getFullPath k)"
    by (auto simp: prefix_def nib_path nth_append neq_Nil_conv)
  from apart_next [OF assms(5) [OF False] this q(3)]
  have y: "prefix ((p @ q) @ [?y]) (getFullPath key)" "0 \<le> ?y" "?y < 64" by blast+
  have "apart key k" using assms(5) [OF False] by (simp add: apart_def)
  from apart_next [OF this y(1) q(2)] have x': "0 \<le> ?x" "?x < 64" by blast+
  have ne: "?x \<noteq> ?y" using q(4) by simp
  have "insert_node key v h sz (Some (LeafNode k v' h' c' s')) (length p * BranchBits) =
      Some (1, BranchNode q (two_children ?x (LeafNode k v' h' c' s') ?y (LeafNode key v h [] sz)) [] (s' + sz) 2 1)"
    using False q(1) by (simp add: set_two_children [OF x' y(2,3), simplified])
  moreover have "wf_node p (BranchNode q (two_children ?x (LeafNode k v' h' c' s') ?y (LeafNode key v h [] sz)) [] (s' + sz) 2 1)"
    using x y assms(1,3) by (intro wf_two_children x' y(2,3) ne wf_node.leaf) simp_all
  ultimately show ?thesis
    using False by (auto simp: inserted_def leaves_branch leaves_two_children [OF x' y(2,3) ne, simplified])
qed


lemma branch_has_entry:
  assumes "wf_node p (BranchNode pre cs c s count longest)"
  obtains k e i where "(k, e) \<in> set (leaves (BranchNode pre cs c s count longest))"
    and "prefix (p @ pre @ [i]) (getFullPath k)"
proof -
  obtain k e where ke: "(k, e) \<in> set (leaves (BranchNode pre cs c s count longest))"
    using leaves_nonempty [OF assms] by (metis last_in_set surj_pair)
  then obtain m where "prefix (p @ pre @ [int m]) (getFullPath k)"
    unfolding branch_entry [OF assms] by blast
  with ke show ?thesis by (rule that)
qed

lemma prefix_range:
  assumes "prefix q (getFullPath k)" and "i < length q"
  shows "0 \<le> q ! i \<and> q ! i < 64"
  using assms path_range [of i k] by (auto simp: prefix_def nth_append)

lemma prefix_no_end: "prefix q (getFullPath k) \<Longrightarrow> -1 \<notin> set q"
  using prefix_range [of q k] by (fastforce simp: in_set_conv_nth)

lemma insert_split:
  assumes wf: "wf_node p (BranchNode pre cs c s count longest)"
    and key: "key \<noteq> []" "prefix p (getFullPath key)"
    and apart: "\<forall>k \<in> fst ` set (leaves (BranchNode pre cs c s count longest)). k \<noteq> key \<longrightarrow> apart k key"
    and miss: "prefix_mismatch key (length p * BranchBits) pre 0 = Some (i, x, y)"
  shows "inserted p key (v, h, sz) (Some (BranchNode pre cs c s count longest))
    (insert_node key v h sz (Some (BranchNode pre cs c s count longest)) (length p * BranchBits))"
proof -
  let ?n = "BranchNode pre cs c s count longest"
  let ?old = "BranchNode (drop (i + 1) pre) cs c s count longest"
  from prefix_mismatch_Some [OF miss]
  have i: "i < length pre" and x: "x = pre ! i" and y: "y = nib key (length p + i)" and ne: "x \<noteq> y"
    and same: "\<And>m. m < i \<Longrightarrow> nib key (length p + m) = pre ! m" by simp_all
  have split: "pre = take i pre @ [x] @ drop (i + 1) pre" using i x by (simp add: id_take_nth_drop)
  have below: "prefix (p @ take i pre @ [x]) (getFullPath k)" if "(k, e) \<in> set (leaves ?n)" for k e
  proof -
    have "prefix (p @ pre) (getFullPath k)"
      using that unfolding branch_entry [OF wf] by (auto simp: prefix_def)
    then show ?thesis using split by (metis append_assoc append_prefixD)
  qed
  have notkey: "k \<noteq> key" if "(k, e) \<in> set (leaves ?n)" for k e
  proof
    assume "k = key"
    with below [OF that] nib_prefix [of "p @ take i pre @ [x]" key "length p + i"] i y ne show False
      by (simp add: nth_append)
  qed
  obtain k e where ke: "(k, e) \<in> set (leaves ?n)" using branch_has_entry [OF wf] by blast
  have k: "prefix ((p @ take i pre) @ [x]) (getFullPath k)" using below [OF ke] by simp
  have "0 \<le> x \<and> x < 64"
    using prefix_range [OF k, of "length p + i"] i by (simp add: nth_append)
  then have x': "0 \<le> x" "x < 64" by blast+
  have shared: "prefix (p @ take i pre) (getFullPath key)"
  proof (rule prefix_extend [OF key(2)])
    show "-1 \<notin> set (take i pre)" using prefix_no_end [OF k] by simp
  qed (use same i in simp)
  have "apart k key" using apart ke notkey [OF ke] by force
  from apart_next [OF this k shared] i
  have y': "prefix (p @ take i pre @ [y]) (getFullPath key)" "0 \<le> y" "y < 64" by (simp_all add: y)
  have "wf_node (p @ take i pre @ [x]) ?old"
    using wf split by (intro wf_reprefix [OF wf]) simp
  then have "wf_node p (BranchNode (take i pre) (two_children x ?old y (LeafNode key v h [] sz)) [] (s + sz) (count + 1) (longest + 1))"
    using key(1) y'(1) by (intro wf_two_children x' y'(2,3) ne wf_node.leaf)
  moreover have "insert_node key v h sz (Some ?n) (length p * BranchBits) =
      Some (1, BranchNode (take i pre) (two_children x ?old y (LeafNode key v h [] sz)) [] (s + sz) (count + 1) (longest + 1))"
    using miss by (simp add: set_two_children [OF x' y'(2,3)])
  moreover have none: "key \<notin> fst ` set (leaves ?n)" and "{kx \<in> set (leaves ?n). fst kx \<noteq> key} = set (leaves ?n)"
    using notkey by force+
  moreover have "set (leaves (BranchNode (take i pre) (two_children x ?old y (LeafNode key v h [] sz)) [] (s + sz)
      (count + 1) (longest + 1))) = insert (key, v, h, sz) (set (leaves ?n))"
    unfolding leaves_branch leaves_two_children [OF x' y'(2,3) ne] leaves.simps(1) by simp
  ultimately show ?thesis
    by (intro insertedI) (simp_all only: leaves_of_simps if_False)
qed

text \<open>A key whose path goes through a branch selects one of its children.\<close>

lemma branch_descend:
  assumes wf: "wf_node p (BranchNode pre cs c s count longest)"
    and key: "prefix p (getFullPath key)"
    and apart: "\<forall>k \<in> fst ` set (leaves (BranchNode pre cs c s count longest)). k \<noteq> key \<longrightarrow> apart k key"
    and match: "prefix_mismatch key (length p * BranchBits) pre 0 = None"
  obtains f where "f < length cs" and "nib key (length p + length pre) = int f"
    and "prefix (p @ pre @ [int f]) (getFullPath key)"
proof -
  obtain k e i where ke: "(k, e) \<in> set (leaves (BranchNode pre cs c s count longest))"
    and i: "prefix ((p @ pre) @ [i]) (getFullPath k)"
    using branch_has_entry [OF wf] unfolding append_assoc by blast
  have through: "prefix (p @ pre) (getFullPath key)"
  proof (rule prefix_extend [OF key])
    show "-1 \<notin> set pre" using prefix_no_end [OF i] by simp
  qed (use match prefix_mismatch_None [of key "length p" pre 0] in simp)
  let ?f = "nib key (length (p @ pre))"
  have f: "prefix ((p @ pre) @ [?f]) (getFullPath key) \<and> 0 \<le> ?f \<and> ?f < 64"
  proof (cases "k = key")
    case True
    with i nib_next [OF i] prefix_range [OF i, of "length (p @ pre)"] show ?thesis by (simp add: nth_append)
  next
    case False
    with apart ke have "apart k key" by force
    from apart_next [OF this i through] show ?thesis .
  qed
  then obtain g where g: "?f = int g" by (metis nonneg_int_cases)
  show ?thesis
  proof (rule that)
    show "g < length cs" using f g wf_length [OF wf] by (simp add: BranchNodes_def)
    show "nib key (length p + length pre) = int g" using g by simp
    show "prefix (p @ pre @ [int g]) (getFullPath key)" using f unfolding g by simp
  qed
qed


lemma child_at_nat [simp]: "f < length cs \<Longrightarrow> child_at cs (int f) = Some (cs ! f)"
  by (simp add: child_at_def)

lemma set_child_nat [simp]: "f < length cs \<Longrightarrow> set_child cs (int f) x = Some (cs[f := x])"
  by (simp add: set_child_def)

lemma insert_node_down:
  assumes "prefix_mismatch key (length p * BranchBits) pre 0 = None" and "f < length cs"
    and "nib key (length p + length pre) = int f"
    and "insert_node key v h sz (cs ! f) (length (p @ pre @ [int f]) * BranchBits) = Some (delta, n)"
  shows "insert_node key v h sz (Some (BranchNode pre cs c s count longest)) (length p * BranchBits) =
    Some (delta, BranchNode pre (cs[f := Some n]) [] (if delta \<noteq> 0 then s + sz else s) (count + delta)
      (new_longest longest n))"
proof -
  have "length p * BranchBits + length pre * BranchBits = (length p + length pre) * BranchBits"
    by (simp add: algebra_simps)
  with assms show ?thesis
    by (simp add: Let_def add.commute [of _ BranchBits])
qed

text \<open>The entries of a branch whose child at \<open>f\<close> is replaced.\<close>

lemma branch_leaves_update:
  assumes wf: "wf_node p (BranchNode pre cs c s count longest)" and f: "f < length cs"
    and key: "prefix (p @ pre @ [int f]) (getFullPath key)"
    and sub: "\<And>e. e \<in> set (leaves_of x) \<longleftrightarrow> e \<in> new \<or> e \<in> set (leaves_of (cs ! f)) \<and> fst e \<noteq> key"
  shows "set (concat (map leaves_of (cs[f := x]))) =
    new \<union> {kx \<in> set (leaves (BranchNode pre cs c s count longest)). fst kx \<noteq> key}"
proof -
  have other: "fst e \<noteq> key" if "m < length cs" "m \<noteq> f" "cs ! m = Some n" "e \<in> set (leaves n)" for m n e
  proof
    assume "fst e = key"
    with that leaves_path [OF wf_child [OF wf that(1,3)], of "fst e" "snd e"]
    have "prefix (p @ pre @ [int m]) (getFullPath key)"
      by (metis prod.collapse)
    with key that(2) show False by (auto simp: prefix_def)
  qed
  have "e \<in> set (concat (map leaves_of (cs[f := x]))) \<longleftrightarrow>
      e \<in> new \<or> e \<in> set (concat (map leaves_of cs)) \<and> fst e \<noteq> key" for e
  proof -
    have "e \<in> set (leaves_of (cs ! f)) \<longleftrightarrow> (\<exists>n. cs ! f = Some n \<and> e \<in> set (leaves n))"
      by (cases "cs ! f") simp_all
    then show ?thesis
      unfolding in_children_update [OF f] in_children [of e cs] sub using other f by metis
  qed
  then show ?thesis unfolding leaves_branch by blast
qed

lemma child_entries:
  assumes "i < length cs" and "e \<in> set (leaves_of (cs ! i))"
  shows "e \<in> set (leaves (BranchNode pre cs c s count longest))"
  unfolding leaves_branch using assms by (auto intro: bexI [of _ "cs ! i"])

lemma branch_key:
  assumes wf: "wf_node p (BranchNode pre cs c s count longest)" and f: "f < length cs"
    and key: "prefix (p @ pre @ [int f]) (getFullPath key)"
  shows "key \<in> fst ` set (leaves (BranchNode pre cs c s count longest)) \<longleftrightarrow> key \<in> fst ` set (leaves_of (cs ! f))"
proof
  assume "key \<in> fst ` set (leaves (BranchNode pre cs c s count longest))"
  then obtain e where "(key, e) \<in> set (leaves (BranchNode pre cs c s count longest))" by force
  then obtain m n where m: "m < length cs" "cs ! m = Some n" "(key, e) \<in> set (leaves n)"
    "prefix (p @ pre @ [int m]) (getFullPath key)" unfolding branch_entry [OF wf] by blast
  from m(4) key have "m = f" by (auto simp: prefix_def)
  with m show "key \<in> fst ` set (leaves_of (cs ! f))" by force
next
  assume "key \<in> fst ` set (leaves_of (cs ! f))"
  with f show "key \<in> fst ` set (leaves (BranchNode pre cs c s count longest))"
    using child_entries by blast
qed

lemma insert_ok:
  assumes "wf_node p n" and "key \<noteq> []" and "prefix p (getFullPath key)"
    and "\<forall>k \<in> fst ` set (leaves n). k \<noteq> key \<longrightarrow> apart k key"
  shows "inserted p key (v, h, sz) (Some n) (insert_node key v h sz (Some n) (length p * BranchBits))"
  using assms
proof (induction rule: wf_node.induct)
  case (leaf k p v' h' c' s')
  then show ?case by (intro insert_leaf) auto
next
  case (branch cs p pre a b c s count longest)
  let ?n = "BranchNode pre cs c s count longest"
  have wf: "wf_node p ?n" by (rule wf_node.branch [OF branch.hyps])
  show ?case
  proof (cases "prefix_mismatch key (length p * BranchBits) pre 0")
    case (Some ixy)
    then show ?thesis using insert_split [OF wf branch.prems] by (cases ixy) blast
  next
    case None
    obtain f where f: "f < length cs" "nib key (length p + length pre) = int f"
      "prefix (p @ pre @ [int f]) (getFullPath key)"
      using branch_descend [OF wf branch.prems(2,3) None] by blast
    have "inserted (p @ pre @ [int f]) key (v, h, sz) (cs ! f)
        (insert_node key v h sz (cs ! f) (length (p @ pre @ [int f]) * BranchBits))"
    proof (cases "cs ! f")
      case None
      then show ?thesis using insert_none [OF branch.prems(1) f(3)] by simp
    next
      case (Some n)
      have "\<forall>k \<in> fst ` set (leaves n). k \<noteq> key \<longrightarrow> apart k key"
        using branch.prems(3) child_entries [OF f(1)] Some by fastforce
      with Some f branch.IH branch.prems(1) show ?thesis by simp
    qed
    then obtain delta n where n: "insert_node key v h sz (cs ! f) (length (p @ pre @ [int f]) * BranchBits) = Some (delta, n)"
      "wf_node (p @ pre @ [int f]) n"
      "set (leaves n) = insert (key, v, h, sz) {kx \<in> set (leaves_of (cs ! f)). fst kx \<noteq> key}"
      "delta = (if key \<in> fst ` set (leaves_of (cs ! f)) then 0 else 1)"
      unfolding inserted_def by blast
    show ?thesis
    proof (rule insertedI [OF insert_node_down [OF None f(1,2) n(1)]])
      show "wf_node p (BranchNode pre (cs[f := Some n]) [] (if delta \<noteq> 0 then s + sz else s) (count + delta)
          (new_longest longest n))" by (rule wf_update [OF wf f(1) n(2)])
      show "delta = (if key \<in> fst ` set (leaves_of (Some ?n)) then 0 else 1)"
        unfolding leaves_of_simps branch_key [OF wf f(1,3)] by (rule n(4))
      show "set (leaves (BranchNode pre (cs[f := Some n]) [] (if delta \<noteq> 0 then s + sz else s) (count + delta)
          (new_longest longest n))) = insert (key, v, h, sz) {kx \<in> set (leaves_of (Some ?n)). fst kx \<noteq> key}"
        using branch_leaves_update [OF wf f(1,3), of "Some n" "{(key, v, h, sz)}"] n(3)
        unfolding leaves_branch leaves_of_simps by simp
    qed
  qed
qed

section \<open>Lookup\<close>

lemma distinct_concat_nth:
  assumes "\<And>i. i < length xss \<Longrightarrow> distinct (xss ! i)"
    and "\<And>i j x. i < j \<Longrightarrow> j < length xss \<Longrightarrow> x \<in> set (xss ! i) \<Longrightarrow> x \<notin> set (xss ! j)"
  shows "distinct (concat xss)"
  using assms
proof (induction xss)
  case (Cons xs xss)
  have "distinct (concat xss)"
  proof (rule Cons.IH)
    show "distinct (xss ! i)" if "i < length xss" for i
      using Cons.prems(1) [of "Suc i"] that by simp
    show "x \<notin> set (xss ! j)" if "i < j" "j < length xss" "x \<in> set (xss ! i)" for i j x
      using Cons.prems(2) [of "Suc i" "Suc j" x] that by simp
  qed
  moreover have "x \<notin> set (concat xss)" if x: "x \<in> set xs" for x
  proof
    assume "x \<in> set (concat xss)"
    then obtain ys where "ys \<in> set xss" "x \<in> set ys" by auto
    then obtain j where "j < length xss" "x \<in> set (xss ! j)" by (metis in_set_conv_nth)
    with Cons.prems(2) [of 0 "Suc j" x] x show False by simp
  qed
  ultimately show ?case using Cons.prems(1) [of 0] by auto
qed simp

lemma leaf_keys_distinct: "wf_node p n \<Longrightarrow> distinct (map fst (leaves n))"
proof (induction rule: wf_node.induct)
  case (branch cs p pre a b c s count longest)
  have wf: "wf_node p (BranchNode pre cs c s count longest)" by (rule wf_node.branch [OF branch.hyps])
  have keys: "map fst (leaves (BranchNode pre cs c s count longest)) = concat (map (map fst \<circ> leaves_of) cs)"
    unfolding leaves_branch by (simp add: map_concat)
  have below: "prefix (p @ pre @ [int i]) (getFullPath k)"
    if i: "i < length cs" and k: "k \<in> set (map fst (leaves_of (cs ! i)))" for i k
  proof (cases "cs ! i")
    case (Some n)
    with k obtain e where "(k, e) \<in> set (leaves n)" by auto
    with leaves_path [OF wf_child [OF wf i Some]] show ?thesis by blast
  qed (use k in simp)
  show ?case unfolding keys
  proof (rule distinct_concat_nth)
    fix i assume "i < length (map (map fst \<circ> leaves_of) cs)"
    then show "distinct (map (map fst \<circ> leaves_of) cs ! i)"
      using branch.IH by (cases "cs ! i") simp_all
  next
    fix i j x
    assume ij: "i < j" "j < length (map (map fst \<circ> leaves_of) cs)" "x \<in> set (map (map fst \<circ> leaves_of) cs ! i)"
    show "x \<notin> set (map (map fst \<circ> leaves_of) cs ! j)"
    proof
      assume "x \<in> set (map (map fst \<circ> leaves_of) cs ! j)"
      with ij below [of i x] below [of j x] have "prefix (p @ pre @ [int i]) (getFullPath x)"
        "prefix (p @ pre @ [int j]) (getFullPath x)" by simp_all
      with ij(1) show False by (auto simp: prefix_def)
    qed
  qed
qed simp

lemma entry_lookup: "wf_node p n \<Longrightarrow> map_of (leaves n) k = Some e \<longleftrightarrow> (k, e) \<in> set (leaves n)"
  by (rule map_of_eq_Some_iff [OF leaf_keys_distinct])

lemma branch_lookup:
  assumes wf: "wf_node p (BranchNode pre cs c s count longest)" and f: "f < length cs"
    and key: "prefix (p @ pre @ [int f]) (getFullPath key)"
  shows "map_of (leaves (BranchNode pre cs c s count longest)) key = map_of (leaves_of (cs ! f)) key"
proof (cases "map_of (leaves_of (cs ! f)) key")
  case None
  then show ?thesis using branch_key [OF assms] by (metis map_of_eq_None_iff)
next
  case (Some e)
  from child_entries [OF f map_of_SomeD [OF Some]] entry_lookup [OF wf] Some show ?thesis by simp
qed

lemma mismatch_absent:
  assumes wf: "wf_node p (BranchNode pre cs c s count longest)"
    and miss: "prefix_mismatch key (length p * BranchBits) pre 0 \<noteq> None"
  shows "key \<notin> fst ` set (leaves (BranchNode pre cs c s count longest))"
proof
  assume "key \<in> fst ` set (leaves (BranchNode pre cs c s count longest))"
  then obtain e where "(key, e) \<in> set (leaves (BranchNode pre cs c s count longest))" by force
  then obtain m where m: "prefix (p @ pre @ [int m]) (getFullPath key)" unfolding branch_entry [OF wf] by blast
  have "nib key (length p + i) = pre ! i" if "i < length pre" for i
    using nib_prefix [OF m, of "length p + i"] that by (simp add: nth_append)
  with prefix_mismatch_None [of key "length p" pre 0] miss show False by simp
qed

lemma get_ok:
  assumes "wf_node p n" and "prefix p (getFullPath key)"
    and "\<forall>k \<in> fst ` set (leaves n). k \<noteq> key \<longrightarrow> apart k key"
  shows "get_node key (Some n) (length p * BranchBits) = Some (Option.bind (map_of (leaves n) key) fst)"
  using assms
proof (induction rule: wf_node.induct)
  case (branch cs p pre a b c s count longest)
  let ?n = "BranchNode pre cs c s count longest"
  have wf: "wf_node p ?n" by (rule wf_node.branch [OF branch.hyps])
  show ?case
  proof (cases "prefix_mismatch key (length p * BranchBits) pre 0")
    case (Some x)
    then have "map_of (leaves ?n) key = None"
      using mismatch_absent [OF wf, of key] unfolding map_of_eq_None_iff by blast
    then show ?thesis using Some by simp
  next
    case None
    obtain f where f: "f < length cs" "nib key (length p + length pre) = int f"
      "prefix (p @ pre @ [int f]) (getFullPath key)"
      using branch_descend [OF wf branch.prems None] by blast
    have "length p * BranchBits + length pre * BranchBits = (length p + length pre) * BranchBits"
      by (simp add: algebra_simps)
    with None f have "get_node key (Some ?n) (length p * BranchBits) =
        get_node key (cs ! f) (length (p @ pre @ [int f]) * BranchBits)"
      by (simp add: add.commute [of _ BranchBits])
    also have "\<dots> = Some (Option.bind (map_of (leaves_of (cs ! f)) key) fst)"
    proof (cases "cs ! f")
      case (Some n)
      have "\<forall>k \<in> fst ` set (leaves n). k \<noteq> key \<longrightarrow> apart k key"
        using branch.prems(2) child_entries [OF f(1)] Some by fastforce
      from branch.IH [OF f(1) Some f(3) this] show ?thesis by (simp only: Some leaves_of_simps)
    qed simp
    finally show ?thesis unfolding branch_lookup [OF wf f(1,3)] .
  qed
qed auto

section \<open>Deletion\<close>

lemma live_filter:
  "live_children cs = map (\<lambda>i. (i, the (cs ! i))) (filter (\<lambda>i. cs ! i \<noteq> None) [0..<length cs])"
proof -
  have "concat (map (\<lambda>i. if P i then [f i] else []) xs) = map f (filter P xs)"
    for P and f :: "nat \<Rightarrow> nat \<times> 'a" and xs by (induction xs) simp_all
  then show ?thesis unfolding live_children_def by simp
qed

lemma live_iff: "(i, n) \<in> set (live_children cs) \<longleftrightarrow> i < length cs \<and> cs ! i = Some n"
  by (auto simp: live_filter)

lemma live_distinct: "distinct (map fst (live_children cs))"
  by (simp add: live_filter comp_def)

text \<open>A branch rebuilt from children of which at least one is left is well-formed and keeps their entries.\<close>

lemma rebuild_ok:
  assumes len: "length cs = BranchNodes"
    and sub: "\<And>i n. i < length cs \<Longrightarrow> cs ! i = Some n \<Longrightarrow> wf_node (p @ pre @ [int i]) n"
    and some: "i < length cs" "cs ! i \<noteq> None"
  shows "\<exists>n. rebuild pre cs s = Some n \<and> wf_node p n \<and> set (leaves n) = set (concat (map leaves_of cs))"
proof -
  have live: "live_children cs \<noteq> []"
    using some live_iff [of i "the (cs ! i)" cs] by auto
  show ?thesis
  proof (cases "tl (live_children cs)")
    case Nil
    with live obtain j n where one: "live_children cs = [(j, n)]" by (cases "live_children cs") auto
    then have j: "j < length cs" "cs ! j = Some n" using live_iff [of j n cs] by simp_all
    have "m = j" if "m < length cs" "cs ! m = Some n'" for m n'
      using that live_iff [of m n' cs] one by simp
    then have only: "set (concat (map leaves_of cs)) = set (leaves n)"
      using j unfolding set_eq_iff in_children by fastforce
    note wf = sub [OF j]
    show ?thesis
    proof (cases n)
      case (LeafNode k v h c s')
      with wf have "wf_node p n" by (auto simp: prefix_def intro!: wf_node.leaf)
      with LeafNode only one show ?thesis by (simp add: rebuild_def)
    next
      case (BranchNode q cs' c s' count longest)
      with wf have "wf_node p (BranchNode (pre @ [int j] @ q) cs' [] s' count longest)"
        by (auto elim: wf_reprefix)
      with BranchNode only one show ?thesis by (simp add: rebuild_def leaves_branch)
    qed
  next
    case (Cons y ys)
    with live obtain x where two: "live_children cs = x # y # ys" by (cases "live_children cs") auto
    then have "fst x \<noteq> fst y" using live_distinct [of cs] by simp
    moreover have "fst x < length cs \<and> cs ! fst x = Some (snd x)" "fst y < length cs \<and> cs ! fst y = Some (snd y)"
      using two live_iff [of "fst x" "snd x" cs] live_iff [of "fst y" "snd y" cs] by simp_all
    ultimately have "wf_node p (BranchNode pre cs [] s count longest)" for count longest
      using len sub by (intro wf_node.branch [of cs p pre "fst x" "fst y"]) auto
    then show ?thesis by (auto simp: rebuild_def two leaves_branch split: prod.splits VectorCommitmentNode.splits)
  qed
qed

text \<open>What a removal promises.\<close>

definition removed :: "int list \<Rightarrow> bytes \<Rightarrow> VectorCommitmentNode option \<Rightarrow>
    (int \<times> VectorCommitmentNode option) option \<Rightarrow> bool" where
  "removed p key x r \<longleftrightarrow> (\<exists>sz y. r = Some (sz, y) \<and> (\<forall>n. y = Some n \<longrightarrow> wf_node p n) \<and>
     set (leaves_of y) = {kx \<in> set (leaves_of x). fst kx \<noteq> key} \<and>
     sz = (case map_of (leaves_of x) key of None \<Rightarrow> 0 | Some (v, h, s) \<Rightarrow> s))"

lemma removedI:
  "r = Some (sz, y) \<Longrightarrow> (\<And>n. y = Some n \<Longrightarrow> wf_node p n) \<Longrightarrow>
    set (leaves_of y) = {kx \<in> set (leaves_of x). fst kx \<noteq> key} \<Longrightarrow>
    sz = (case map_of (leaves_of x) key of None \<Rightarrow> 0 | Some (v, h, s) \<Rightarrow> s) \<Longrightarrow> removed p key x r"
  unfolding removed_def by blast

lemma remove_node_down:
  assumes "prefix_mismatch key (length p * BranchBits) pre 0 = None" and "f < length cs"
    and "nib key (length p + length pre) = int f"
    and "remove_node key (cs ! f) (length (p @ pre @ [int f]) * BranchBits) = Some (sz, y)"
  shows "remove_node key (Some (BranchNode pre cs c s count longest)) (length p * BranchBits) =
    Some (sz, rebuild pre (cs[f := y]) (s - sz))"
proof -
  have "length p * BranchBits + length pre * BranchBits = (length p + length pre) * BranchBits"
    by (simp add: algebra_simps)
  with assms show ?thesis
    by (simp add: Let_def add.commute [of _ BranchBits])
qed

lemma other_child:
  assumes "wf_node p (BranchNode pre cs c s count longest)"
  obtains i where "i < length cs" and "i \<noteq> f" and "cs ! i \<noteq> None"
  using assms
proof (cases rule: wf_node.cases)
  case (branch i j)
  then show ?thesis using that [of i] that [of j] by auto
qed

lemma remove_ok:
  assumes "wf_node p n" and "prefix p (getFullPath key)"
    and "\<forall>k \<in> fst ` set (leaves n). k \<noteq> key \<longrightarrow> apart k key"
  shows "removed p key (Some n) (remove_node key (Some n) (length p * BranchBits))"
  using assms
proof (induction rule: wf_node.induct)
  case (leaf k p v h c s)
  then show ?case by (auto simp: removed_def intro: wf_node.leaf)
next
  case (branch cs p pre a b c s count longest)
  let ?n = "BranchNode pre cs c s count longest"
  have wf: "wf_node p ?n" by (rule wf_node.branch [OF branch.hyps])
  show ?case
  proof (cases "prefix_mismatch key (length p * BranchBits) pre 0")
    case (Some x)
    then have absent: "key \<notin> fst ` set (leaves ?n)" using mismatch_absent [OF wf, of key] by blast
    then have "{kx \<in> set (leaves ?n). fst kx \<noteq> key} = set (leaves ?n)" and "map_of (leaves ?n) key = None"
      by (force, simp add: map_of_eq_None_iff)
    with Some wf show ?thesis by (simp add: removed_def)
  next
    case None
    obtain f where f: "f < length cs" "nib key (length p + length pre) = int f"
      "prefix (p @ pre @ [int f]) (getFullPath key)"
      using branch_descend [OF wf branch.prems None] by blast
    have "removed (p @ pre @ [int f]) key (cs ! f)
        (remove_node key (cs ! f) (length (p @ pre @ [int f]) * BranchBits))"
    proof (cases "cs ! f")
      case None
      then show ?thesis by (simp add: removed_def)
    next
      case (Some n)
      have "\<forall>k \<in> fst ` set (leaves n). k \<noteq> key \<longrightarrow> apart k key"
        using branch.prems(2) child_entries [OF f(1)] Some by fastforce
      from branch.IH [OF f(1) Some f(3) this] show ?thesis unfolding Some .
    qed
    then obtain sz y where y: "remove_node key (cs ! f) (length (p @ pre @ [int f]) * BranchBits) = Some (sz, y)"
      "\<And>n. y = Some n \<Longrightarrow> wf_node (p @ pre @ [int f]) n"
      "set (leaves_of y) = {kx \<in> set (leaves_of (cs ! f)). fst kx \<noteq> key}"
      "sz = (case map_of (leaves_of (cs ! f)) key of None \<Rightarrow> 0 | Some (v, h, s) \<Rightarrow> s)"
      unfolding removed_def by blast
    obtain i where i: "i < length cs" "i \<noteq> f" "cs ! i \<noteq> None" using other_child [OF wf] by blast
    obtain n where n: "rebuild pre (cs[f := y]) (s - sz) = Some n" "wf_node p n"
      "set (leaves n) = set (concat (map leaves_of (cs[f := y])))"
    proof -
      have "wf_node (p @ pre @ [int m]) n'" if "m < length (cs[f := y])" "cs[f := y] ! m = Some n'" for m n'
        using that y(2) wf_child [OF wf] by (cases "m = f") auto
      then show ?thesis
        using rebuild_ok [of "cs[f := y]" p pre i "s - sz"] i wf_length [OF wf] that by auto
    qed
    show ?thesis
    proof (rule removedI [OF remove_node_down [OF None f(1,2) y(1)]])
      show "sz = (case map_of (leaves_of (Some ?n)) key of None \<Rightarrow> 0 | Some (v, h, s) \<Rightarrow> s)"
        unfolding leaves_of_simps branch_lookup [OF wf f(1,3)] by (rule y(4))
      show "set (leaves_of (rebuild pre (cs[f := y]) (s - sz))) = {kx \<in> set (leaves_of (Some ?n)). fst kx \<noteq> key}"
        using branch_leaves_update [OF wf f(1,3), of y "{}"] y(3) unfolding n(1) leaves_of_simps n(3) by simp
    qed (use n in simp)
  qed
qed

section \<open>The tree as a partial store\<close>

definition tree_wf :: "VectorCommitmentTree \<Rightarrow> bool" where
  "tree_wf t \<longleftrightarrow> (\<forall>n. Root t = Some n \<longrightarrow> wf_node [] n) \<and> path_free (fst ` set (leaves_of (Root t)))"

definition tree_entries :: "VectorCommitmentTree \<Rightarrow> bytes \<Rightarrow> entry option" where
  "tree_entries t = map_of (leaves_of (Root t))"

lemma dom_tree_entries: "dom (tree_entries t) = fst ` set (leaves_of (Root t))"
  by (simp add: tree_entries_def dom_map_of_conv_image_fst)

lemma path_free_apart: "path_free K \<Longrightarrow> k \<in> K \<Longrightarrow> k' \<in> K \<Longrightarrow> k \<noteq> k' \<Longrightarrow> apart k k'"
  by (simp add: path_free_def apart_def)

lemma path_free_nonempty: "path_free K \<Longrightarrow> k \<in> K \<Longrightarrow> k \<noteq> []"
  unfolding path_free_def by blast

lemma insert_root:
  assumes "tree_wf t" and "path_free (insert key (dom (tree_entries t)))"
  shows "inserted [] key (v, h, sz) (Root t) (insert_node key v h sz (Root t) 0)"
proof (cases "Root t")
  case None
  then show ?thesis using insert_none [of key "[]"] path_free_nonempty [OF assms(2)] by simp
next
  case (Some n)
  have "\<forall>k \<in> fst ` set (leaves n). k \<noteq> key \<longrightarrow> apart k key"
    using path_free_apart [OF assms(2)] Some unfolding dom_tree_entries by auto
  with insert_ok [of "[]" n key v h sz] path_free_nonempty [OF assms(2)] assms(1) Some show ?thesis
    by (simp add: tree_wf_def)
qed

lemma get_root:
  assumes "tree_wf t" and "path_free (insert key (dom (tree_entries t)))"
  shows "get_node key (Root t) 0 = Some (Option.bind (tree_entries t key) fst)"
proof (cases "Root t")
  case None
  then show ?thesis by (simp add: tree_entries_def)
next
  case (Some n)
  have "\<forall>k \<in> fst ` set (leaves n). k \<noteq> key \<longrightarrow> apart k key"
    using path_free_apart [OF assms(2)] Some unfolding dom_tree_entries by auto
  with get_ok [of "[]" n key] assms(1) Some show ?thesis
    by (simp add: tree_wf_def tree_entries_def)
qed

lemma remove_root:
  assumes "tree_wf t" and "path_free (insert key (dom (tree_entries t)))"
  shows "removed [] key (Root t) (remove_node key (Root t) 0)"
proof (cases "Root t")
  case None
  then show ?thesis by (simp add: removed_def)
next
  case (Some n)
  have "\<forall>k \<in> fst ` set (leaves n). k \<noteq> key \<longrightarrow> apart k key"
    using path_free_apart [OF assms(2)] Some unfolding dom_tree_entries by auto
  with remove_ok [of "[]" n key] assms(1) Some show ?thesis
    by (simp add: tree_wf_def)
qed

lemma option_ext: "(\<And>e. a = Some e \<longleftrightarrow> b = Some e) \<Longrightarrow> a = b"
  by (cases a; cases b) auto

lemma entries_eqI:
  assumes "\<And>n. x = Some n \<Longrightarrow> wf_node p n"
    and "\<And>k e. (k, e) \<in> set (leaves_of x) \<longleftrightarrow> m k = Some e"
  shows "map_of (leaves_of x) = m"
proof
  fix k
  have "map_of (leaves_of x) k = Some e \<longleftrightarrow> m k = Some e" for e
    using assms(2) [of k e] entry_lookup [OF assms(1)] by (cases x) auto
  then show "map_of (leaves_of x) k = m k" by (rule option_ext)
qed

lemma tree_member: "tree_wf t \<Longrightarrow> (k, e) \<in> set (leaves_of (Root t)) \<longleftrightarrow> tree_entries t k = Some e"
  by (cases "Root t") (auto simp: tree_wf_def tree_entries_def entry_lookup)

lemma Insert_ok:
  assumes "tree_wf t" and "path_free (insert key (dom (tree_entries t)))"
  shows "\<exists>t'. Insert key v h sz t = Inr t' \<and> tree_wf t' \<and> tree_entries t' = (tree_entries t)(key \<mapsto> (v, h, sz))"
proof -
  from insert_root [OF assms] obtain delta n where n: "insert_node key v h sz (Root t) 0 = Some (delta, n)"
    "wf_node [] n" "set (leaves n) = insert (key, v, h, sz) {kx \<in> set (leaves_of (Root t)). fst kx \<noteq> key}"
    unfolding inserted_def by blast
  let ?t = "t\<lparr>Root := Some n\<rparr>"
  have "Insert key v h sz t = Inr ?t"
    using n(1) path_free_nonempty [OF assms(2)] by (simp add: Insert_def)
  moreover have ent: "tree_entries ?t = (tree_entries t)(key \<mapsto> (v, h, sz))"
    unfolding tree_entries_def [of ?t]
  proof (rule entries_eqI)
    show "(k, e) \<in> set (leaves_of (Root ?t)) \<longleftrightarrow> ((tree_entries t)(key \<mapsto> (v, h, sz))) k = Some e" for k e
      using tree_member [OF assms(1), of k e] by (auto simp: n(3))
  qed (use n(2) in simp)
  moreover have "path_free (fst ` set (leaves_of (Root ?t)))"
    by (rule path_free_mono [OF assms(2)]) (auto simp: n(3) dom_tree_entries)
  ultimately show ?thesis using n(2) by (auto simp: tree_wf_def)
qed

lemma Delete_ok:
  assumes "tree_wf t" and "path_free (insert key (dom (tree_entries t)))"
  shows "\<exists>t'. Delete key t = Inr t' \<and> tree_wf t' \<and> tree_entries t' = (tree_entries t)(key := None)"
proof -
  from remove_root [OF assms] obtain sz y where y: "remove_node key (Root t) 0 = Some (sz, y)"
    "\<forall>n. y = Some n \<longrightarrow> wf_node [] n" "set (leaves_of y) = {kx \<in> set (leaves_of (Root t)). fst kx \<noteq> key}"
    unfolding removed_def by blast
  let ?t = "t\<lparr>Root := y\<rparr>"
  have "Delete key t = Inr ?t"
    using y(1) path_free_nonempty [OF assms(2)] by (simp add: Delete_def)
  moreover have "tree_entries ?t = (tree_entries t)(key := None)"
    unfolding tree_entries_def [of ?t]
  proof (rule entries_eqI)
    show "(k, e) \<in> set (leaves_of (Root ?t)) \<longleftrightarrow> ((tree_entries t)(key := None)) k = Some e" for k e
      using tree_member [OF assms(1), of k e] by (auto simp: y(3))
  qed (use y(2) in simp)
  moreover have "path_free (fst ` set (leaves_of (Root ?t)))"
    by (rule path_free_mono [OF assms(2)]) (auto simp: y(3) dom_tree_entries)
  ultimately show ?thesis using y(2) by (auto simp: tree_wf_def)
qed

end
