(* ===== verification/Vector_Tree_Totals.thy ===== *)
theory Vector_Tree_Totals
  imports Vector_Tree_Map
begin

text \<open>
  Invariants of every node of a tree and two induction rules along insertion and removal, used for the
  leaf counts and, while sizes do not change, the size totals.
\<close>

section \<open>Invariants of every node\<close>

inductive every :: "(VectorCommitmentNode \<Rightarrow> bool) \<Rightarrow> VectorCommitmentNode \<Rightarrow> bool" for P where
  leaf: "P (LeafNode k v h c s) \<Longrightarrow> every P (LeafNode k v h c s)"
| branch: "P (BranchNode pre cs c s count longest) \<Longrightarrow> (\<And>n. Some n \<in> set cs \<Longrightarrow> every P n) \<Longrightarrow>
    every P (BranchNode pre cs c s count longest)"

inductive_simps every_leaf [simp]: "every P (LeafNode k v h c s)"
inductive_simps every_branch: "every P (BranchNode pre cs c s count longest)"

lemma every_here: "every P n \<Longrightarrow> P n"
  by (erule every.cases) simp_all

lemma every_update:
  assumes "every P (BranchNode pre cs c s count longest)" and "\<And>n. x = Some n \<Longrightarrow> every P n"
    and "P (BranchNode pre' (cs[f := x]) c' s' count' longest')"
  shows "every P (BranchNode pre' (cs[f := x]) c' s' count' longest')"
  using assms set_update_subset_insert [of cs f x] unfolding every_branch by blast

lemma every_child: "every P (BranchNode pre cs c s count longest) \<Longrightarrow> f < length cs \<Longrightarrow> cs ! f = Some n \<Longrightarrow> every P n"
  unfolding every_branch by (metis nth_mem)

lemma two_children_nodes:
  assumes "Some n \<in> set (two_children x a y b)"
  shows "n = a \<or> n = b"
proof -
  have "set (two_children x a y b) \<subseteq> insert (Some b) (set (no_children[nat x := Some a]))"
    unfolding two_children_def by (rule set_update_subset_insert)
  also have "set (no_children[nat x := Some a]) \<subseteq> insert (Some a) (set no_children)"
    by (rule set_update_subset_insert)
  also have "set no_children = {None}" by (simp add: no_children_def BranchNodes_def)
  finally show ?thesis using assms by blast
qed

lemma two_children_cases:
  "Option.bind (set_child no_children x (Some a)) (\<lambda>cs. Option.bind (set_child cs y (Some b)) f) = Some r \<Longrightarrow>
    0 \<le> x \<and> x < 64 \<and> 0 \<le> y \<and> y < 64 \<and> f (two_children x a y b) = Some r"
  by (auto simp: set_child_def two_children_def split: if_splits)

lemma diverge_differs:
  assumes "getNibblesUntilDiverge a b d = Some r"
  shows "getNextNibble a (snd r) \<noteq> getNextNibble b (snd r)"
proof (rule getNibblesUntilDiverge.raw_induct [where P = "\<lambda>a b d r. getNextNibble a (snd r) \<noteq> getNextNibble b (snd r)", OF _ assms])
  fix f k1 k2 d r
  assume IH: "\<And>k1 k2 d r. f k1 k2 d = Some r \<Longrightarrow> getNextNibble k1 (snd r) \<noteq> getNextNibble k2 (snd r)"
    and step: "(let n1 = getNextNibble k1 d; n2 = getNextNibble k2 d
      in if n1 \<noteq> n2 then Some ([], d)
         else do {
           (nibbles, d) \<leftarrow> f k1 k2 (d + BranchBits);
           Some (n1 # nibbles, d)
         }) = Some r"
  then show "getNextNibble k1 (snd r) \<noteq> getNextNibble k2 (snd r)"
    by (auto simp: Let_def split: if_splits option.splits bind_splits dest: IH)
qed

lemma mismatch_differs: "prefix_mismatch key d pre i = Some (m, x, y) \<Longrightarrow> x \<noteq> y"
  by (induction pre arbitrary: i) (auto simp: Let_def split: if_splits)

section \<open>Induction along an insertion and a removal\<close>

text \<open>
  The shapes an insertion builds, as an induction rule: a property of the result that the five cases
  keep holds of every result.
\<close>

lemma insert_node_induct [consumes 1, case_names new update fork split down]:
  assumes "insert_node key v h sz x d = Some (delta, n)"
    and "Q None 1 (LeafNode key v h [] sz)"
    and "\<And>v' h' c' s'. Q (Some (LeafNode key v' h' c' s')) 0 (LeafNode key v h [] sz)"
    and "\<And>k v' h' c' s' q i j. k \<noteq> key \<Longrightarrow> i \<noteq> j \<Longrightarrow> 0 \<le> i \<Longrightarrow> i < 64 \<Longrightarrow> 0 \<le> j \<Longrightarrow> j < 64 \<Longrightarrow>
      Q (Some (LeafNode k v' h' c' s')) 1
        (BranchNode q (two_children i (LeafNode k v' h' c' s') j (LeafNode key v h [] sz)) [] (s' + sz) 2 1)"
    and "\<And>pre cs c s count longest m i j. i \<noteq> j \<Longrightarrow> 0 \<le> i \<Longrightarrow> i < 64 \<Longrightarrow> 0 \<le> j \<Longrightarrow> j < 64 \<Longrightarrow>
      Q (Some (BranchNode pre cs c s count longest)) 1
        (BranchNode (take m pre) (two_children i (BranchNode (drop (m + 1) pre) cs c s count longest) j
          (LeafNode key v h [] sz)) [] (s + sz) (count + 1) (longest + 1))"
    and "\<And>pre cs c s count longest f delta n. f < length cs \<Longrightarrow> Q (cs ! f) delta n \<Longrightarrow>
      Q (Some (BranchNode pre cs c s count longest)) delta
        (BranchNode pre (cs[f := Some n]) [] (if delta \<noteq> 0 then s + sz else s) (count + delta)
          (new_longest longest n))"
  shows "Q x delta n"
  using assms
proof (induction key v h sz x d arbitrary: delta n rule: insert_node.induct)
  case (1 key v h sz d)
  then show ?case by simp
next
  case (2 key v h sz k v' h' c' s' d)
  show ?case
  proof (cases "k = key")
    case True
    with 2(1,3) show ?thesis by auto
  next
    case False
    with 2(1) obtain q d' where q: "getNibblesUntilDiverge k key d = Some (q, d')" by (auto split: bind_splits)
    with 2(1) False have "Option.bind (set_child no_children (getNextNibble k d') (Some (LeafNode k v' h' c' s')))
        (\<lambda>cs. Option.bind (set_child cs (getNextNibble key d') (Some (LeafNode key v h [] sz)))
          (\<lambda>cs. Some (1, BranchNode q cs [] (s' + sz) 2 1))) = Some (delta, n)" by simp
    from two_children_cases [OF this] diverge_differs [OF q] False 2(4) show ?thesis by auto
  qed
next
  case (3 key v h sz pre cs c s count longest d)
  show ?case
  proof (cases "prefix_mismatch key d pre 0")
    case (Some m)
    then obtain i x y where m: "m = (i, x, y)" by (cases m)
    with Some have ne: "x \<noteq> y" by (auto dest: mismatch_differs)
    from Some m 3(2) have "Option.bind (set_child no_children x (Some (BranchNode (drop (i + 1) pre) cs c s count longest)))
        (\<lambda>cs. Option.bind (set_child cs y (Some (LeafNode key v h [] sz)))
          (\<lambda>cs. Some (1, BranchNode (take i pre) cs [] (s + sz) (count + 1) (longest + 1)))) = Some (delta, n)" by simp
    from two_children_cases [OF this] ne 3(6) show ?thesis by auto
  next
    case None
    let ?f = "getNextNibble key (d + length pre * BranchBits)"
    from None 3(2) obtain child where child: "child_at cs ?f = Some child"
      by (auto simp: Let_def split: option.splits)
    with None 3(2) obtain n' where n': "insert_node key v h sz child (d + length pre * BranchBits + BranchBits) = Some (delta, n')"
      "set_child cs ?f (Some n') = Some (cs[nat ?f := Some n'])"
      "n = BranchNode pre (cs[nat ?f := Some n']) [] (if delta \<noteq> 0 then s + sz else s) (count + delta) (new_longest longest n')"
      by (auto simp: Let_def set_child_def split: bind_splits if_splits)
    have "Q child delta n'"
      by (rule 3(1) [OF None refl child n'(1)]; fact 3(3-7))
    moreover have "nat ?f < length cs" "child = cs ! nat ?f"
      using child by (auto simp: child_at_def split: if_splits)
    ultimately show ?thesis using 3(7) n'(3) by blast
  qed
qed


lemma remove_node_induct [consumes 1, case_names none hit miss away down]:
  assumes "remove_node key x d = Some (sz, y)"
    and "R None 0 None"
    and "\<And>v h c s. R (Some (LeafNode key v h c s)) s None"
    and "\<And>k v h c s. k \<noteq> key \<Longrightarrow> R (Some (LeafNode k v h c s)) 0 (Some (LeafNode k v h c s))"
    and "\<And>pre cs c s count longest.
      R (Some (BranchNode pre cs c s count longest)) 0 (Some (BranchNode pre cs c s count longest))"
    and "\<And>pre cs c s count longest f sz y. f < length cs \<Longrightarrow> R (cs ! f) sz y \<Longrightarrow>
      R (Some (BranchNode pre cs c s count longest)) sz (rebuild pre (cs[f := y]) (s - sz))"
  shows "R x sz y"
  using assms
proof (induction key x d arbitrary: sz y rule: remove_node.induct)
  case (3 key pre cs c s count longest d)
  show ?case
  proof (cases "prefix_mismatch key d pre 0")
    case (Some m)
    with 3(2,6) show ?thesis by auto
  next
    case None
    let ?f = "getNextNibble key (d + length pre * BranchBits)"
    from None 3(2) obtain child where child: "child_at cs ?f = Some child"
      by (auto simp: Let_def split: option.splits)
    with None 3(2) obtain y' where y': "remove_node key child (d + length pre * BranchBits + BranchBits) = Some (sz, y')"
      "y = rebuild pre (cs[nat ?f := y']) (s - sz)"
      by (auto simp: Let_def set_child_def split: bind_splits if_splits)
    have "R child sz y'" by (rule 3(1) [OF _ refl child y'(1)]; (fact 3(3-7) | simp add: None))
    moreover have "nat ?f < length cs" "child = cs ! nat ?f"
      using child by (auto simp: child_at_def split: if_splits)
    ultimately show ?thesis using 3(7) y'(2) by blast
  qed
qed (auto split: if_splits)

lemma rebuild_cases [case_names empty leaf merge keep]:
  obtains "live_children cs = []" "rebuild pre cs s = None"
  | i k v h c s' where "live_children cs = [(i, LeafNode k v h c s')]" "rebuild pre cs s = Some (LeafNode k v h c s')"
  | i q cs' c s' count longest where "live_children cs = [(i, BranchNode q cs' c s' count longest)]"
      "rebuild pre cs s = Some (BranchNode (pre @ [int i] @ q) cs' [] s' count longest)"
  | longest where "rebuild pre cs s =
      Some (BranchNode pre cs [] s (sum_list (map (node_leaves \<circ> snd) (live_children cs))) longest)"
proof (cases "live_children cs")
  case Nil
  with that(1) show ?thesis by (simp add: rebuild_def)
next
  case (Cons x xs)
  show ?thesis
  proof (cases xs)
    case Nil
    obtain i n where "x = (i, n)" by (cases x)
    with Cons Nil that(2,3) show ?thesis by (cases n) (auto simp: rebuild_def)
  next
    case (Cons y ys)
    with \<open>live_children cs = x # xs\<close> have "rebuild pre cs s = Some (BranchNode pre cs [] s
        (sum_list (map (node_leaves \<circ> snd) (live_children cs)))
        (fold (\<lambda>l m. max m l) (map (node_longest \<circ> snd) (live_children cs)) 1))"
      by (auto simp: rebuild_def split: prod.splits VectorCommitmentNode.splits)
    with that(4) show ?thesis by blast
  qed
qed

section \<open>Sums over the children\<close>

definition child_sum :: "(VectorCommitmentNode \<Rightarrow> int) \<Rightarrow> VectorCommitmentNode option list \<Rightarrow> int" where
  "child_sum g cs = sum_list (map (case_option 0 g) cs)"

lemma sum_list_replace:
  "f < length xs \<Longrightarrow> sum_list (map g (xs[f := x])) = sum_list (map g xs) - g (xs ! f) + (g x :: int)"
  by (induction xs arbitrary: f) (auto split: nat.split)

lemma child_sum_update:
  "f < length cs \<Longrightarrow> child_sum g (cs[f := x]) = child_sum g cs - case_option 0 g (cs ! f) + case_option 0 g x"
  by (simp add: child_sum_def sum_list_replace)

lemma child_sum_none [simp]: "child_sum g no_children = 0"
  by (simp add: child_sum_def no_children_def sum_list_replicate)

lemma child_sum_two:
  "i \<noteq> j \<Longrightarrow> 0 \<le> i \<Longrightarrow> i < 64 \<Longrightarrow> 0 \<le> j \<Longrightarrow> j < 64 \<Longrightarrow> child_sum g (two_children i a j b) = g a + g b"
  by (simp add: two_children_def child_sum_update nat_eq_iff)

lemma child_sum_live: "sum_list (map (g \<circ> snd) (live_children cs)) = child_sum g cs"
proof -
  have "sum_list (map (g \<circ> snd) (live_children cs)) =
      sum_list (map (\<lambda>i. g (the (cs ! i))) (filter (\<lambda>i. cs ! i \<noteq> None) [0..<length cs]))"
    by (simp add: live_filter comp_def)
  also have "\<dots> = sum_list (map (\<lambda>i. case_option 0 g (cs ! i)) [0..<length cs])"
    unfolding sum_list_map_filter' by (intro arg_cong [of _ _ sum_list] map_cong) (auto split: option.split)
  also have "map (\<lambda>i. case_option 0 g (cs ! i)) [0..<length cs] = map (case_option 0 g) cs"
    by (rule nth_equalityI) simp_all
  finally show ?thesis unfolding child_sum_def .
qed


section \<open>Leaf counts\<close>

definition count_ok :: "VectorCommitmentNode \<Rightarrow> bool" where
  "count_ok n = (case n of LeafNode _ _ _ _ _ \<Rightarrow> True
     | BranchNode _ cs _ _ count _ \<Rightarrow> count = child_sum node_leaves cs)"

lemma count_ok_simps [simp]:
  "count_ok (LeafNode k v h c s)"
  "count_ok (BranchNode pre cs c s count longest) \<longleftrightarrow> count = child_sum node_leaves cs"
  by (simp_all add: count_ok_def)

lemma node_leaves_simps [simp]:
  "node_leaves (LeafNode k v h c s) = 1"
  "node_leaves (BranchNode pre cs c s count longest) = count"
  by (simp_all add: node_leaves_def)

lemma insert_counts:
  assumes "insert_node key v h sz x d = Some (delta, n)" and "\<And>m. x = Some m \<Longrightarrow> every count_ok m"
  shows "every count_ok n \<and> node_leaves n = case_option 0 node_leaves x + delta"
  using assms
proof (induction rule: insert_node_induct)
  case (fork k v' h' c' s' q i j)
  then show ?case by (auto simp: every_branch child_sum_two dest: two_children_nodes)
next
  case (split pre cs c s count longest m i j)
  then show ?case by (auto simp: every_branch child_sum_two dest!: two_children_nodes)
next
  case (down pre cs c s count longest f delta n)
  have "every count_ok n \<and> node_leaves n = case_option 0 node_leaves (cs ! f) + delta"
    by (rule down(2)) (rule every_child [OF down(3) [OF refl] down(1)])
  then have n: "every count_ok n" "node_leaves n = case_option 0 node_leaves (cs ! f) + delta" by blast+
  have here: "count = child_sum node_leaves cs" using every_here [OF down(3) [OF refl]] by simp
  have "every count_ok (BranchNode pre (cs[f := Some n]) [] (if delta \<noteq> 0 then s + sz else s) (count + delta) (new_longest longest n))"
    by (rule every_update [OF down(3) [OF refl]]) (use n here down(1) in \<open>simp_all add: child_sum_update\<close>)
  then show ?case by simp
qed simp_all

lemma rebuild_counts:
  assumes "\<And>m. Some m \<in> set cs \<Longrightarrow> every count_ok m" and "rebuild pre cs s = Some n"
  shows "every count_ok n"
proof (cases rule: rebuild_cases [of cs pre s])
  case (merge i q cs' c s' count longest)
  then have "Some (BranchNode q cs' c s' count longest) \<in> set cs"
    using live_iff [of i _ cs] by (metis list.set_intros(1) nth_mem)
  from assms(1) [OF this] assms(2) merge show ?thesis by (auto simp: every_branch)
qed (use assms in \<open>auto simp: every_branch child_sum_live\<close>)

lemma remove_counts:
  assumes "remove_node key x d = Some (sz, y)" and "\<And>m. x = Some m \<Longrightarrow> every count_ok m"
  shows "\<forall>m. y = Some m \<longrightarrow> every count_ok m"
  using assms
proof (induction rule: remove_node_induct)
  case (down pre cs c s count longest f sz y)
  have y: "\<forall>m. y = Some m \<longrightarrow> every count_ok m"
    by (rule down(2)) (rule every_child [OF down(3) [OF refl] down(1)])
  have "every count_ok m" if "Some m \<in> set (cs[f := y])" for m
    using that y down(3) [OF refl] set_update_subset_insert [of cs f y] unfolding every_branch by blast
  with rebuild_counts show ?case by blast
qed simp_all

lemma counts_leaves: "every count_ok n \<Longrightarrow> node_leaves n = int (length (leaves n))"
proof (induction rule: every.induct)
  case (branch pre cs c s count longest)
  have "child_sum node_leaves cs = int (length (concat (map leaves_of cs)))"
    using branch(3) unfolding child_sum_def
  proof (induction cs)
    case (Cons x cs)
    then show ?case by (cases x) auto
  qed simp
  with branch(1) show ?case by (simp add: leaves_branch)
qed simp

section \<open>Sizes\<close>

text \<open>As long as the size is a function of the key, the totals of the branches are the sums of their entries.\<close>

definition size_ok :: "(bytes \<Rightarrow> int) \<Rightarrow> VectorCommitmentNode \<Rightarrow> bool" where
  "size_ok szf n = (case n of LeafNode k _ _ _ s \<Rightarrow> s = szf k
     | BranchNode _ cs _ s _ _ \<Rightarrow> s = child_sum Size cs)"

lemma size_ok_simps [simp]:
  "size_ok szf (LeafNode k v h c s) \<longleftrightarrow> s = szf k"
  "size_ok szf (BranchNode pre cs c s count longest) \<longleftrightarrow> s = child_sum Size cs"
  by (simp_all add: size_ok_def)

lemma insert_sizes:
  assumes "insert_node key v h (szf key) x d = Some (delta, n)" and "\<And>m. x = Some m \<Longrightarrow> every (size_ok szf) m"
  shows "every (size_ok szf) n \<and> Size n = case_option 0 Size x + (if delta \<noteq> 0 then szf key else 0)"
  using assms
proof (induction rule: insert_node_induct)
  case (fork k v' h' c' s' q i j)
  then show ?case by (auto simp: every_branch child_sum_two dest!: two_children_nodes)
next
  case (split pre cs c s count longest m i j)
  then show ?case by (auto simp: every_branch child_sum_two dest!: two_children_nodes)
next
  case (down pre cs c s count longest f delta n)
  have "every (size_ok szf) n \<and> Size n = case_option 0 Size (cs ! f) + (if delta \<noteq> 0 then szf key else 0)"
    by (rule down(2)) (rule every_child [OF down(3) [OF refl] down(1)])
  then have n: "every (size_ok szf) n" "Size n = case_option 0 Size (cs ! f) + (if delta \<noteq> 0 then szf key else 0)" by blast+
  have here: "s = child_sum Size cs" using every_here [OF down(3) [OF refl]] by simp
  have "every (size_ok szf) (BranchNode pre (cs[f := Some n]) [] (if delta \<noteq> 0 then s + szf key else s) (count + delta) (new_longest longest n))"
    by (rule every_update [OF down(3) [OF refl]]) (use n here down(1) in \<open>simp_all add: child_sum_update\<close>)
  then show ?case by simp
qed simp_all

lemma rebuild_sizes:
  assumes sub: "\<And>m. Some m \<in> set cs \<Longrightarrow> every (size_ok szf) m" and s: "s = child_sum Size cs"
  shows "(\<forall>n. rebuild pre cs s = Some n \<longrightarrow> every (size_ok szf) n) \<and> case_option 0 Size (rebuild pre cs s) = s"
proof (cases rule: rebuild_cases [of cs pre s])
  case empty
  then show ?thesis using s child_sum_live [of Size cs] by simp
next
  case (leaf i k v h c s')
  then have "Some (LeafNode k v h c s') \<in> set cs"
    using live_iff [of i _ cs] by (metis list.set_intros(1) nth_mem)
  from sub [OF this] leaf s child_sum_live [of Size cs] show ?thesis by simp
next
  case (merge i q cs' c s' count longest)
  then have "Some (BranchNode q cs' c s' count longest) \<in> set cs"
    using live_iff [of i _ cs] by (metis list.set_intros(1) nth_mem)
  from sub [OF this] merge s child_sum_live [of Size cs] show ?thesis by (auto simp: every_branch)
qed (use assms in \<open>auto simp: every_branch\<close>)

lemma remove_sizes:
  assumes "remove_node key x d = Some (sz, y)" and "\<And>m. x = Some m \<Longrightarrow> every (size_ok szf) m"
  shows "(\<forall>m. y = Some m \<longrightarrow> every (size_ok szf) m) \<and> case_option 0 Size y = case_option 0 Size x - sz"
  using assms
proof (induction rule: remove_node_induct)
  case (down pre cs c s count longest f sz y)
  have "(\<forall>m. y = Some m \<longrightarrow> every (size_ok szf) m) \<and> case_option 0 Size y = case_option 0 Size (cs ! f) - sz"
    by (rule down(2)) (rule every_child [OF down(3) [OF refl] down(1)])
  then have y: "\<forall>m. y = Some m \<longrightarrow> every (size_ok szf) m" "case_option 0 Size y = case_option 0 Size (cs ! f) - sz"
    by blast+
  have "every (size_ok szf) m" if "Some m \<in> set (cs[f := y])" for m
    using that y(1) down(3) [OF refl] set_update_subset_insert [of cs f y] unfolding every_branch by blast
  moreover have "s - sz = child_sum Size (cs[f := y])"
    using every_here [OF down(3) [OF refl]] down(1) y(2) by (simp add: child_sum_update)
  ultimately show ?case using rebuild_sizes [of "cs[f := y]" szf "s - sz" pre] by simp
qed simp_all

lemma sizes_leaves: "every (size_ok szf) n \<Longrightarrow> Size n = sum_list (map (szf \<circ> fst) (leaves n))"
proof (induction rule: every.induct)
  case (branch pre cs c s count longest)
  have "child_sum Size cs = sum_list (map (szf \<circ> fst) (concat (map leaves_of cs)))"
    using branch(3) unfolding child_sum_def
  proof (induction cs)
    case (Cons x cs)
    then show ?case by (cases x) auto
  qed simp
  with branch(1) show ?case by (simp add: leaves_branch comp_def)
qed simp

end
