(* ===== verification/Vector_Tree_Commit.thy ===== *)
theory Vector_Tree_Commit
  imports Vector_Tree_Totals
begin

text \<open>
  Commitments: what a commitment is meant to be, that the cached ones agree with it, and that the shape
  of a tree is determined by its contents.
\<close>

section \<open>The commitment as a function of the contents\<close>

text \<open>
  What the commitment of a node is meant to be, without caches: computed from the keys, values, hash
  targets and prefixes alone.
\<close>

function digest :: "prover \<Rightarrow> VectorCommitmentNode \<Rightarrow> bytes" where
  "digest pr (LeafNode k v h c s) = leaf_digest pr k v h"
| "digest pr (BranchNode pre cs c s count longest) =
     CommitRaw pr (concat (map (\<lambda>x. case x of None \<Rightarrow> zero_cell | Some n \<Rightarrow> child_cell pr n (digest pr n)) cs))"
  by pat_completeness auto
termination
  by (relation "measure (\<lambda>(pr, n). size n)") (auto dest: child_size)

primrec skeleton :: "VectorCommitmentNode \<Rightarrow> VectorCommitmentNode" where
  "skeleton (LeafNode k v h c s) = LeafNode k v h [] 0"
| "skeleton (BranchNode pre cs c s count longest) = BranchNode pre (map (map_option skeleton) cs) [] 0 0 0"

lemma child_cell_skeleton: "child_cell pr (skeleton n) out = child_cell pr n out"
  by (cases n) (simp_all add: child_cell_def)

lemma digest_skeleton: "digest pr (skeleton n) = digest pr n"
proof (induction pr n rule: digest.induct)
  case (2 pr pre cs c s count longest)
  have "(case map_option skeleton x of None \<Rightarrow> zero_cell | Some n \<Rightarrow> child_cell pr n (digest pr n)) =
      (case x of None \<Rightarrow> zero_cell | Some n \<Rightarrow> child_cell pr n (digest pr n))" if "x \<in> set cs" for x
    using 2 that by (cases x) (simp_all add: child_cell_skeleton)
  then show ?case by (simp add: comp_def cong: map_cong)
qed simp

lemma commit_skeleton: "skeleton (snd (commit_node pr r n)) = skeleton n"
proof (induction pr r n rule: commit_node.induct)
  case (2 pr r pre cs c s count longest)
  show ?case
  proof (cases "c = [] \<or> r")
    case True
    have "map_option skeleton (map_option snd (map_option (commit_node pr r) x)) = map_option skeleton x" if "x \<in> set cs" for x
      using 2 [OF True that] by (cases x) simp_all
    with True show ?thesis by (simp add: Let_def comp_def cong: map_cong)
  qed simp
qed (simp add: Let_def)

lemma commit_digest: "digest pr (snd (commit_node pr' r n)) = digest pr n"
  by (metis digest_skeleton commit_skeleton)

lemma wf_skeleton: "wf_node p (skeleton n) \<longleftrightarrow> wf_node p n"
proof
  show "wf_node p n \<Longrightarrow> wf_node p (skeleton n)"
  proof (induction rule: wf_node.induct)
    case (branch cs p pre i j c s count longest)
    show ?case unfolding skeleton.simps
      by (rule wf_node.branch [of _ _ _ i j]) (use branch in auto)
  qed (auto intro: wf_node.leaf)
  show "wf_node p (skeleton n) \<Longrightarrow> wf_node p n"
  proof (induction n arbitrary: p)
    case (BranchNode pre cs c s count longest)
    from BranchNode.prems show ?case unfolding skeleton.simps
    proof (cases rule: wf_node.cases)
      case (branch i j)
      show ?thesis
      proof (rule wf_node.branch [of _ _ _ i j])
        fix m n assume m: "m < length cs" "cs ! m = Some n"
        then have "wf_node (p @ pre @ [int m]) (skeleton n)" using branch(2) [of m "skeleton n"] by simp
        with BranchNode.IH m show "wf_node (p @ pre @ [int m]) n" by (metis nth_mem option.set_intros)
      qed (use branch in auto)
    qed
  qed (auto intro: wf_node.leaf)
qed

section \<open>Caches\<close>

definition node_children :: "VectorCommitmentNode \<Rightarrow> VectorCommitmentNode option list" where
  "node_children n = (case n of LeafNode _ _ _ _ _ \<Rightarrow> [] | BranchNode _ cs _ _ _ _ \<Rightarrow> cs)"

definition cache_ok :: "prover \<Rightarrow> VectorCommitmentNode \<Rightarrow> bool" where
  "cache_ok pr n \<longleftrightarrow> Commitment n = [] \<or>
     Commitment n = digest pr n \<and> (\<forall>m. Some m \<in> set (node_children n) \<longrightarrow> Commitment m \<noteq> [])"

lemma cache_fresh [simp]: "cache_ok pr (LeafNode k v h [] s)" "cache_ok pr (BranchNode pre cs [] s count longest)"
  by (simp_all add: cache_ok_def)

lemma cache_prefix:
  "cache_ok pr (BranchNode pre cs c s count longest) \<Longrightarrow> cache_ok pr (BranchNode pre' cs c s' count' longest')"
  by (simp add: cache_ok_def node_children_def)

lemma insert_caches:
  assumes "insert_node key v h sz x d = Some (delta, n)" and "\<And>m. x = Some m \<Longrightarrow> every (cache_ok pr) m"
  shows "every (cache_ok pr) n"
  using assms
proof (induction rule: insert_node_induct)
  case (fork k v' h' c' s' q i j)
  then show ?case by (auto simp: every_branch dest!: two_children_nodes)
next
  case (split pre cs c s count longest m i j)
  then show ?case by (auto simp: every_branch dest!: two_children_nodes intro: cache_prefix)
next
  case (down pre cs c s count longest f delta n)
  have "every (cache_ok pr) n"
    by (rule down(2)) (rule every_child [OF down(3) [OF refl] down(1)])
  then show ?case by (intro every_update [OF down(3) [OF refl]]) simp_all
qed simp_all

lemma remove_caches:
  assumes "remove_node key x d = Some (sz, y)" and "\<And>m. x = Some m \<Longrightarrow> every (cache_ok pr) m"
  shows "\<forall>m. y = Some m \<longrightarrow> every (cache_ok pr) m"
  using assms
proof (induction rule: remove_node_induct)
  case (down pre cs c s count longest f sz y)
  have y: "\<forall>m. y = Some m \<longrightarrow> every (cache_ok pr) m"
    by (rule down(2)) (rule every_child [OF down(3) [OF refl] down(1)])
  have sub: "every (cache_ok pr) m" if "Some m \<in> set (cs[f := y])" for m
    using that y down(3) [OF refl] set_update_subset_insert [of cs f y] unfolding every_branch by blast
  show ?case
  proof (cases rule: rebuild_cases [of "cs[f := y]" pre "s - sz"])
    case (leaf i k v h c s')
    then have "Some (LeafNode k v h c s') \<in> set (cs[f := y])"
      using live_iff [of i _ "cs[f := y]"] by (metis list.set_intros(1) nth_mem)
    from sub [OF this] leaf show ?thesis by simp
  next
    case (merge i q cs' c s' count longest)
    then have "Some (BranchNode q cs' c s' count longest) \<in> set (cs[f := y])"
      using live_iff [of i _ "cs[f := y]"] by (metis list.set_intros(1) nth_mem)
    from sub [OF this] merge show ?thesis by (auto simp: every_branch)
  qed (use sub in \<open>auto simp: every_branch\<close>)
qed simp_all


section \<open>Committing\<close>

text \<open>Hashes and vector commitments are never the empty string.\<close>

definition prover_total :: "prover \<Rightarrow> bool" where
  "prover_total pr \<longleftrightarrow> (\<forall>x. sha512 pr x \<noteq> [] \<and> CommitRaw pr x \<noteq> [])"

lemma digest_nonempty: "prover_total pr \<Longrightarrow> digest pr n \<noteq> []"
  by (cases n) (simp_all add: prover_total_def leaf_digest_def)

lemma commit_branch:
  obtains cs' c' where "snd (commit_node pr r (BranchNode pre cs c s count longest)) = BranchNode pre cs' c' s count longest"
    and "cs' = cs \<or> cs' = map (map_option (snd \<circ> commit_node pr r)) cs"
proof (cases "c = [] \<or> r")
  case True
  then show ?thesis by (intro that) (auto simp: Let_def option.map_comp comp_def)
next
  case False
  then show ?thesis by (intro that) auto
qed

lemma commit_leaves: "leaves (snd (commit_node pr r n)) = leaves n"
proof (induction pr r n rule: commit_node.induct)
  case (2 pr r pre cs c s count longest)
  show ?case
  proof (cases "c = [] \<or> r")
    case True
    have "leaves_of (map_option snd (map_option (commit_node pr r) x)) = leaves_of x" if "x \<in> set cs" for x
      using 2 [OF True that] by (cases x) simp_all
    with True show ?thesis by (simp add: Let_def leaves_branch comp_def cong: map_cong)
  qed simp
qed (simp add: Let_def)

lemma in_map_option: "Some n \<in> set (map (map_option f) cs) \<Longrightarrow> \<exists>m. Some m \<in> set cs \<and> n = f m"
  by (auto simp: eq_commute [of "Some n"])

text \<open>An invariant that does not look at commitments survives a commit.\<close>

lemma commit_every:
  assumes "every P n"
    and "\<And>k v h c s c'. P (LeafNode k v h c s) \<Longrightarrow> P (LeafNode k v h c' s)"
    and "\<And>pre cs c s count longest c'. P (BranchNode pre cs c s count longest) \<Longrightarrow>
      P (BranchNode pre (map (map_option (snd \<circ> commit_node pr r)) cs) c' s count longest)"
  shows "every P (snd (commit_node pr r n))"
  using assms(1)
proof (induction rule: every.induct)
  case (leaf k v h c s)
  then show ?case using assms(2) by (simp add: Let_def)
next
  case (branch pre cs c s count longest)
  show ?case
  proof (cases "c = [] \<or> r")
    case True
    then obtain c' where c': "snd (commit_node pr r (BranchNode pre cs c s count longest)) =
        BranchNode pre (map (map_option (snd \<circ> commit_node pr r)) cs) c' s count longest"
      by (auto simp: Let_def option.map_comp comp_def)
    have "every P n" if mem: "Some n \<in> set (map (map_option (snd \<circ> commit_node pr r)) cs)" for n
    proof -
      obtain m where "Some m \<in> set cs" "n = snd (commit_node pr r m)"
        using in_map_option [OF mem] by auto
      with branch(3) show ?thesis by simp
    qed
    with assms(3) [OF branch(1)] show ?thesis unfolding c' by (intro every.branch)
  next
    case False
    with branch(1,2) show ?thesis by (auto intro: every.branch)
  qed
qed

lemma commit_measure: "node_leaves (snd (commit_node pr r n)) = node_leaves n" "Size (snd (commit_node pr r n)) = Size n"
  by (cases n; simp add: Let_def)+

lemma commit_child_sum:
  "child_sum node_leaves (map (map_option (snd \<circ> commit_node pr r)) cs) = child_sum node_leaves cs"
  "child_sum Size (map (map_option (snd \<circ> commit_node pr r)) cs) = child_sum Size cs"
  unfolding child_sum_def
  by (auto intro!: arg_cong [of _ _ sum_list] simp: commit_measure split: option.split)

lemma commit_counts: "every count_ok n \<Longrightarrow> every count_ok (snd (commit_node pr r n))"
  by (erule commit_every) (simp_all add: commit_child_sum)

lemma commit_sizes: "every (size_ok szf) n \<Longrightarrow> every (size_ok szf) (snd (commit_node pr r n))"
  by (erule commit_every) (simp_all add: commit_child_sum)

lemma commit_correct:
  assumes "prover_total pr" and "r \<or> every (cache_ok pr) n"
  shows "fst (commit_node pr r n) = digest pr n \<and> Commitment (snd (commit_node pr r n)) = digest pr n \<and>
    every (cache_ok pr) (snd (commit_node pr r n))"
  using assms
proof (induction pr r n rule: commit_node.induct)
  case (1 pr r k v h c s)
  then show ?case by (auto simp: Let_def cache_ok_def node_children_def)
next
  case (2 pr r pre cs c s count longest)
  let ?n = "BranchNode pre cs c s count longest"
  show ?case
  proof (cases "c = [] \<or> r")
    case False
    with 2(3) have "every (cache_ok pr) ?n" by simp
    moreover from this False have "c = digest pr ?n" using every_here [of "cache_ok pr" ?n] by (simp add: cache_ok_def)
    ultimately show ?thesis using False by simp
  next
    case True
    have sub: "fst (commit_node pr r n) = digest pr n \<and> Commitment (snd (commit_node pr r n)) = digest pr n \<and>
        every (cache_ok pr) (snd (commit_node pr r n))" if n: "Some n \<in> set cs" for n
      using 2(1) [OF True n _ 2(2)] 2(3) n by (auto simp: every_branch)
    have cell: "child_cell pr (snd (commit_node pr r n)) out = child_cell pr n out" for n out
      using child_cell_skeleton [of pr "snd (commit_node pr r n)" out] child_cell_skeleton [of pr n out]
      by (simp add: commit_skeleton)
    let ?cs = "map (map_option (snd \<circ> commit_node pr r)) cs"
    have vec: "map (case_option zero_cell ((\<lambda>(out, n). child_cell pr n out) \<circ> commit_node pr r)) cs =
        map (case_option zero_cell (\<lambda>n. child_cell pr n (digest pr n))) cs"
    proof (rule map_cong [OF refl])
      fix x assume x: "x \<in> set cs"
      show "case_option zero_cell ((\<lambda>(out, n). child_cell pr n out) \<circ> commit_node pr r) x =
          case_option zero_cell (\<lambda>n. child_cell pr n (digest pr n)) x"
      proof (cases x)
        case (Some n)
        with x sub [of n] show ?thesis by (simp add: case_prod_beta cell)
      qed simp
    qed
    have eq: "commit_node pr r ?n = (digest pr ?n, BranchNode pre ?cs (digest pr ?n) s count longest)"
      using True by (simp add: Let_def comp_def [of _ "map_option _"] option.map_comp vec)
    have "digest pr (BranchNode pre ?cs (digest pr ?n) s count longest) = digest pr ?n"
      using commit_digest [of pr pr r ?n] unfolding eq snd_conv .
    moreover have "every (cache_ok pr) m \<and> Commitment m \<noteq> []" if mem: "Some m \<in> set ?cs" for m
    proof -
      obtain n where "Some n \<in> set cs" "m = snd (commit_node pr r n)"
        using in_map_option [OF mem] by auto
      with sub [of n] digest_nonempty [OF 2(2)] show ?thesis by simp
    qed
    ultimately have "every (cache_ok pr) (BranchNode pre ?cs (digest pr ?n) s count longest)"
      by (intro every.branch) (simp_all add: cache_ok_def [of pr "BranchNode pre ?cs _ _ _ _"] node_children_def)
    then show ?thesis unfolding eq by simp
  qed
qed


section \<open>One shape per content\<close>

text \<open>
  The shape of a well-formed tree, and with it the commitment, is determined by the keys, values and
  hash targets it holds; sizes, counts and the history of the tree play no part.
\<close>

definition content :: "bytes \<times> entry \<Rightarrow> bytes \<times> bytes option \<times> bytes" where
  "content e = (case e of (k, v, h, s) \<Rightarrow> (k, v, h))"

lemma fst_content [simp]: "fst (content e) = fst e"
  by (simp add: content_def split: prod.split)

lemma content_keys: "fst ` content ` X = fst ` X"
  by (simp add: image_image)

lemma branch_two_keys:
  assumes "wf_node p (BranchNode pre cs c s count longest)"
  obtains k k' i j where "k \<in> fst ` set (leaves (BranchNode pre cs c s count longest))"
    and "k' \<in> fst ` set (leaves (BranchNode pre cs c s count longest))"
    and "prefix (p @ pre @ [i]) (getFullPath k)" and "prefix (p @ pre @ [j]) (getFullPath k')" and "i \<noteq> j"
proof -
  have pick: "\<exists>k. k \<in> fst ` set (leaves (BranchNode pre cs c s count longest)) \<and> prefix (p @ pre @ [int i]) (getFullPath k)"
    if i: "i < length cs" "cs ! i \<noteq> None" for i
  proof -
    from i obtain n where n: "cs ! i = Some n" by blast
    note wf = wf_child [OF assms i(1) n]
    obtain k e where ke: "(k, e) \<in> set (leaves n)" using leaves_nonempty [OF wf] by (metis last_in_set surj_pair)
    then have "(k, e) \<in> set (leaves (BranchNode pre cs c s count longest))" using child_entries [OF i(1)] n by simp
    with leaves_path [OF wf ke] show ?thesis by (metis fst_conv imageI)
  qed
  from assms show ?thesis
  proof (cases rule: wf_node.cases)
    case (branch i j)
    with pick [of i] pick [of j] that show ?thesis by (metis of_nat_eq_iff)
  qed
qed

lemma common_prefix_bound:
  assumes "wf_node p (BranchNode pre cs c s count longest)"
    and "\<And>k. k \<in> fst ` set (leaves (BranchNode pre cs c s count longest)) \<Longrightarrow> prefix (p @ q) (getFullPath k)"
  shows "length q \<le> length pre"
proof (rule ccontr)
  assume long: "\<not> length q \<le> length pre"
  obtain k k' i j where k: "k \<in> fst ` set (leaves (BranchNode pre cs c s count longest))"
    "k' \<in> fst ` set (leaves (BranchNode pre cs c s count longest))"
    "prefix (p @ pre @ [i]) (getFullPath k)" "prefix (p @ pre @ [j]) (getFullPath k')" "i \<noteq> j"
    using branch_two_keys [OF assms(1)] by blast
  have "nib k (length (p @ pre)) = i" "nib k' (length (p @ pre)) = j"
    using nib_next [of "p @ pre" i k] nib_next [of "p @ pre" j k'] k by simp_all
  moreover have "nib k (length (p @ pre)) = nib k' (length (p @ pre))"
    using nib_prefix [OF assms(2) [OF k(1)], of "length (p @ pre)"] nib_prefix [OF assms(2) [OF k(2)], of "length (p @ pre)"] long
    by simp
  ultimately show False using k(5) by simp
qed

lemma branch_below:
  assumes "wf_node p (BranchNode pre cs c s count longest)"
    and "k \<in> fst ` set (leaves (BranchNode pre cs c s count longest))"
  shows "prefix (p @ pre) (getFullPath k)"
proof -
  from assms(2) obtain e where "(k, e) \<in> set (leaves (BranchNode pre cs c s count longest))" by force
  then show ?thesis unfolding branch_entry [OF assms(1)] by (auto simp: prefix_def)
qed

lemma child_content:
  assumes wf: "wf_node p (BranchNode pre cs c s count longest)" and i: "i < length cs"
  shows "content ` set (leaves_of (cs ! i)) =
    {x \<in> content ` set (leaves (BranchNode pre cs c s count longest)). prefix (p @ pre @ [int i]) (getFullPath (fst x))}"
    (is "?L = ?R")
proof
  show "?L \<subseteq> ?R"
  proof
    fix x assume "x \<in> ?L"
    then obtain e where e: "e \<in> set (leaves_of (cs ! i))" "x = content e" by blast
    then obtain n where n: "cs ! i = Some n" by (cases "cs ! i") auto
    have "prefix (p @ pre @ [int i]) (getFullPath (fst e))"
      using leaves_path [OF wf_child [OF wf i n], of "fst e" "snd e"] e n by simp
    with e child_entries [OF i e(1)] show "x \<in> ?R" by auto
  qed
  show "?R \<subseteq> ?L"
  proof
    fix x assume "x \<in> ?R"
    then obtain e where e: "e \<in> set (leaves (BranchNode pre cs c s count longest))" "x = content e"
      "prefix (p @ pre @ [int i]) (getFullPath (fst e))" by auto
    have "(fst e, snd e) \<in> set (leaves (BranchNode pre cs c s count longest))" using e(1) by simp
    then obtain m n where m: "m < length cs" "cs ! m = Some n" "(fst e, snd e) \<in> set (leaves n)"
      "prefix (p @ pre @ [int m]) (getFullPath (fst e))" unfolding branch_entry [OF wf] by blast
    with e(3) have "m = i" by (auto simp: prefix_def)
    with m e(2) show "x \<in> ?L" by auto
  qed
qed

lemma skeleton_unique:
  assumes "wf_node p n" and "wf_node p n'" and "content ` set (leaves n) = content ` set (leaves n')"
  shows "skeleton n = skeleton n'"
  using assms
proof (induction arbitrary: n' rule: wf_node.induct)
  case (leaf k p v h c s)
  show ?case
  proof (cases n')
    case (LeafNode k' v' h' c' s')
    with leaf.prems(2) show ?thesis by (simp add: content_def)
  next
    case (BranchNode pre cs c' s' count longest)
    from branch_two_keys [OF leaf.prems(1) [unfolded BranchNode]] obtain k1 k2 i j
      where "k1 \<in> fst ` set (leaves n')" "k2 \<in> fst ` set (leaves n')"
        "prefix (p @ pre @ [i]) (getFullPath k1)" "prefix (p @ pre @ [j]) (getFullPath k2)" "i \<noteq> j"
      unfolding BranchNode by blast
    moreover have "fst ` set (leaves n') = {k}"
      using arg_cong [OF leaf.prems(2), of "\<lambda>X. fst ` X"] unfolding content_keys by simp
    ultimately show ?thesis by (auto simp: prefix_def)
  qed
next
  case (branch cs p pre a b c s count longest)
  let ?n = "BranchNode pre cs c s count longest"
  have wf: "wf_node p ?n" by (rule wf_node.branch [OF branch.hyps])
  have keys: "fst ` set (leaves ?n) = fst ` set (leaves n')"
    using arg_cong [OF branch.prems(2), of "\<lambda>X. fst ` X"] unfolding content_keys .
  show ?case
  proof (cases n')
    case (LeafNode k v h c' s')
    then have "fst ` set (leaves ?n) = {k}" using keys by simp
    moreover obtain k1 k2 i j where "k1 \<in> fst ` set (leaves ?n)" "k2 \<in> fst ` set (leaves ?n)"
      "prefix (p @ pre @ [i]) (getFullPath k1)" "prefix (p @ pre @ [j]) (getFullPath k2)" "i \<noteq> j"
      using branch_two_keys [OF wf] by blast
    ultimately show ?thesis by (auto simp: prefix_def)
  next
    case (BranchNode pre' cs' c' s' count' longest')
    let ?n' = "BranchNode pre' cs' c' s' count' longest'"
    have wf': "wf_node p ?n'" using branch.prems(1) unfolding BranchNode .
    have keys': "fst ` set (leaves ?n) = fst ` set (leaves ?n')" using keys unfolding BranchNode .
    have "length pre' \<le> length pre"
      using common_prefix_bound [OF wf, of pre'] branch_below [OF wf'] unfolding keys' by blast
    moreover have "length pre \<le> length pre'"
      using common_prefix_bound [OF wf', of pre] branch_below [OF wf] unfolding keys' by blast
    moreover obtain k where "k \<in> fst ` set (leaves ?n)" using branch_two_keys [OF wf] by blast
    then have "prefix (p @ pre) (getFullPath k)" "prefix (p @ pre') (getFullPath k)"
      using branch_below [OF wf] branch_below [OF wf'] unfolding keys' by blast+
    ultimately have pre: "pre' = pre" by (auto simp: prefix_def append_eq_append_conv)
    have len: "length cs = length cs'" using wf_length [OF wf] wf_length [OF wf'] by simp
    have "map_option skeleton (cs ! i) = map_option skeleton (cs' ! i)" if i: "i < length cs" for i
    proof -
      have cont: "content ` set (leaves_of (cs ! i)) = content ` set (leaves_of (cs' ! i))"
        using child_content [OF wf i] child_content [OF wf', of i] i len branch.prems(2) unfolding BranchNode pre by simp
      show ?thesis
      proof (cases "cs ! i")
        case None
        with cont have "leaves_of (cs' ! i) = []" by simp
        with leaves_nonempty [OF wf_child [OF wf', of i]] i len None show ?thesis by (cases "cs' ! i") auto
      next
        case (Some m)
        with leaves_nonempty [OF wf_child [OF wf i Some]] cont have "leaves_of (cs' ! i) \<noteq> []" by auto
        then obtain m' where m': "cs' ! i = Some m'" by (cases "cs' ! i") auto
        have "wf_node (p @ pre @ [int i]) m'" using wf_child [OF wf' _ m'] i len pre by simp
        from branch.IH [OF i Some this] cont Some m' show ?thesis by simp
      qed
    qed
    with len have "map (map_option skeleton) cs = map (map_option skeleton) cs'" by (intro nth_equalityI) simp_all
    then show ?thesis unfolding BranchNode by (simp add: pre)
  qed
qed

end
