(* ===== verification/Vector_Tree_Guarantees.thy ===== *)
theory Vector_Tree_Guarantees
  imports Vector_Tree_Commit Partial_Store
begin

text \<open>
  The vector commitment tree over all sequences of insertions, deletions and commits: it is a finite
  map on keys of which no path starts with another, its totals are exact as long as the size of a key
  does not change, and its root commitment is a function of what it holds.
\<close>

section \<open>Runs\<close>

type_synonym tree_op = "(bytes, entry, bool) store_op"

definition empty_tree :: VectorCommitmentTree where
  "empty_tree = \<lparr>Root = None\<rparr>"

definition tree_put :: "VectorCommitmentTree \<Rightarrow> bytes \<Rightarrow> entry \<Rightarrow> fault + VectorCommitmentTree" where
  "tree_put t k e = (case e of (v, h, s) \<Rightarrow> Insert k v h s t)"

definition tree_del :: "VectorCommitmentTree \<Rightarrow> bytes \<Rightarrow> fault + VectorCommitmentTree" where
  "tree_del t k = Delete k t"

definition tree_commit :: "prover \<Rightarrow> bool \<Rightarrow> VectorCommitmentTree \<Rightarrow> VectorCommitmentTree" where
  "tree_commit pr r t = snd (Commit pr r t)"

definition tree_run :: "prover \<Rightarrow> tree_op list \<Rightarrow> VectorCommitmentTree \<Rightarrow> fault + VectorCommitmentTree" where
  "tree_run pr = store_run tree_put tree_del (tree_commit pr)"

text \<open>What \<^verbatim>\<open>Get\<close> reports of an entry: a nil value counts as missing.\<close>

definition found :: "entry option \<Rightarrow> fault + bytes" where
  "found e = (case e of Some (Some v, h, s) \<Rightarrow> Inr v | _ \<Rightarrow> Inl Err)"

definition vt_inv :: "prover \<Rightarrow> VectorCommitmentTree \<Rightarrow> bool" where
  "vt_inv pr t \<longleftrightarrow> tree_wf t \<and> (\<forall>n. Root t = Some n \<longrightarrow>
     every count_ok n \<and> (prover_total pr \<longrightarrow> every (cache_ok pr) n))"

lemma Get_ok:
  assumes "tree_wf t" and "path_free (insert k (dom (tree_entries t)))"
  shows "Get t k = found (tree_entries t k)"
proof -
  have "k \<noteq> []" using path_free_nonempty [OF assms(2)] by simp
  with get_root [OF assms] show ?thesis
    by (auto simp: Get_def found_def split: option.splits prod.splits bind_splits)
qed

lemma vt_inv_put:
  assumes "vt_inv pr t" and "path_free (insert k (dom (tree_entries t)))"
  shows "\<exists>t'. tree_put t k e = Inr t' \<and> vt_inv pr t' \<and> tree_entries t' = (tree_entries t)(k \<mapsto> e)"
proof -
  obtain v h s where e: "e = (v, h, s)" by (cases e)
  have wf: "tree_wf t" using assms(1) by (simp add: vt_inv_def)
  from Insert_ok [OF wf assms(2)] obtain t' where t': "Insert k v h s t = Inr t'" "tree_wf t'"
    "tree_entries t' = (tree_entries t)(k \<mapsto> (v, h, s))" by blast
  then obtain delta n where n: "insert_node k v h s (Root t) 0 = Some (delta, n)" "t' = t\<lparr>Root := Some n\<rparr>"
    by (auto simp: Insert_def split: if_splits option.splits)
  have "every count_ok n" using insert_counts [OF n(1)] assms(1) by (simp add: vt_inv_def)
  moreover have "prover_total pr \<Longrightarrow> every (cache_ok pr) n"
    using insert_caches [OF n(1)] assms(1) by (simp add: vt_inv_def)
  ultimately show ?thesis using t' n(2) by (simp add: tree_put_def e vt_inv_def)
qed

lemma vt_inv_del:
  assumes "vt_inv pr t" and "path_free (insert k (dom (tree_entries t)))"
  shows "\<exists>t'. tree_del t k = Inr t' \<and> vt_inv pr t' \<and> tree_entries t' = (tree_entries t)(k := None)"
proof -
  have wf: "tree_wf t" using assms(1) by (simp add: vt_inv_def)
  from Delete_ok [OF wf assms(2)] obtain t' where t': "Delete k t = Inr t'" "tree_wf t'"
    "tree_entries t' = (tree_entries t)(k := None)" by blast
  then obtain sz y where y: "remove_node k (Root t) 0 = Some (sz, y)" "t' = t\<lparr>Root := y\<rparr>"
    by (auto simp: Delete_def split: if_splits option.splits)
  have "\<forall>m. y = Some m \<longrightarrow> every count_ok m" using remove_counts [OF y(1)] assms(1) by (simp add: vt_inv_def)
  moreover have "prover_total pr \<Longrightarrow> \<forall>m. y = Some m \<longrightarrow> every (cache_ok pr) m"
    using remove_caches [OF y(1)] assms(1) by (simp add: vt_inv_def)
  ultimately show ?thesis using t' y(2) by (simp add: tree_del_def vt_inv_def)
qed

lemma Commit_root:
  "snd (Commit pr r t) = t\<lparr>Root := map_option (snd \<circ> commit_node pr r) (Root t)\<rparr>"
  by (cases "Root t") (simp_all add: Commit_def case_prod_beta)

lemma tree_commit_entries: "tree_entries (tree_commit pr r t) = tree_entries t"
  by (cases "Root t") (simp_all add: tree_commit_def Commit_root tree_entries_def commit_leaves)

lemma commit_wf: "wf_node p n \<Longrightarrow> wf_node p (snd (commit_node pr r n))"
  by (metis commit_skeleton wf_skeleton)

lemma vt_inv_commit:
  assumes "vt_inv pr t"
  shows "vt_inv pr (tree_commit pr r t)"
proof (cases "Root t")
  case None
  with assms show ?thesis by (simp add: tree_commit_def Commit_root vt_inv_def tree_wf_def)
next
  case (Some n)
  have "every (cache_ok pr) (snd (commit_node pr r n))" if "prover_total pr"
    using commit_correct [OF that, of r n] assms Some that by (simp add: vt_inv_def)
  with assms Some show ?thesis
    by (simp add: tree_commit_def Commit_root vt_inv_def tree_wf_def commit_wf commit_counts commit_leaves)
qed

lemma vt_inv_empty: "vt_inv pr empty_tree"
  by (simp add: vt_inv_def tree_wf_def empty_tree_def path_free_def)

lemma tree_entries_empty: "tree_entries empty_tree = Map.empty"
  by (simp add: tree_entries_def empty_tree_def)

interpretation vt: partial_store "vt_inv pr" tree_entries path_free found Get tree_put tree_del "tree_commit pr"
  for pr
proof
  show "Get t k = found (tree_entries t k)" if "vt_inv pr t" "path_free (insert k (dom (tree_entries t)))" for t k
    using that Get_ok by (simp add: vt_inv_def)
qed (auto simp: vt_inv_put vt_inv_del vt_inv_commit tree_commit_entries elim: path_free_mono)

lemma tree_run_ok:
  assumes "path_free (run_keys ops)"
  shows "\<exists>t. tree_run pr ops empty_tree = Inr t \<and> vt_inv pr t \<and> tree_entries t = map_run ops Map.empty"
  using vt.run_ok [of pr empty_tree ops] assms
  by (simp add: tree_run_def vt_inv_empty tree_entries_empty)

lemma leaf_count_card:
  assumes "vt_inv pr t"
  shows "fst (GetMetadata t) = int (card (dom (tree_entries t)))"
proof (cases "Root t")
  case None
  then show ?thesis by (simp add: GetMetadata_def tree_entries_def)
next
  case (Some n)
  with assms have wf: "wf_node [] n" and count: "every count_ok n" by (simp_all add: vt_inv_def tree_wf_def)
  have "fst (GetMetadata t) = node_leaves n" using Some by (cases n) (simp_all add: GetMetadata_def)
  also have "\<dots> = int (length (leaves n))" by (rule counts_leaves [OF count])
  also have "length (leaves n) = card (fst ` set (leaves n))"
    using distinct_card [OF leaf_keys_distinct [OF wf]] by simp
  finally show ?thesis using Some by (simp add: dom_tree_entries)
qed


section \<open>The tree is a finite map\<close>

text \<open>Claim C6.  Any sequence of insertions, deletions and commits on keys of which no path starts
  with another returns without an error or a panic.  Afterwards \<^verbatim>\<open>Get\<close> finds exactly the value last
  written for a key, also for keys never used, and the leaf count of \<^verbatim>\<open>GetMetadata\<close> is the number of
  keys held.\<close>
theorem vector_tree_is_map:
  assumes "path_free (run_keys ops)"
  shows "\<exists>t. tree_run pr ops empty_tree = Inr t \<and>
    (\<forall>k. path_free (insert k (run_keys ops)) \<longrightarrow> Get t k = found (map_run ops Map.empty k)) \<and>
    fst (GetMetadata t) = int (card (dom (map_run ops Map.empty)))"
proof -
  from tree_run_ok [OF assms] obtain t where t: "tree_run pr ops empty_tree = Inr t" "vt_inv pr t"
    "tree_entries t = map_run ops Map.empty" by blast
  have "Get t k = found (map_run ops Map.empty k)" if "path_free (insert k (run_keys ops))" for k
    using vt.run_get [of pr empty_tree k ops t] that t(1)
    by (simp add: tree_run_def vt_inv_empty tree_entries_empty)
  with t leaf_count_card [OF t(2)] show ?thesis by auto
qed

definition toy_prover :: prover where
  "toy_prover = \<lparr>sha512 = (\<lambda>x. 7 # x), CommitRaw = (\<lambda>x. 9 # x), ProveRaw = (\<lambda>x i. []),
     VerifyRaw = (\<lambda>d c i p. False), ProveMultiple_raw = (\<lambda>c p i. \<lparr>Multicommitment = [], Proof = []\<rparr>),
     VerifyMultiple_raw = (\<lambda>c y i m p. False)\<rparr>"

theorem vector_tree_is_map_witness:
  "let ops = [Put [1, 2] (Some [5], [], 1), Put [1, 3] (Some [6], [], 1), Tidy False, Put [1, 2] (Some [7], [], 2),
       Del [1, 3]]
   in path_free (run_keys ops) \<and> (\<exists>t. tree_run toy_prover ops empty_tree = Inr t \<and>
      Get t [1, 2] = Inr [7] \<and> Get t [1, 3] = Inl Err \<and> fst (GetMetadata t) = 1)"
proof -
  let ?ops = "[Put [1, 2] (Some [5], [], 1), Put [1, 3] (Some [6], [], 1), Tidy False, Put [1, 2] (Some [7], [], 2),
    Del [1, 3]] :: tree_op list"
  have keys: "path_free (insert k (run_keys ?ops))" if "length k = 2" for k
    by (rule same_length_path_free [of _ 2]) (use that in auto)
  have pf: "path_free (run_keys ?ops)" by (rule path_free_mono [OF keys [of "[1, 2]"]]) auto
  from vector_tree_is_map [OF pf, of toy_prover] obtain t where t: "tree_run toy_prover ?ops empty_tree = Inr t"
    "\<And>k. path_free (insert k (run_keys ?ops)) \<Longrightarrow> Get t k = found (map_run ?ops Map.empty k)"
    "fst (GetMetadata t) = int (card (dom (map_run ?ops Map.empty)))" by blast
  have "Get t [1, 2] = Inr [7]" "Get t [1, 3] = Inl Err"
    using t(2) [OF keys [of "[1, 2]"]] t(2) [OF keys [of "[1, 3]"]] by (simp_all add: found_def)
  moreover have "fst (GetMetadata t) = 1" using t(3) by simp
  ultimately show ?thesis using pf t(1) unfolding Let_def by blast
qed

section \<open>Sizes\<close>

definition sized_put :: "(bytes \<Rightarrow> int) \<Rightarrow> VectorCommitmentTree \<Rightarrow> bytes \<Rightarrow> bytes option \<times> bytes \<Rightarrow>
    fault + VectorCommitmentTree" where
  "sized_put szf t k e = tree_put t k (fst e, snd e, szf k)"

definition sized_inv :: "prover \<Rightarrow> (bytes \<Rightarrow> int) \<Rightarrow> VectorCommitmentTree \<Rightarrow> bool" where
  "sized_inv pr szf t \<longleftrightarrow> vt_inv pr t \<and> (\<forall>n. Root t = Some n \<longrightarrow> every (size_ok szf) n)"

definition bare :: "entry \<Rightarrow> bytes option \<times> bytes" where
  "bare e = (fst e, fst (snd e))"

definition bare_entries :: "VectorCommitmentTree \<Rightarrow> bytes \<Rightarrow> (bytes option \<times> bytes) option" where
  "bare_entries t k = map_option bare (tree_entries t k)"

lemma dom_bare_entries [simp]: "dom (bare_entries t) = dom (tree_entries t)"
  by (auto simp: bare_entries_def)

lemma sized_put_ok:
  assumes "sized_inv pr szf t" and "path_free (insert k (dom (bare_entries t)))"
  shows "\<exists>t'. sized_put szf t k e = Inr t' \<and> sized_inv pr szf t' \<and> bare_entries t' = (bare_entries t)(k \<mapsto> e)"
proof -
  from vt_inv_put [of pr t k "(fst e, snd e, szf k)"] assms obtain t' where
    t': "tree_put t k (fst e, snd e, szf k) = Inr t'" "vt_inv pr t'"
      "tree_entries t' = (tree_entries t)(k \<mapsto> (fst e, snd e, szf k))"
    by (auto simp: sized_inv_def)
  then obtain delta n where n: "insert_node k (fst e) (snd e) (szf k) (Root t) 0 = Some (delta, n)"
    "t' = t\<lparr>Root := Some n\<rparr>"
    by (auto simp: tree_put_def Insert_def split: if_splits option.splits)
  have "every (size_ok szf) n" using insert_sizes [where szf = szf, OF n(1)] assms(1) by (simp add: sized_inv_def)
  moreover have "bare_entries t' = (bare_entries t)(k \<mapsto> e)"
    using t'(3) by (auto simp: bare_entries_def bare_def)
  ultimately show ?thesis using t' n(2) by (simp add: sized_put_def sized_inv_def)
qed

lemma sized_del_ok:
  assumes "sized_inv pr szf t" and "path_free (insert k (dom (bare_entries t)))"
  shows "\<exists>t'. tree_del t k = Inr t' \<and> sized_inv pr szf t' \<and> bare_entries t' = (bare_entries t)(k := None)"
proof -
  from vt_inv_del [of pr t k] assms obtain t' where
    t': "tree_del t k = Inr t'" "vt_inv pr t'" "tree_entries t' = (tree_entries t)(k := None)"
    by (auto simp: sized_inv_def)
  then obtain sz y where y: "remove_node k (Root t) 0 = Some (sz, y)" "t' = t\<lparr>Root := y\<rparr>"
    by (auto simp: tree_del_def Delete_def split: if_splits option.splits)
  have "\<forall>m. y = Some m \<longrightarrow> every (size_ok szf) m" using remove_sizes [OF y(1)] assms(1) by (simp add: sized_inv_def)
  moreover have "bare_entries t' = (bare_entries t)(k := None)"
    using t'(3) by (auto simp: bare_entries_def)
  ultimately show ?thesis using t' y(2) by (simp add: sized_inv_def)
qed

lemma sized_commit_ok:
  assumes "sized_inv pr szf t"
  shows "sized_inv pr szf (tree_commit pr r t) \<and> bare_entries (tree_commit pr r t) = bare_entries t"
proof -
  have "every (size_ok szf) n" if "Root (tree_commit pr r t) = Some n" for n
    using that assms commit_sizes by (auto simp: tree_commit_def Commit_root sized_inv_def)
  with assms show ?thesis
    by (auto simp: sized_inv_def vt_inv_commit bare_entries_def tree_commit_entries)
qed

interpretation vs: partial_store "sized_inv pr szf" bare_entries path_free
  "\<lambda>e. case e of Some (Some v, h) \<Rightarrow> Inr v | _ \<Rightarrow> Inl Err" Get "sized_put szf" tree_del "tree_commit pr"
  for pr szf
proof
  show "Get t k = (case bare_entries t k of Some (Some v, h) \<Rightarrow> Inr v | _ \<Rightarrow> Inl Err)"
    if "sized_inv pr szf t" "path_free (insert k (dom (bare_entries t)))" for t k
    using that Get_ok [of t k]
    by (auto simp: sized_inv_def vt_inv_def found_def bare_entries_def bare_def split: option.splits prod.splits)
qed (auto simp: sized_put_ok sized_del_ok sized_commit_ok elim: path_free_mono)

lemma size_sum:
  assumes "sized_inv pr szf t"
  shows "GetSize t = (\<Sum>k \<in> dom (bare_entries t). szf k)"
proof (cases "Root t")
  case None
  then show ?thesis by (simp add: GetSize_def tree_entries_def)
next
  case (Some n)
  with assms have wf: "wf_node [] n" and sz: "every (size_ok szf) n"
    by (simp_all add: sized_inv_def vt_inv_def tree_wf_def)
  have "GetSize t = sum_list (map szf (map fst (leaves n)))"
    using Some sizes_leaves [OF sz] by (simp add: GetSize_def)
  also have "\<dots> = (\<Sum>k \<in> set (map fst (leaves n)). szf k)"
    by (rule sum_list_distinct_conv_sum_set [OF leaf_keys_distinct [OF wf]])
  finally show ?thesis using Some by (simp add: dom_tree_entries)
qed

text \<open>Claim C27.  While the size given for a key is always the same, \<^verbatim>\<open>GetSize\<close> is the sum of the sizes
  of the keys held, after any insertions, deletions and commits.\<close>
theorem vector_tree_size_exact:
  assumes "path_free (run_keys ops)"
  shows "\<exists>t. store_run (sized_put szf) tree_del (tree_commit pr) ops empty_tree = Inr t \<and>
    GetSize t = (\<Sum>k \<in> dom (map_run ops Map.empty). szf k)"
proof -
  have start: "sized_inv pr szf empty_tree" "bare_entries empty_tree = Map.empty"
    by (auto simp: sized_inv_def vt_inv_empty bare_entries_def tree_entries_empty) (simp add: empty_tree_def)
  then have "path_free (run_keys ops \<union> dom (bare_entries empty_tree))" using assms by simp
  from vs.run_ok [OF start(1) this] obtain t where
    t: "store_run (sized_put szf) tree_del (tree_commit pr) ops empty_tree = Inr t" "sized_inv pr szf t"
      "bare_entries t = map_run ops Map.empty" unfolding start(2) by blast
  with size_sum [OF t(2)] show ?thesis by auto
qed

theorem vector_tree_size_exact_witness:
  "let ops = [Put [1, 2] (Some [5], []), Put [1, 3] (Some [6], []), Put [1, 2] (Some [7], []), Del [1, 3]];
       szf = (\<lambda>k. if k = [1, 2] then 10 else 3)
   in path_free (run_keys ops) \<and>
      (\<exists>t. store_run (sized_put szf) tree_del (tree_commit toy_prover) ops empty_tree = Inr t \<and> GetSize t = 10)"
proof -
  let ?ops = "[Put [1, 2] (Some [5], []), Put [1, 3] (Some [6], []), Put [1, 2] (Some [7], []), Del [1, 3]]
    :: (bytes, bytes option \<times> bytes, bool) store_op list"
  let ?szf = "\<lambda>k :: bytes. if k = [1, 2] then 10 else 3 :: int"
  have pf: "path_free (run_keys ?ops)" by (rule same_length_path_free [of _ 2]) auto
  from vector_tree_size_exact [OF pf, of ?szf toy_prover] show ?thesis using pf unfolding Let_def by simp
qed

section \<open>The root commitment\<close>

lemma content_set:
  assumes "tree_wf t" "tree_wf t'" and "bare_entries t = bare_entries t'"
  shows "content ` set (leaves_of (Root t)) \<subseteq> content ` set (leaves_of (Root t'))"
proof
  fix x assume "x \<in> content ` set (leaves_of (Root t))"
  then obtain k e where e: "(k, e) \<in> set (leaves_of (Root t))" "x = content (k, e)" by auto
  then have "bare_entries t' k = Some (bare e)"
    using tree_member [OF assms(1)] assms(3) by (simp add: bare_entries_def flip: assms(3))
  then obtain e' where "tree_entries t' k = Some e'" "bare e' = bare e" by (auto simp: bare_entries_def)
  with tree_member [OF assms(2)] have "(k, e') \<in> set (leaves_of (Root t'))" "content (k, e') = x"
    using e(2) by (auto simp: content_def bare_def split: prod.splits)
  then show "x \<in> content ` set (leaves_of (Root t'))" by blast
qed

lemma commit_digest_root:
  assumes "vt_inv pr t" and "prover_total pr"
  shows "fst (Commit pr r t) = (case Root t of None \<Rightarrow> zero_cell | Some n \<Rightarrow> digest pr n)"
proof (cases "Root t")
  case (Some n)
  with assms commit_correct [OF assms(2), of r n] show ?thesis
    by (simp add: Commit_def vt_inv_def case_prod_beta)
qed (simp add: Commit_def)

lemma commit_same_content:
  assumes "vt_inv pr t" "vt_inv pr t'" "prover_total pr" and eq: "bare_entries t = bare_entries t'"
  shows "fst (Commit pr r t) = fst (Commit pr r' t')"
proof -
  have wf: "tree_wf t" "tree_wf t'" using assms(1,2) by (simp_all add: vt_inv_def)
  have cont: "content ` set (leaves_of (Root t)) = content ` set (leaves_of (Root t'))"
    using content_set [OF wf eq] content_set [OF wf(2,1) eq [symmetric]] by blast
  have "(case Root t of None \<Rightarrow> zero_cell | Some n \<Rightarrow> digest pr n) = (case Root t' of None \<Rightarrow> zero_cell | Some n \<Rightarrow> digest pr n)"
  proof (cases "Root t")
    case None
    with cont wf(2) show ?thesis
      by (cases "Root t'") (auto simp: tree_wf_def dest: leaves_nonempty)
  next
    case (Some n)
    with wf(1) cont have "leaves_of (Root t') \<noteq> []" by (auto simp: tree_wf_def dest: leaves_nonempty)
    then obtain n' where n': "Root t' = Some n'" by (cases "Root t'") auto
    with Some wf cont have "skeleton n = skeleton n'" by (intro skeleton_unique) (auto simp: tree_wf_def)
    with Some n' digest_skeleton [of pr n] digest_skeleton [of pr n'] show ?thesis by simp
  qed
  with commit_digest_root [OF assms(1,3)] commit_digest_root [OF assms(2,3)] show ?thesis by simp
qed

text \<open>Claim C7.  The root commitment is a function of the keys, values and hash targets held: two
  runs of insertions, deletions and commits that end with the same contents commit to the same bytes,
  whatever their order, their sizes and the caches they left, and whether the commitment is read from
  the caches or recalculated.\<close>
theorem root_commitment_canonical:
  assumes "path_free (run_keys ops)" and "path_free (run_keys ops')" and "prover_total pr"
    and "\<forall>k. map_option bare (map_run ops Map.empty k) = map_option bare (map_run ops' Map.empty k)"
    and "tree_run pr ops empty_tree = Inr t" and "tree_run pr ops' empty_tree = Inr t'"
  shows "fst (Commit pr r t) = fst (Commit pr r' t')"
proof -
  have t: "vt_inv pr t" "tree_entries t = map_run ops Map.empty"
    using tree_run_ok [OF assms(1), of pr] assms(5) by auto
  have t': "vt_inv pr t'" "tree_entries t' = map_run ops' Map.empty"
    using tree_run_ok [OF assms(2), of pr] assms(6) by auto
  have "bare_entries t = bare_entries t'" using assms(4) by (auto simp: bare_entries_def t(2) t'(2))
  with t(1) t'(1) assms(3) show ?thesis by (rule commit_same_content)
qed


theorem root_commitment_canonical_witness:
  "let ops = [Put [1, 2] (Some [5], [], 1), Put [1, 3] (Some [6], [], 1), Tidy False, Put [9, 9] (Some [1], [], 1),
         Del [9, 9]];
       ops' = [Put [1, 3] (Some [6], [], 4), Put [1, 2] (Some [0], [], 4), Put [1, 2] (Some [5], [], 2)]
   in path_free (run_keys ops) \<and> path_free (run_keys ops') \<and> prover_total toy_prover \<and>
      (\<exists>t t'. tree_run toy_prover ops empty_tree = Inr t \<and> tree_run toy_prover ops' empty_tree = Inr t' \<and>
        fst (Commit toy_prover False t) = fst (Commit toy_prover True t'))"
proof -
  let ?ops = "[Put [1, 2] (Some [5], [], 1), Put [1, 3] (Some [6], [], 1), Tidy False, Put [9, 9] (Some [1], [], 1),
    Del [9, 9]] :: tree_op list"
  let ?ops' = "[Put [1, 3] (Some [6], [], 4), Put [1, 2] (Some [0], [], 4), Put [1, 2] (Some [5], [], 2)] :: tree_op list"
  have pf: "path_free (run_keys ?ops)" "path_free (run_keys ?ops')"
    by (rule same_length_path_free [of _ 2]; auto)+
  have pr: "prover_total toy_prover" by (simp add: prover_total_def toy_prover_def)
  have same: "\<forall>k. map_option bare (map_run ?ops Map.empty k) = map_option bare (map_run ?ops' Map.empty k)"
    by (simp add: bare_def)
  obtain t t' where t: "tree_run toy_prover ?ops empty_tree = Inr t" "tree_run toy_prover ?ops' empty_tree = Inr t'"
    using tree_run_ok [OF pf(1)] tree_run_ok [OF pf(2)] by blast
  from root_commitment_canonical [OF pf pr same t] pf pr t show ?thesis unfolding Let_def by blast
qed

section \<open>Where the running totals go wrong\<close>

definition tree_of :: "tree_op list \<Rightarrow> VectorCommitmentTree" where
  "tree_of ops = (case tree_run toy_prover ops empty_tree of Inr t \<Rightarrow> t | Inl _ \<Rightarrow> empty_tree)"


end
