(* ===== verification/Vector_Proofs.thy ===== *)
theory Vector_Proofs
  imports Vector_Tree_Guarantees
begin

unbundle bit_operations_syntax

text \<open>
  Inclusion proofs over the vector commitment tree: the proof of one cell by a branch, the traversal
  proof of one or several keys, and its verification (\<^verbatim>\<open>types/tries/proof_tree.go\<close>, with the
  proof types of \<^verbatim>\<open>lazy_proof_tree.go\<close>).  Proving commits nodes on the way, so the tree is
  returned with its caches filled; \<^const>\<open>None\<close> is a panic.
\<close>

section \<open>One branch\<close>

text \<open>\<^verbatim>\<open>s[a:b]\<close> of a byte string; a bound beyond its end panics.\<close>

definition slice :: "bytes \<Rightarrow> int \<Rightarrow> int \<Rightarrow> bytes option" where
  "slice s a b = (if 0 \<le> a \<and> a \<le> b \<and> b \<le> int (length s) then Some (take (nat (b - a)) (drop (nat a) s)) else None)"

definition commit_children ::
  "prover \<Rightarrow> VectorCommitmentNode option list \<Rightarrow> (bytes \<times> VectorCommitmentNode) option list" where
  "commit_children pr cs = map (map_option (commit_node pr False)) cs"

definition cells_of :: "prover \<Rightarrow> (bytes \<times> VectorCommitmentNode) option list \<Rightarrow> bytes" where
  "cells_of pr rs =
     concat (map (\<lambda>r. case r of None \<Rightarrow> zero_cell | Some (out, n) \<Rightarrow> child_cell pr n out) rs)"

fun Branch_Verify :: "prover \<Rightarrow> VectorCommitmentNode \<Rightarrow> int \<Rightarrow> bytes \<Rightarrow> (bool \<times> VectorCommitmentNode) option" where
  "Branch_Verify pr (BranchNode pre cs c s count longest) index proof =
     (if c = [] then do {
        let rs = commit_children pr cs;
        let c' = CommitRaw pr (cells_of pr rs);
        data \<leftarrow> slice (cells_of pr rs) (64 * index) (64 * (index + 1));
        Some (VerifyRaw pr data c' (nat index) proof,
          BranchNode pre (map (map_option snd) rs) c' s count longest)
      } else do {
        child \<leftarrow> child_at cs index;
        let r = map_option (commit_node pr False) child;
        cs' \<leftarrow> set_child cs index (map_option snd r);
        Some (VerifyRaw pr (cells_of pr [r]) c (nat index) proof, BranchNode pre cs' c s count longest)
      })"
| "Branch_Verify pr (LeafNode k v h c s) index proof = None"

fun Branch_Prove :: "prover \<Rightarrow> VectorCommitmentNode \<Rightarrow> nat \<Rightarrow> bytes \<times> VectorCommitmentNode" where
  "Branch_Prove pr (BranchNode pre cs c s count longest) index =
     (let rs = commit_children pr cs
      in (ProveRaw pr (cells_of pr rs) index, BranchNode pre (map (map_option snd) rs) c s count longest))"
| "Branch_Prove pr (LeafNode k v h c s) index = ([], LeafNode k v h c s)"

definition GetPolynomial :: "prover \<Rightarrow> VectorCommitmentNode option list \<Rightarrow> bytes" where
  "GetPolynomial pr cs = cells_of pr (map (map_option (\<lambda>n. (Commitment n, n))) cs)"

section \<open>Traversal proofs\<close>

record TraversalSubProof =
  Commits :: "bytes list"
  Ys :: "bytes list"
  Paths :: "u64 list list"

record TraversalProof =
  Multiproof :: multiproof
  SubProofs :: "TraversalSubProof list"

type_synonym proof_parts = "bytes list \<times> bytes list \<times> bytes list \<times> int list list"

lemma commit_node_size: "size (snd (commit_node pr r n)) = size n"
proof (induction pr r n rule: commit_node.induct)
  case (2 pr r pre cs c s count longest)
  show ?case
  proof (cases "c = [] \<or> r")
    case True
    have "size_option size (map_option (snd \<circ> commit_node pr r) x) = size_option size x" if "x \<in> set cs" for x
      using 2 [OF True that] by (cases x) simp_all
    then have "size_list (size_option size) (map (map_option (snd \<circ> commit_node pr r)) cs) = size_list (size_option size) cs"
      by (simp add: size_list_conv_sum_list comp_def cong: map_cong)
    with True show ?thesis by (simp add: Let_def option.map_comp comp_def)
  qed simp
qed (simp add: Let_def)

lemma committed_child_size:
  assumes "commit_node pr False (BranchNode pre cs c s count longest) = (out, BranchNode pre' cs' c' s' count' longest')"
    and "child_at cs' i = Some child"
  shows "size_option size child < size_option size (Some (BranchNode pre cs c s count longest))"
proof -
  have "size (BranchNode pre' cs' c' s' count' longest') = size (BranchNode pre cs c s count longest)"
    using commit_node_size [of pr False "BranchNode pre cs c s count longest"] assms(1) by simp
  with child_at_size [OF assms(2)] show ?thesis by simp
qed

function (sequential) prove_node ::
  "prover \<Rightarrow> bytes \<Rightarrow> VectorCommitmentNode option \<Rightarrow> nat \<Rightarrow> (proof_parts \<times> VectorCommitmentNode option) option"
where
  "prove_node pr key None depth = Some (([], [], [], []), None)"
| "prove_node pr key (Some (LeafNode k v h c s)) depth =
     (let (commitment, n) = commit_node pr False (LeafNode k v h c s)
      in if k = key
         then Some (([], [commitment], [if h \<noteq> [] then h else (case v of None \<Rightarrow> [] | Some v \<Rightarrow> v)], []), Some n)
         else Some (([], [], [], []), Some n))"
| "prove_node pr key (Some (BranchNode pre cs c s count longest)) depth =
     (if prefix_mismatch key depth pre 0 \<noteq> None
      then Some (([], [], [], []), Some (BranchNode pre cs c s count longest))
      else
        (let finalNibble = getNextNibble key (depth + length pre * BranchBits)
         in case commit_node pr False (BranchNode pre cs c s count longest) of
              (commitment, LeafNode _ _ _ _ _) \<Rightarrow> None
            | (commitment, BranchNode pre' cs' c' s' count' longest') \<Rightarrow>
                (let poly = GetPolynomial pr cs'
                 in case slice poly (finalNibble * 64) ((finalNibble + 1) * 64) of
                      None \<Rightarrow> None
                    | Some y \<Rightarrow>
                        (case child_at cs' finalNibble of
                           None \<Rightarrow> None
                         | Some child \<Rightarrow> do {
                             ((pl, co, ys, pa), child') \<leftarrow> prove_node pr key child
                               (depth + length pre * BranchBits + BranchBits);
                             cs'' \<leftarrow> set_child cs' finalNibble child';
                             Some ((poly # pl, commitment # co, y # ys, (pre @ [finalNibble]) # pa),
                               Some (BranchNode pre' cs'' c' s' count' longest'))
                           }))))"
  by pat_completeness auto

termination
  by (relation "measure (\<lambda>(pr, key, n, depth). size_option size n)")
    (simp_all only: wf_measure in_measure split_conv, metis committed_child_size)

definition path_indices :: "int list list \<Rightarrow> u64 list list" where
  "path_indices ps = map (map word_of_int) ps"

text \<open>\<^verbatim>\<open>p[len(p)-1]\<close>.\<close>

definition last_index :: "u64 list \<Rightarrow> u64 option" where
  "last_index p = (if p = [] then None else Some (last p))"

definition all_but_last :: "'a list \<Rightarrow> 'a list option" where
  "all_but_last xs = (if xs = [] then None else Some (butlast xs))"

definition Prove :: "prover \<Rightarrow> bytes \<Rightarrow> VectorCommitmentTree \<Rightarrow> (TraversalProof option \<times> VectorCommitmentTree) option"
where
  "Prove pr key t =
     (if key = [] then Some (None, t)
      else do {
        ((polynomials, commits, ys, paths), root) \<leftarrow> prove_node pr key (Root t) 0;
        indices \<leftarrow> those (map last_index (path_indices paths));
        cs \<leftarrow> all_but_last commits;
        Some (Some \<lparr>Multiproof = ProveMultiple_raw pr cs polynomials indices,
            SubProofs = [\<lparr>Commits = commits, Ys = ys, Paths = path_indices paths\<rparr>]\<rparr>,
          t\<lparr>Root := root\<rparr>)
      })"

fun prove_keys :: "prover \<Rightarrow> bytes list \<Rightarrow> VectorCommitmentNode option \<Rightarrow>
    ((bytes list \<times> bytes list \<times> u64 list \<times> TraversalSubProof list) \<times> VectorCommitmentNode option) option" where
  "prove_keys pr [] root = Some (([], [], [], []), root)"
| "prove_keys pr (key # keys) root = do {
     ((polys, commits, ys, ps), root) \<leftarrow> prove_node pr key root 0;
     indices \<leftarrow> those (map last_index (path_indices ps));
     cs \<leftarrow> all_but_last commits;
     ((polys', cs', indices', sub), root) \<leftarrow> prove_keys pr keys root;
     Some ((polys @ polys', cs @ cs', indices @ indices',
       \<lparr>Commits = commits, Ys = ys, Paths = path_indices ps\<rparr> # sub), root)
   }"

definition ProveMultiple ::
  "prover \<Rightarrow> bytes list \<Rightarrow> VectorCommitmentTree \<Rightarrow> (TraversalProof option \<times> VectorCommitmentTree) option" where
  "ProveMultiple pr keys t =
     (if keys = [] \<or> [] \<in> set keys then Some (None, t)
      else do {
        ((polynomials, commitments, indices, subProofs), root) \<leftarrow> prove_keys pr keys (Root t);
        Some (Some \<lparr>Multiproof = ProveMultiple_raw pr commitments polynomials indices, SubProofs = subProofs\<rparr>,
          t\<lparr>Root := root\<rparr>)
      })"

section \<open>Verification\<close>

text \<open>The chain of commitments of one subproof, from the root down.\<close>

fun verify_chain :: "prover \<Rightarrow> bytes list \<Rightarrow> u64 list list \<Rightarrow> bytes list \<Rightarrow> bool option" where
  "verify_chain pr (c0 # c1 # cs) indices ys = do {
     out \<leftarrow> (if cs \<noteq> []
             then (case indices of
                     _ # i1 # _ \<Rightarrow> do {
                       p \<leftarrow> all_but_last i1;
                       Some (sha512 pr ([1] @ concat (map (\<lambda>x. u32_be (ucast x)) p) @ c1))
                     }
                   | _ \<Rightarrow> None)
             else Some c1);
     case ys of
       [] \<Rightarrow> None
     | y # ys' \<Rightarrow>
         if out \<noteq> y then Some False
         else (case indices of [] \<Rightarrow> None | _ # indices' \<Rightarrow> verify_chain pr (c1 # cs) indices' ys')
   }"
| "verify_chain pr _ indices ys = Some True"

definition subproof_shape :: "TraversalSubProof \<Rightarrow> bool" where
  "subproof_shape sp \<longleftrightarrow> Commits sp \<noteq> [] \<and> length (Paths sp) + 1 = length (Commits sp) \<and>
     length (Ys sp) = length (Commits sp)"

fun verify_subproofs :: "prover \<Rightarrow> TraversalSubProof list \<Rightarrow> (bytes list \<times> bytes list \<times> u64 list) option option" where
  "verify_subproofs pr [] = Some (Some ([], [], []))"
| "verify_subproofs pr (sp # sps) =
     (if length (Commits sp) \<le> 1 then verify_subproofs pr sps
      else do {
        indices \<leftarrow> those (map last_index (Paths sp));
        valid \<leftarrow> verify_chain pr (Commits sp) (Paths sp) (Ys sp);
        if \<not> valid then Some None
        else do {
          rest \<leftarrow> verify_subproofs pr sps;
          Some (map_option (\<lambda>(commits, ys, idx).
            (butlast (Commits sp) @ commits, butlast (Ys sp) @ ys, indices @ idx)) rest)
        }
      })"

definition VerifyTreeTraversalProof :: "prover \<Rightarrow> bytes \<Rightarrow> TraversalProof \<Rightarrow> bool option" where
  "VerifyTreeTraversalProof pr rootCommit proof =
     (if Multicommitment (Multiproof proof) = [] \<or> Proof (Multiproof proof) = [] then Some False
      else if \<not> list_all subproof_shape (SubProofs proof) then Some False
      else if \<not> list_all (\<lambda>sp. hd (Commits sp) = rootCommit) (SubProofs proof) then Some False
      else do {
        r \<leftarrow> verify_subproofs pr (SubProofs proof);
        case r of
          None \<Rightarrow> Some False
        | Some (commits, ys, indices) \<Rightarrow>
            Some (\<not> (1 < length commits \<and> \<not> VerifyMultiple_raw pr commits ys indices
              (Multicommitment (Multiproof proof)) (Proof (Multiproof proof))))
      })"

end
