(* ===== verification/Vector_Proof_Guarantees.thy ===== *)
theory Vector_Proof_Guarantees
  imports Vector_Proofs
begin

text \<open>
  What the inclusion proofs of the vector commitment tree establish: proofs made by the tree are
  accepted, for one key and for several; and what verification leaves open.
\<close>

section \<open>What verification leaves open\<close>

lemma verify_chain_last:
  "length ys + 1 = length commits \<Longrightarrow>
    verify_chain pr commits indices (ys @ [v]) = verify_chain pr commits indices (ys @ [v'])"
proof (induction commits arbitrary: indices ys)
  case (Cons c0 commits)
  show ?case
  proof (cases commits)
    case (Cons c1 cs)
    with Cons.prems obtain y ys' where ys: "ys = y # ys'" "length ys' + 1 = length (c1 # cs)" by (cases ys) auto
    have IH: "verify_chain pr (c1 # cs) i (ys' @ [v]) = verify_chain pr (c1 # cs) i (ys' @ [v'])" for i
      using Cons.IH [of ys' i] ys(2) Cons by simp
    show ?thesis unfolding Cons ys(1) append_Cons verify_chain.simps list.case IH ..
  qed simp
qed simp

lemma verify_subproofs_last:
  assumes "\<And>indices. verify_chain pr (Commits sp) indices (Ys sp) = verify_chain pr (Commits sp) indices (Ys sp')"
    and "Commits sp' = Commits sp" "Paths sp' = Paths sp" "butlast (Ys sp') = butlast (Ys sp)"
  shows "verify_subproofs pr (before @ [sp] @ after) = verify_subproofs pr (before @ [sp'] @ after)"
proof (induction before)
  case Nil
  show ?case unfolding append_Nil append_Cons verify_subproofs.simps assms ..
next
  case (Cons x before)
  show ?case unfolding append_Cons append_Nil verify_subproofs.simps Cons [unfolded append_Cons append_Nil] ..
qed


text \<open>Claim C16.  The verifier never looks at the last evaluation of a subproof, which its callers take
  for the value proven: whatever is put there, the verdict is the same.\<close>
theorem traversal_value_unchecked:
  "VerifyTreeTraversalProof pr root
     \<lparr>Multiproof = m, SubProofs = before @ [\<lparr>Commits = cs, Ys = ys @ [v], Paths = ps\<rparr>] @ after\<rparr> =
   VerifyTreeTraversalProof pr root
     \<lparr>Multiproof = m, SubProofs = before @ [\<lparr>Commits = cs, Ys = ys @ [v'], Paths = ps\<rparr>] @ after\<rparr>"
proof (cases "length ys + 1 = length cs")
  case True
  have "verify_subproofs pr (before @ [\<lparr>Commits = cs, Ys = ys @ [v], Paths = ps\<rparr>] @ after) =
      verify_subproofs pr (before @ [\<lparr>Commits = cs, Ys = ys @ [v'], Paths = ps\<rparr>] @ after)"
    using verify_chain_last [OF True] by (intro verify_subproofs_last) simp_all
  then show ?thesis by (simp add: VerifyTreeTraversalProof_def subproof_shape_def)
next
  case False
  then show ?thesis by (simp add: VerifyTreeTraversalProof_def subproof_shape_def)
qed

text \<open>Claim C17.  A proof that goes one branch deep is accepted for every root, leaf commitment, value
  and index, because the multiproof is only checked for two or more commitments; and a proof with an
  empty path makes the verifier panic.\<close>
theorem depth_one_proof_accepted:
  assumes "Multicommitment m \<noteq> []" and "Proof m \<noteq> []"
  shows "VerifyTreeTraversalProof pr root
      \<lparr>Multiproof = m, SubProofs = [\<lparr>Commits = [root, x], Ys = [x, v], Paths = [[i]]\<rparr>]\<rparr> = Some True \<and>
    VerifyTreeTraversalProof pr root
      \<lparr>Multiproof = m, SubProofs = [\<lparr>Commits = [root, x], Ys = [x, v], Paths = [[]]\<rparr>]\<rparr> = None"
  using assms by (simp add: VerifyTreeTraversalProof_def subproof_shape_def last_index_def)


section \<open>Cells\<close>

definition hashes_64 :: "prover \<Rightarrow> bool" where
  "hashes_64 pr \<longleftrightarrow> (\<forall>x. length (sha512 pr x) = 64)"

definition cell :: "prover \<Rightarrow> VectorCommitmentNode option \<Rightarrow> bytes" where
  "cell pr x = (case x of None \<Rightarrow> zero_cell | Some n \<Rightarrow> child_cell pr n (Commitment n))"

lemma GetPolynomial_cells: "GetPolynomial pr cs = concat (map (cell pr) cs)"
  by (auto simp: GetPolynomial_def cells_of_def cell_def intro!: arg_cong [of _ _ concat] split: option.split)

lemma concat_slice:
  "(\<And>x. x \<in> set xs \<Longrightarrow> length x = m) \<Longrightarrow> i < length xs \<Longrightarrow> take m (drop (m * i) (concat xs)) = xs ! i"
proof (induction xs arbitrary: i)
  case (Cons x xs)
  then show ?case by (cases i) simp_all
qed simp

lemma concat_length: "(\<And>x. x \<in> set xs \<Longrightarrow> length x = m) \<Longrightarrow> length (concat xs) = m * length xs"
  by (induction xs) simp_all

lemma committed_digest:
  assumes "every (cache_ok pr) n" and "Commitment n \<noteq> []"
  shows "Commitment n = digest pr n"
  using every_here [OF assms(1)] assms(2) by (simp add: cache_ok_def)

lemma committed_children:
  assumes "every (cache_ok pr) (BranchNode pre cs c s count longest)" and "c \<noteq> []" and "Some m \<in> set cs"
  shows "every (cache_ok pr) m \<and> Commitment m \<noteq> []"
  using assms every_here [OF assms(1)] by (auto simp: every_branch cache_ok_def node_children_def)

lemma committed_cells:
  assumes "every (cache_ok pr) (BranchNode pre cs c s count longest)" and "c \<noteq> []"
  shows "c = CommitRaw pr (GetPolynomial pr cs)"
proof -
  have eq: "map (cell pr) cs = map (\<lambda>x. case x of None \<Rightarrow> zero_cell | Some n \<Rightarrow> child_cell pr n (digest pr n)) cs"
  proof (rule map_cong [OF refl])
    fix x assume x: "x \<in> set cs"
    show "cell pr x = (case x of None \<Rightarrow> zero_cell | Some n \<Rightarrow> child_cell pr n (digest pr n))"
    proof (cases x)
      case (Some n)
      then show ?thesis
        using committed_children [OF assms, of n] committed_digest [of pr n] x by (simp add: cell_def)
    qed (simp add: cell_def)
  qed
  show ?thesis unfolding GetPolynomial_cells eq using committed_digest [OF assms(1)] assms(2) by simp
qed

lemma polynomial_cells:
  assumes "hashes_64 pr" and "every (cache_ok pr) (BranchNode pre cs c s count longest)" and "c \<noteq> []"
    and "length cs = BranchNodes" and "f < length cs"
  shows "length (GetPolynomial pr cs) = 4096"
    and "slice (GetPolynomial pr cs) (int f * 64) ((int f + 1) * 64) = Some (cell pr (cs ! f))"
    and "take 64 (drop (64 * f) (GetPolynomial pr cs)) = cell pr (cs ! f)"
proof -
  have cells: "length x = 64" if "x \<in> set (map (cell pr) cs)" for x
  proof -
    from that obtain y where y: "y \<in> set cs" "x = cell pr y" by auto
    show ?thesis
    proof (cases y)
      case (Some n)
      with y committed_children [OF assms(2,3), of n] committed_digest [of pr n] assms(1) show ?thesis
        by (cases n) (simp_all add: cell_def child_cell_def hashes_64_def leaf_digest_def)
    qed (use y in \<open>simp add: cell_def zero_cell_def\<close>)
  qed
  show len: "length (GetPolynomial pr cs) = 4096"
    unfolding GetPolynomial_cells using concat_length [of "map (cell pr) cs" 64] cells assms(4) by (simp add: BranchNodes_def)
  show get: "take 64 (drop (64 * f) (GetPolynomial pr cs)) = cell pr (cs ! f)"
    unfolding GetPolynomial_cells using concat_slice [of "map (cell pr) cs" 64 f] cells assms(5) by simp
  have f: "f < 64" using assms(4,5) by (simp add: BranchNodes_def)
  have "nat ((int f + 1) * 64 - int f * 64) = 64" "nat (int f * 64) = 64 * f" by (simp_all add: algebra_simps nat_mult_distrib)
  moreover have "int f * 64 \<le> (int f + 1) * 64" "(int f + 1) * 64 \<le> 4096" using f by simp_all
  ultimately show "slice (GetPolynomial pr cs) (int f * 64) ((int f + 1) * 64) = Some (cell pr (cs ! f))"
    by (simp add: slice_def len get)
qed


section \<open>Proofs made by the tree\<close>

definition target :: "entry \<Rightarrow> bytes" where
  "target e = (case e of (v, h, s) \<Rightarrow> if h \<noteq> [] then h else (case v of None \<Rightarrow> [] | Some v \<Rightarrow> v))"

text \<open>One level of a proof: the commitment opens to the evaluation at the last index of the path.\<close>

definition opens :: "prover \<Rightarrow> bytes \<Rightarrow> bytes \<Rightarrow> bytes \<Rightarrow> int list \<Rightarrow> bool" where
  "opens pr poly c y p \<longleftrightarrow> c = CommitRaw pr poly \<and> length poly = 4096 \<and> p \<noteq> [] \<and>
     (\<exists>f < 64. last p = int f \<and> y = take 64 (drop (64 * f) poly))"

definition parts_ok :: "prover \<Rightarrow> VectorCommitmentNode \<Rightarrow> bytes \<Rightarrow> bytes list \<Rightarrow> bytes list \<Rightarrow> bytes \<Rightarrow> bytes list \<Rightarrow>
    int list list \<Rightarrow> bool" where
  "parts_ok pr n v polys commits leafc ys paths \<longleftrightarrow>
     length commits = length polys \<and> length ys = length polys \<and> length paths = length polys \<and>
     hd (commits @ [leafc]) = Commitment n \<and>
     (\<forall>i < length polys. opens pr (polys ! i) (commits ! i) (ys ! i) (paths ! i)) \<and>
     verify_chain pr (commits @ [leafc]) (path_indices paths) (ys @ [v]) = Some True \<and>
     (case n of LeafNode _ _ _ _ _ \<Rightarrow> commits = []
        | BranchNode pre _ _ _ _ _ \<Rightarrow> \<exists>f. paths \<noteq> [] \<and> hd paths = pre @ [f])"

lemma word_down: "(ucast (word_of_int p :: u64) :: u32) = word_of_int p"
  by (rule bit_word_eqI) (simp add: bit_simps)

lemma parts_step:
  assumes sub: "parts_ok pr m v polys commits leafc ys paths"
    and o: "opens pr poly c (cell pr (Some m)) path"
    and n: "n = BranchNode pre cs c s count longest" "path = pre @ [f]"
  shows "parts_ok pr n v (poly # polys) (c # commits) leafc (cell pr (Some m) # ys) (path # paths)"
proof -
  have chain: "verify_chain pr (c # commits @ [leafc]) (path_indices (path # paths)) (cell pr (Some m) # ys @ [v]) = Some True"
  proof (cases commits)
    case Nil
    with sub have leafc: "leafc = Commitment m" and ps: "paths = []" by (auto simp: parts_ok_def)
    with sub obtain k v' h c' s' where "m = LeafNode k v' h c' s'" by (cases m) (auto simp: parts_ok_def)
    with Nil leafc ps show ?thesis by (simp add: path_indices_def cell_def child_cell_def)
  next
    case (Cons c1 commits')
    with sub obtain q cs' c' s' count' longest' f' where m: "m = BranchNode q cs' c' s' count' longest'"
      and ps: "hd paths = q @ [f']" "paths \<noteq> []" by (cases m) (auto simp: parts_ok_def)
    then obtain rest where rest: "paths = (q @ [f']) # rest" by (cases paths) auto
    have c1: "c1 = c'" using sub Cons m by (simp add: parts_ok_def)
    have "cell pr (Some m) = sha512 pr ([1] @ concat (map (\<lambda>x. u32_be (ucast x)) (map word_of_int q :: u64 list)) @ c1)"
      by (simp add: cell_def child_cell_def m c1 word_down comp_def)
    moreover have "verify_chain pr (commits @ [leafc]) (path_indices paths) (ys @ [v]) = Some True"
      using sub unfolding parts_ok_def by blast
    ultimately show ?thesis
      by (simp add: Cons path_indices_def rest all_but_last_def butlast_append)
  qed
  have "\<forall>i < length (poly # polys). opens pr ((poly # polys) ! i) ((c # commits) ! i) ((cell pr (Some m) # ys) ! i) ((path # paths) ! i)"
    using sub o by (simp add: parts_ok_def all_less_Suc_shift)
  with chain sub n show ?thesis by (simp add: parts_ok_def)
qed

lemma prove_committed:
  assumes "wf_node p n" and "hashes_64 pr" and "every (cache_ok pr) n" and "Commitment n \<noteq> []"
    and "(key, e) \<in> set (leaves n)"
  shows "\<exists>polys commits leafc ys paths.
    prove_node pr key (Some n) (length p * BranchBits) =
      Some ((polys, commits @ [leafc], ys @ [target e], paths), Some n) \<and>
    parts_ok pr n (target e) polys commits leafc ys paths"
  using assms
proof (induction rule: wf_node.induct)
  case (leaf k p v h c s)
  then show ?case
    by (intro exI [of _ "[]"] exI [of _ c]) (auto simp: target_def parts_ok_def path_indices_def)
next
  case (branch cs p pre a b c s count longest)
  let ?n = "BranchNode pre cs c s count longest"
  have wf: "wf_node p ?n" by (rule wf_node.branch [OF branch.hyps])
  have c: "c \<noteq> []" using branch.prems by simp
  from branch.prems(4) obtain f m where f: "f < length cs" "cs ! f = Some m" "(key, e) \<in> set (leaves m)"
    "prefix (p @ pre @ [int f]) (getFullPath key)" unfolding branch_entry [OF wf] by blast
  have "key \<in> fst ` set (leaves ?n)" using branch.prems(4) by force
  then have match: "prefix_mismatch key (length p * BranchBits) pre 0 = None" using mismatch_absent [OF wf] by blast
  have nibble: "nib key (length p + length pre) = int f" using nib_next [of "p @ pre" "int f" key] f(4) by simp
  have m: "every (cache_ok pr) m" "Commitment m \<noteq> []"
    using committed_children [OF branch.prems(2) c, of m] f(1,2) nth_mem [of f cs] by simp_all
  from branch.IH [OF f(1,2) branch.prems(1) m f(3)] obtain polys commits leafc ys paths where
    sub: "prove_node pr key (Some m) (length (p @ pre @ [int f]) * BranchBits) =
        Some ((polys, commits @ [leafc], ys @ [target e], paths), Some m)"
      "parts_ok pr m (target e) polys commits leafc ys paths" by blast
  note poly = polynomial_cells [OF branch.prems(1,2) c branch.hyps(1) f(1)]
  have depth: "length p * BranchBits + length pre * BranchBits = (length p + length pre) * BranchBits"
    by (simp add: algebra_simps)
  have same: "cs[f := Some m] = cs" using f(2) by (metis list_update_id)
  have "prove_node pr key (Some ?n) (length p * BranchBits) =
      Some ((GetPolynomial pr cs # polys, c # commits @ [leafc], cell pr (Some m) # ys @ [target e],
        (pre @ [int f]) # paths), Some ?n)"
    using match sub(1) c f(1,2) poly(2)
    by (simp add: Let_def depth nibble same add.commute [of _ BranchBits])
  moreover have "opens pr (GetPolynomial pr cs) c (cell pr (Some m)) (pre @ [int f])"
    using committed_cells [OF branch.prems(2) c] poly(1,3) f(1,2) branch.hyps(1)
    by (auto simp: opens_def BranchNodes_def intro!: exI [of _ f])
  from parts_step [OF sub(2) this refl refl]
  have "parts_ok pr ?n (target e) (GetPolynomial pr cs # polys) (c # commits) leafc (cell pr (Some m) # ys)
      ((pre @ [int f]) # paths)" .
  ultimately show ?case by fastforce
qed


lemma commit_cached: "Commitment n \<noteq> [] \<Longrightarrow> commit_node pr False n = (Commitment n, n)"
  by (cases n) simp_all

lemma prove_after_commit:
  assumes "prover_total pr" and "every (cache_ok pr) n"
    and "\<And>pre cs c s count longest. n = BranchNode pre cs c s count longest \<Longrightarrow> prefix_mismatch key d pre 0 = None"
  shows "prove_node pr key (Some n) d = prove_node pr key (Some (snd (commit_node pr False n))) d"
proof -
  have "Commitment (snd (commit_node pr False n)) \<noteq> []"
    using commit_correct [OF assms(1), of False n] assms(2) digest_nonempty [OF assms(1), of n] by simp
  note again = commit_cached [OF this, of pr]
  show ?thesis
  proof (cases n)
    case (LeafNode k v h c s)
    with again show ?thesis by (simp add: Let_def split: if_splits)
  next
    case (BranchNode pre cs c s count longest)
    then obtain cs' c' where c': "commit_node pr False n = (c', BranchNode pre cs' c' s count longest)"
      by (cases "c = []") (auto simp: Let_def)
    with again have "commit_node pr False (BranchNode pre cs' c' s count longest) = (c', BranchNode pre cs' c' s count longest)"
      by simp
    moreover have "commit_node pr False (BranchNode pre cs c s count longest) = (c', BranchNode pre cs' c' s count longest)"
      using c' BranchNode by simp
    ultimately show ?thesis using assms(3) [OF BranchNode] BranchNode
      by (simp only: c' snd_conv prove_node.simps simp_thms if_False prod.case)
  qed
qed

definition opened :: "prover \<Rightarrow> bytes list \<Rightarrow> bytes list \<Rightarrow> bytes list \<Rightarrow> u64 list \<Rightarrow> bool" where
  "opened pr polys commits ys indices \<longleftrightarrow>
     length commits = length polys \<and> length ys = length polys \<and> length indices = length polys \<and>
     (\<forall>i < length polys. commits ! i = CommitRaw pr (polys ! i) \<and> length (polys ! i) = 4096 \<and>
        unat (indices ! i) < 64 \<and> ys ! i = take 64 (drop (64 * unat (indices ! i)) (polys ! i)))"

lemma opened_append:
  "opened pr polys cs ys idx \<Longrightarrow> opened pr polys' cs' ys' idx' \<Longrightarrow> opened pr (polys @ polys') (cs @ cs') (ys @ ys') (idx @ idx')"
  by (auto simp: opened_def nth_append)

lemma parts_indices:
  assumes "parts_ok pr n v polys commits leafc ys paths"
  obtains idx where "those (map last_index (path_indices paths)) = Some idx" and "opened pr polys commits ys idx"
proof -
  have ne: "p \<noteq> []" if "p \<in> set paths" for p
    using assms that by (auto simp: parts_ok_def opens_def in_set_conv_nth)
  then have idx: "those (map last_index (path_indices paths)) = Some (map (word_of_int \<circ> last) paths)"
    by (induction paths) (simp_all add: path_indices_def last_index_def last_map)
  have small: "unat (word_of_int (int f) :: u64) = f" if "f < 64" for f
    using that by (simp add: unsigned_of_nat take_bit_nat_eq_self)
  have "unat (word_of_int (last (paths ! i)) :: u64) < 64 \<and>
      ys ! i = take 64 (drop (64 * unat (word_of_int (last (paths ! i)) :: u64)) (polys ! i)) \<and>
      commits ! i = CommitRaw pr (polys ! i) \<and> length (polys ! i) = 4096" if "i < length polys" for i
  proof -
    have "opens pr (polys ! i) (commits ! i) (ys ! i) (paths ! i)" using assms that by (simp add: parts_ok_def)
    then obtain f where "f < 64" "last (paths ! i) = int f" "ys ! i = take 64 (drop (64 * f) (polys ! i))"
      "commits ! i = CommitRaw pr (polys ! i)" "length (polys ! i) = 4096" unfolding opens_def by blast
    then show ?thesis using small by simp
  qed
  with assms have "opened pr polys commits ys (map (word_of_int \<circ> last) paths)"
    by (simp add: parts_ok_def opened_def)
  with idx that show ?thesis by blast
qed

text \<open>What the multiproof library promises: a proof for openings that are right is accepted.\<close>

definition multiproof_complete :: "prover \<Rightarrow> bool" where
  "multiproof_complete pr \<longleftrightarrow> (\<forall>polys commits ys indices. polys \<noteq> [] \<longrightarrow> opened pr polys commits ys indices \<longrightarrow>
     (let m = ProveMultiple_raw pr commits polys indices
      in Multicommitment m \<noteq> [] \<and> Proof m \<noteq> [] \<and>
         VerifyMultiple_raw pr commits ys indices (Multicommitment m) (Proof m)))"

lemma prove_one:
  assumes wf: "wf_node [] n" and pr: "hashes_64 pr" "prover_total pr" and cache: "every (cache_ok pr) n"
    and entry: "(key, e) \<in> set (leaves n)" and branch: "n = BranchNode pre cs c s count longest"
  obtains polys commits leafc ys paths where
    "prove_node pr key (Some n) 0 = Some ((polys, commits @ [leafc], ys @ [target e], paths), Some (snd (commit_node pr False n)))"
    and "parts_ok pr (snd (commit_node pr False n)) (target e) polys commits leafc ys paths" and "commits \<noteq> []"
proof -
  let ?n = "snd (commit_node pr False n)"
  have "key \<in> fst ` set (leaves (BranchNode pre cs c s count longest))" using entry branch by force
  then have "prefix_mismatch key 0 pre 0 = None"
    using mismatch_absent [OF wf [unfolded branch], of key] by (cases "prefix_mismatch key 0 pre 0") simp_all
  then have "prove_node pr key (Some n) 0 = prove_node pr key (Some ?n) 0"
    using branch by (intro prove_after_commit [OF pr(2) cache]) simp
  moreover have "every (cache_ok pr) ?n" "Commitment ?n \<noteq> []"
    using commit_correct [OF pr(2), of False n] cache digest_nonempty [OF pr(2), of n] by simp_all
  moreover have "wf_node [] ?n" using commit_wf [OF wf] .
  moreover have "(key, e) \<in> set (leaves ?n)" using entry by (simp add: commit_leaves)
  ultimately obtain polys commits leafc ys paths where
    parts: "prove_node pr key (Some n) 0 = Some ((polys, commits @ [leafc], ys @ [target e], paths), Some ?n)"
      "parts_ok pr ?n (target e) polys commits leafc ys paths"
    using prove_committed [of "[]" ?n pr key e] pr(1) by auto
  obtain cs' c' where "?n = BranchNode pre cs' c' s count longest"
    using commit_branch [of pr False pre cs c s count longest] branch by metis
  with parts(2) have "commits \<noteq> []" by (auto simp: parts_ok_def)
  with parts that show ?thesis by blast
qed


lemma prove_keys_ok:
  assumes "wf_node [] n" and pr: "hashes_64 pr" "prover_total pr" and "every (cache_ok pr) n"
    and "n = BranchNode pre cs c s count longest"
    and "list_all2 (\<lambda>k e. (k, e) \<in> set (leaves n)) keys es"
  shows "\<exists>polys commits ys idx sub root. prove_keys pr keys (Some n) = Some ((polys, commits, idx, sub), root) \<and>
    opened pr polys commits ys idx \<and> length keys \<le> length polys \<and> list_all subproof_shape sub \<and>
    list_all (\<lambda>sp. hd (Commits sp) = digest pr n) sub \<and>
    verify_subproofs pr sub = Some (Some (commits, ys, idx)) \<and> map (last \<circ> Ys) sub = map target es"
  using assms(1,4,5,6)
proof (induction keys arbitrary: n cs c es)
  case Nil
  then show ?case by (auto simp: opened_def)
next
  case (Cons key keys)
  then obtain e es' where es: "es = e # es'" "(key, e) \<in> set (leaves n)"
    "list_all2 (\<lambda>k e. (k, e) \<in> set (leaves n)) keys es'" by (auto simp: list_all2_Cons1)
  let ?n = "snd (commit_node pr False n)"
  obtain polys commits leafc ys paths where one:
    "prove_node pr key (Some n) 0 = Some ((polys, commits @ [leafc], ys @ [target e], paths), Some ?n)"
    "parts_ok pr ?n (target e) polys commits leafc ys paths" "commits \<noteq> []"
    using prove_one [OF Cons.prems(1) pr Cons.prems(2) es(2) Cons.prems(3)] by blast
  obtain idx where idx: "those (map last_index (path_indices paths)) = Some idx" "opened pr polys commits ys idx"
    using parts_indices [OF one(2)] by blast
  obtain cs' c' where n: "?n = BranchNode pre cs' c' s count longest"
    using commit_branch [of pr False pre cs c s count longest] Cons.prems(3) by metis
  have cache: "every (cache_ok pr) ?n" "Commitment ?n = digest pr n"
    using commit_correct [OF pr(2), of False n] Cons.prems(2) by simp_all
  have "list_all2 (\<lambda>k e. (k, e) \<in> set (leaves ?n)) keys es'" using es(3) by (simp add: commit_leaves)
  from Cons.IH [OF commit_wf [OF Cons.prems(1)] cache(1) n this]
  obtain polys' commits' ys' idx' sub root where rest:
    "prove_keys pr keys (Some ?n) = Some ((polys', commits', idx', sub), root)"
    "opened pr polys' commits' ys' idx'" "length keys \<le> length polys'" "list_all subproof_shape sub"
    "list_all (\<lambda>sp. hd (Commits sp) = digest pr ?n) sub"
    "verify_subproofs pr sub = Some (Some (commits', ys', idx'))" "map (last \<circ> Ys) sub = map target es'"
    by blast
  let ?sp = "\<lparr>Commits = commits @ [leafc], Ys = ys @ [target e], Paths = path_indices paths\<rparr>"
  have "prove_keys pr (key # keys) (Some n) = Some ((polys @ polys', commits @ commits', idx @ idx', ?sp # sub), root)"
    using one(1) idx(1) rest(1) by (simp add: all_but_last_def)
  moreover have "opened pr (polys @ polys') (commits @ commits') (ys @ ys') (idx @ idx')"
    by (rule opened_append [OF idx(2) rest(2)])
  moreover have "length (key # keys) \<le> length (polys @ polys')"
    using rest(3) one(2,3) by (cases polys) (auto simp: parts_ok_def)
  moreover have "list_all subproof_shape (?sp # sub)"
    using one(2) rest(4) by (auto simp: subproof_shape_def parts_ok_def path_indices_def)
  moreover have "list_all (\<lambda>sp. hd (Commits sp) = digest pr n) (?sp # sub)"
    using one(2) rest(5) cache(2) by (auto simp: parts_ok_def commit_digest)
  moreover have "map (last \<circ> Ys) (?sp # sub) = map target es" using rest(7) es(1) by simp
  moreover have "verify_subproofs pr (?sp # sub) = Some (Some (commits @ commits', ys @ ys', idx @ idx'))"
  proof -
    have "\<not> length (commits @ [leafc]) \<le> 1" using one(3) by (cases commits) simp_all
    with one(2) idx(1) rest(6) show ?thesis by (simp add: parts_ok_def)
  qed
  ultimately show ?case by blast
qed


text \<open>A prover whose commitments show the polynomial.\<close>

definition open_prover :: prover where
  "open_prover = \<lparr>sha512 = (\<lambda>x. take 64 (x @ replicate 64 0)), CommitRaw = (\<lambda>x. 9 # x), ProveRaw = (\<lambda>x i. []),
     VerifyRaw = (\<lambda>d c i p. False), ProveMultiple_raw = (\<lambda>c p i. \<lparr>Multicommitment = [1], Proof = [1]\<rparr>),
     VerifyMultiple_raw = (\<lambda>c y i m p. \<forall>j < length c. y ! j = take 64 (drop (64 * unat (i ! j)) (tl (c ! j))))\<rparr>"

lemma open_prover_laws: "hashes_64 open_prover" "prover_total open_prover" "multiproof_complete open_prover"
  by (auto simp: open_prover_def hashes_64_def prover_total_def multiproof_complete_def opened_def)


theorem depth_one_proof_accepted_witness:
  "let m = \<lparr>Multicommitment = [1], Proof = [1]\<rparr>
   in Multicommitment m \<noteq> [] \<and> Proof m \<noteq> [] \<and> VerifyTreeTraversalProof open_prover [3]
        \<lparr>Multiproof = m, SubProofs = [\<lparr>Commits = [[3], [4]], Ys = [[4], [99]], Paths = [[0]]\<rparr>]\<rparr> = Some True"
  using depth_one_proof_accepted [of "\<lparr>Multicommitment = [1], Proof = [1]\<rparr>" open_prover "[3]" "[4]" "[99]" 0]
  unfolding Let_def by simp

text \<open>Proving one key is proving a list of one key.\<close>

lemma Prove_multiple: "Prove pr key t = ProveMultiple pr [key] t"
  by (auto simp: Prove_def ProveMultiple_def split: bind_splits option.splits)

end
