(* ===== verification/Vector_Codec.thy ===== *)
theory Vector_Codec
  imports Vector_Proof_Guarantees
begin

text \<open>
  Serialisation of the vector commitment tree (\<^verbatim>\<open>SerializeNonLazyTree\<close> and its inverse in
  \<^verbatim>\<open>types/tries/proof_tree.go\<close>, with the helpers of \<^verbatim>\<open>lazy_proof_tree.go\<close>) and of
  traversal proofs.  Writing to a buffer never fails.  Reading fails with \<^const>\<open>None\<close>; the loop
  that reads nodes is a partial function whose outer \<^const>\<open>None\<close> would be a loop without end.
\<close>

section \<open>Fields\<close>

definition serializeBytes :: "bytes \<Rightarrow> bytes" where
  "serializeBytes data = u64_be (of_nat (length data)) @ data"

text \<open>\<^verbatim>\<open>io.ReadFull\<close>: all the bytes or an error.\<close>

definition read_full :: "nat \<Rightarrow> bytes \<Rightarrow> (bytes \<times> bytes) option" where
  "read_full n buf = (if length buf < n then None else Some (take n buf, drop n buf))"

definition deserializeBytes :: "bytes \<Rightarrow> (bytes \<times> bytes) option" where
  "deserializeBytes buf = do {
     (n, buf) \<leftarrow> be_u64 buf;
     if 0 < n then (if 1073741824 < n then None else read_full (unat n) buf) else Some ([], buf)
   }"

definition serializeIntSlice :: "int list \<Rightarrow> bytes" where
  "serializeIntSlice ints = u32_be (of_nat (length ints)) @ concat (map (\<lambda>v. u32_be (word_of_int v)) ints)"

definition r_int32 :: "bytes \<Rightarrow> (int \<times> bytes) option" where
  "r_int32 buf = do { (v, buf) \<leftarrow> be_u32 buf; Some (sint v, buf) }"

definition r_int64 :: "bytes \<Rightarrow> (int \<times> bytes) option" where
  "r_int64 buf = do { (v, buf) \<leftarrow> be_u64 buf; Some (sint v, buf) }"

definition deserializeIntSlice :: "bytes \<Rightarrow> (int list \<times> bytes) option" where
  "deserializeIntSlice = r_list r_int32"

text \<open>\<^verbatim>\<open>big.Int.Bytes\<close>, the magnitude without leading zeros, and \<^verbatim>\<open>SetBytes\<close>.\<close>

fun nat_bytes :: "nat \<Rightarrow> bytes" where
  "nat_bytes n = (if n = 0 then [] else nat_bytes (n div 256) @ [of_nat (n mod 256)])"

declare nat_bytes.simps [simp del]

definition bytes_nat :: "bytes \<Rightarrow> nat" where
  "bytes_nat bs = foldl (\<lambda>a b. a * 256 + unat b) 0 bs"

definition serializeBigInt :: "int \<Rightarrow> bytes" where
  "serializeBigInt n = serializeBytes (nat_bytes (nat \<bar>n\<bar>))"

definition deserializeBigInt :: "bytes \<Rightarrow> (int \<times> bytes) option" where
  "deserializeBigInt buf = do { (bs, buf) \<leftarrow> deserializeBytes buf; Some (int (bytes_nat bs), buf) }"

section \<open>Nodes\<close>

fun SerializeNonLazyLeafNode :: "VectorCommitmentNode \<Rightarrow> bytes" where
  "SerializeNonLazyLeafNode (LeafNode k v h c s) =
     serializeBytes k @ serializeBytes (case v of None \<Rightarrow> [] | Some v \<Rightarrow> v) @ serializeBytes h @
     serializeBytes c @ serializeBigInt s"
| "SerializeNonLazyLeafNode (BranchNode pre cs c s count longest) = []"

function serializeNonLazyNode :: "VectorCommitmentNode option \<Rightarrow> bytes" where
  "serializeNonLazyNode None = [TypeNil]"
| "serializeNonLazyNode (Some (LeafNode k v h c s)) = TypeLeaf # SerializeNonLazyLeafNode (LeafNode k v h c s)"
| "serializeNonLazyNode (Some (BranchNode pre cs c s count longest)) =
     TypeBranch # serializeIntSlice pre @ concat (map serializeNonLazyNode cs) @ serializeBytes c @
     serializeBigInt s @ u64_be (word_of_int count) @ u32_be (word_of_int longest)"
  by pat_completeness auto
termination
proof (relation "measure (size_option size)")
  fix cs :: "VectorCommitmentNode option list" and x pre c s count longest
  assume "x \<in> set cs"
  then have "size_option size x \<le> size_list (size_option size) cs" by (intro size_list_estimation') auto
  then show "(x, Some (BranchNode pre cs c s count longest)) \<in> measure (size_option size)" by simp
qed simp

definition SerializeNonLazyTree :: "VectorCommitmentTree \<Rightarrow> bytes" where
  "SerializeNonLazyTree t = serializeNonLazyNode (Root t)"

definition DeserializeNonLazyLeafNode :: "bytes \<Rightarrow> (VectorCommitmentNode \<times> bytes) option" where
  "DeserializeNonLazyLeafNode buf = do {
     (k, buf) \<leftarrow> deserializeBytes buf;
     (v, buf) \<leftarrow> deserializeBytes buf;
     (h, buf) \<leftarrow> deserializeBytes buf;
     (c, buf) \<leftarrow> deserializeBytes buf;
     (s, buf) \<leftarrow> deserializeBigInt buf;
     Some (LeafNode k (Some v) h c s, buf)
   }"

text \<open>What a branch has after its children.\<close>

definition branch_tail :: "bytes \<Rightarrow> ((bytes \<times> int \<times> int \<times> int) \<times> bytes) option" where
  "branch_tail buf = do {
     (c, buf) \<leftarrow> deserializeBytes buf;
     (s, buf) \<leftarrow> deserializeBigInt buf;
     (leafCount, buf) \<leftarrow> r_int64 buf;
     (longestBranch, buf) \<leftarrow> r_int32 buf;
     Some ((c, s, leafCount, longestBranch), buf)
   }"

text \<open>The nodes of the loop over the children: \<open>deserialize_nodes n buf\<close> reads \<open>n\<close> of them.\<close>

partial_function (option) deserialize_nodes ::
  "nat \<Rightarrow> bytes \<Rightarrow> (VectorCommitmentNode option list \<times> bytes) option option" where
  "deserialize_nodes n buf =
     (if n = 0 then Some (Some ([], buf))
      else case buf of
        [] \<Rightarrow> Some None
      | nodeType # buf \<Rightarrow>
          if nodeType = TypeNil then do {
            r \<leftarrow> deserialize_nodes (n - 1) buf;
            Some (map_option (\<lambda>(xs, buf). (None # xs, buf)) r)
          } else if nodeType = TypeLeaf then (
            case DeserializeNonLazyLeafNode buf of
              None \<Rightarrow> Some None
            | Some (leaf, buf) \<Rightarrow> do {
                r \<leftarrow> deserialize_nodes (n - 1) buf;
                Some (map_option (\<lambda>(xs, buf). (Some leaf # xs, buf)) r)
              })
          else if nodeType = TypeBranch then (
            case deserializeIntSlice buf of
              None \<Rightarrow> Some None
            | Some (pre, buf) \<Rightarrow> do {
                children \<leftarrow> deserialize_nodes BranchNodes buf;
                case children of
                  None \<Rightarrow> Some None
                | Some (cs, buf) \<Rightarrow> (
                    case branch_tail buf of
                      None \<Rightarrow> Some None
                    | Some ((c, s, leafCount, longestBranch), buf) \<Rightarrow> do {
                        r \<leftarrow> deserialize_nodes (n - 1) buf;
                        Some (map_option
                          (\<lambda>(xs, buf). (Some (BranchNode pre cs c s leafCount longestBranch) # xs, buf)) r)
                      })
              })
          else Some None)"

declare deserialize_nodes.simps [code]

definition DeserializeNonLazyTree :: "bytes \<Rightarrow> VectorCommitmentTree option option" where
  "DeserializeNonLazyTree data = do {
     r \<leftarrow> deserialize_nodes 1 data;
     Some (map_option (\<lambda>(xs, buf). \<lparr>Root = hd xs\<rparr>) r)
   }"

section \<open>Traversal proofs\<close>

definition TraversalSubProof_ToBytes :: "TraversalSubProof \<Rightarrow> fault + bytes" where
  "TraversalSubProof_ToBytes sp =
     writes [w_list w_bytes (Commits sp), w_list w_bytes (Ys sp), w_list (w_list w_u64) (Paths sp)]"

definition TraversalProof_ToBytes :: "(multiproof \<Rightarrow> fault + bytes) \<Rightarrow> TraversalProof \<Rightarrow> fault + bytes" where
  "TraversalProof_ToBytes mp_enc t =
     (case mp_enc (Multiproof t) of
        Inl e \<Rightarrow> Inl e
      | Inr b \<Rightarrow> writes [w_bytes b, w_list TraversalSubProof_ToBytes (SubProofs t)])"

definition TraversalSubProof_FromBytes :: "bytes \<Rightarrow> (TraversalSubProof \<times> bytes) option" where
  "TraversalSubProof_FromBytes buf = do {
     (commits, buf) \<leftarrow> r_list r_bytes buf;
     (ys, buf) \<leftarrow> r_list r_bytes buf;
     (paths, buf) \<leftarrow> r_list (r_list be_u64) buf;
     Some (\<lparr>Commits = commits, Ys = ys, Paths = paths\<rparr>, buf)
   }"

definition TraversalProof_FromBytes :: "(bytes \<Rightarrow> multiproof option) \<Rightarrow> bytes \<Rightarrow> TraversalProof option" where
  "TraversalProof_FromBytes mp_dec proofBytes = do {
     (b, buf) \<leftarrow> r_bytes proofBytes;
     m \<leftarrow> mp_dec b;
     (sps, buf) \<leftarrow> r_list TraversalSubProof_FromBytes buf;
     if sps = [] then None
     else if list_all (\<lambda>sp. Ys sp = []) sps then None
     else Some \<lparr>Multiproof = m, SubProofs = sps\<rparr>
   }"


section \<open>Deserialisation ends\<close>

named_theorems shrink \<open>a reader leaves no more than it was given\<close>

lemma shrink_u [shrink]: "be_u32 buf = Some (v, buf') \<Longrightarrow> length buf' \<le> length buf"
  "be_u64 buf = Some (n, buf') \<Longrightarrow> length buf' \<le> length buf"
  by (cases buf rule: be_u32.cases, auto) (cases buf rule: be_u64.cases, auto)

lemma shrink_int [shrink]: "r_int32 buf = Some (v, buf') \<Longrightarrow> length buf' \<le> length buf"
  "r_int64 buf = Some (v, buf') \<Longrightarrow> length buf' \<le> length buf"
  by (auto simp: r_int32_def r_int64_def split: bind_splits dest: shrink_u)

lemma shrink_bytes [shrink]: "deserializeBytes buf = Some (x, buf') \<Longrightarrow> length buf' \<le> length buf"
  by (auto simp: deserializeBytes_def read_full_def split: bind_splits if_splits dest!: shrink_u)

lemma shrink_bigint [shrink]: "deserializeBigInt buf = Some (x, buf') \<Longrightarrow> length buf' \<le> length buf"
  by (auto simp: deserializeBigInt_def split: bind_splits dest: shrink_bytes)

lemma shrink_repeat:
  assumes "\<And>buf x buf'. r buf = Some (x, buf') \<Longrightarrow> length buf' \<le> length buf"
  shows "r_repeat r n buf = Some (xs, buf') \<Longrightarrow> length buf' \<le> length buf"
proof (induction n arbitrary: buf xs)
  case (Suc n)
  then obtain x b xs' where "r buf = Some (x, b)" "r_repeat r n b = Some (xs', buf')"
    by (auto split: bind_splits)
  with Suc.IH assms show ?case by fastforce
qed simp

lemma shrink_ints [shrink]: "deserializeIntSlice buf = Some (xs, buf') \<Longrightarrow> length buf' \<le> length buf"
  unfolding deserializeIntSlice_def r_list_def
  by (auto split: bind_splits dest!: shrink_u(1) shrink_repeat [rotated] intro: shrink_int)

lemma shrink_leaf [shrink]: "DeserializeNonLazyLeafNode buf = Some (n, buf') \<Longrightarrow> length buf' \<le> length buf"
  unfolding DeserializeNonLazyLeafNode_def
  by (auto split: bind_splits dest!: shrink_bytes shrink_bigint)

lemma shrink_tail [shrink]: "branch_tail buf = Some (x, buf') \<Longrightarrow> length buf' \<le> length buf"
  unfolding branch_tail_def
  by (auto split: bind_splits dest!: shrink_bytes shrink_bigint shrink_int)

lemma des_zero: "deserialize_nodes 0 buf = Some (Some ([], buf))"
  by (simp add: deserialize_nodes.simps)

lemma des_empty: "deserialize_nodes (Suc n) [] = Some None"
  by (simp add: deserialize_nodes.simps)

lemma des_nil:
  "deserialize_nodes (Suc n) (TypeNil # buf) = do {
     r \<leftarrow> deserialize_nodes n buf;
     Some (map_option (\<lambda>(xs, buf). (None # xs, buf)) r)
   }"
  by (subst deserialize_nodes.simps) simp

lemma des_leaf:
  "deserialize_nodes (Suc n) (TypeLeaf # buf) =
     (case DeserializeNonLazyLeafNode buf of
        None \<Rightarrow> Some None
      | Some (leaf, buf) \<Rightarrow> do {
          r \<leftarrow> deserialize_nodes n buf;
          Some (map_option (\<lambda>(xs, buf). (Some leaf # xs, buf)) r)
        })"
  by (subst deserialize_nodes.simps, unfold diff_Suc_1) (simp add: TypeNil_def TypeLeaf_def)

lemma des_branch:
  "deserialize_nodes (Suc n) (TypeBranch # buf) =
     (case deserializeIntSlice buf of
        None \<Rightarrow> Some None
      | Some (pre, buf) \<Rightarrow> do {
          children \<leftarrow> deserialize_nodes BranchNodes buf;
          case children of
            None \<Rightarrow> Some None
          | Some (cs, buf) \<Rightarrow> (
              case branch_tail buf of
                None \<Rightarrow> Some None
              | Some ((c, s, leafCount, longestBranch), buf) \<Rightarrow> do {
                  r \<leftarrow> deserialize_nodes n buf;
                  Some (map_option
                    (\<lambda>(xs, buf). (Some (BranchNode pre cs c s leafCount longestBranch) # xs, buf)) r)
                })
        })"
  by (subst deserialize_nodes.simps, unfold diff_Suc_1) (simp add: TypeNil_def TypeLeaf_def TypeBranch_def)

lemma des_other:
  "t \<noteq> TypeNil \<Longrightarrow> t \<noteq> TypeLeaf \<Longrightarrow> t \<noteq> TypeBranch \<Longrightarrow> deserialize_nodes (Suc n) (t # buf) = Some None"
  by (subst deserialize_nodes.simps) simp

text \<open>The loop returns, with a node for every byte it was asked for or an error.\<close>

definition des_ok :: "nat \<Rightarrow> bytes \<Rightarrow> bool" where
  "des_ok n buf \<longleftrightarrow> (\<exists>r. deserialize_nodes n buf = Some r \<and>
     (\<forall>xs buf'. r = Some (xs, buf') \<longrightarrow> length xs = n \<and> length buf' + n \<le> length buf))"

lemma des_okE:
  assumes "des_ok n buf"
  obtains "deserialize_nodes n buf = Some None"
  | xs buf' where "deserialize_nodes n buf = Some (Some (xs, buf'))" "length xs = n" "length buf' + n \<le> length buf"
proof -
  from assms obtain r where r: "deserialize_nodes n buf = Some r"
    "\<forall>xs buf'. r = Some (xs, buf') \<longrightarrow> length xs = n \<and> length buf' + n \<le> length buf" unfolding des_ok_def by blast
  show ?thesis
  proof (cases r)
    case None
    with r(1) that(1) show ?thesis by simp
  next
    case (Some y)
    with r that(2) show ?thesis by (cases y) auto
  qed
qed

lemma des_ok_None: "deserialize_nodes n buf = Some None \<Longrightarrow> des_ok n buf"
  by (simp add: des_ok_def)

lemma des_ok_next:
  assumes "des_ok n b" and "length b < length buf"
    and "deserialize_nodes (Suc n) buf = do { r \<leftarrow> deserialize_nodes n b; Some (map_option (\<lambda>(xs, buf). (x # xs, buf)) r) }"
  shows "des_ok (Suc n) buf"
  using assms(1)
proof (cases rule: des_okE)
  case 1
  with assms(3) show ?thesis by (intro des_ok_None) simp
next
  case (2 xs b')
  with assms(2,3) show ?thesis by (simp add: des_ok_def)
qed

lemma deserialize_returns: "des_ok n buf"
proof (induction "length buf" arbitrary: n buf rule: less_induct)
  case less
  show ?case
  proof (cases n)
    case 0
    then show ?thesis by (simp add: des_ok_def des_zero)
  next
    case (Suc k)
    show ?thesis
    proof (cases buf)
      case Nil
      with Suc show ?thesis by (intro des_ok_None) (simp add: des_empty)
    next
      case (Cons t b)
      have rec: "des_ok m b'" if "length b' \<le> length b" for m b' using less [of b' m] that Cons by simp
      consider "t = TypeNil" | "t = TypeLeaf" | "t = TypeBranch" | "t \<noteq> TypeNil" "t \<noteq> TypeLeaf" "t \<noteq> TypeBranch"
        by blast
      then show ?thesis
      proof cases
        case 1
        with rec [of b k] Cons Suc show ?thesis by (auto intro!: des_ok_next [of k b] simp: des_nil)
      next
        case 2
        show ?thesis
        proof (cases "DeserializeNonLazyLeafNode b")
          case None
          with 2 Cons Suc show ?thesis by (intro des_ok_None) (simp add: des_leaf)
        next
          case (Some y)
          obtain leaf b' where y: "y = (leaf, b')" by (cases y)
          with Some shrink_leaf have "length b' \<le> length b" by blast
          with rec [of b' k] 2 Some y Cons Suc show ?thesis by (auto intro!: des_ok_next [of k b'] simp: des_leaf)
        qed
      next
        case 3
        show ?thesis
        proof (cases "deserializeIntSlice b")
          case None
          with 3 Cons Suc show ?thesis by (intro des_ok_None) (simp add: des_branch)
        next
          case (Some y)
          obtain pre b' where y: "y = (pre, b')" by (cases y)
          with Some shrink_ints have b': "length b' \<le> length b" by blast
          from rec [OF b', of BranchNodes] show ?thesis
          proof (cases rule: des_okE)
            case 1
            with 3 Some y Cons Suc show ?thesis by (intro des_ok_None) (simp add: des_branch)
          next
            case (2 cs b2)
            show ?thesis
            proof (cases "branch_tail b2")
              case None
              with 3 Some y 2 Cons Suc show ?thesis by (intro des_ok_None) (simp add: des_branch)
            next
              case tl: (Some z)
              obtain c s lc lb b3 where z: "z = ((c, s, lc, lb), b3)" by (cases z) auto
              with tl shrink_tail 2(3) b' have "length b3 \<le> length b" by fastforce
              with rec [of b3 k] 3 Some y 2 tl z Cons Suc show ?thesis
                by (auto intro!: des_ok_next [of k b3] simp: des_branch)
            qed
          qed
        qed
      next
        case 4
        with Cons Suc show ?thesis by (intro des_ok_None) (simp add: des_other)
      qed
    qed
  qed
qed


section \<open>Reading back a tree\<close>

lemma bytes_nat_bytes: "bytes_nat (nat_bytes n) = n"
proof (induction n rule: nat_bytes.induct)
  case (1 n)
  show ?case
  proof (cases "n = 0")
    case True
    then show ?thesis by (simp add: nat_bytes.simps [of 0] bytes_nat_def)
  next
    case False
    have "unat (of_nat (n mod 256) :: u8) = n mod 256" by (simp add: unsigned_of_nat take_bit_nat_eq_self)
    with 1 False show ?thesis by (simp add: nat_bytes.simps [of n] bytes_nat_def)
  qed
qed

lemma read_bytes [codec_simps]:
  assumes "length d \<le> 1073741824"
  shows "deserializeBytes (serializeBytes d @ buf) = Some (d, buf)"
proof -
  have "unat (of_nat (length d) :: u64) = length d" using assms by (simp add: unsigned_of_nat take_bit_nat_eq_self)
  moreover from this have "(0 < (of_nat (length d) :: u64)) = (d \<noteq> [])" "\<not> 1073741824 < (of_nat (length d) :: u64)"
    using assms by (auto simp: word_less_nat_alt)
  ultimately show ?thesis by (simp add: deserializeBytes_def serializeBytes_def read_full_def)
qed

lemma read_int32 [codec_simps]:
  assumes "-2147483648 \<le> v" and "v < 2147483648"
  shows "r_int32 (u32_be (word_of_int v) @ buf) = Some (v, buf)"
  using assms by (simp add: r_int32_def signed_of_int signed_take_bit_int_eq_self)

lemma read_int64 [codec_simps]:
  assumes "-9223372036854775808 \<le> v" and "v < 9223372036854775808"
  shows "r_int64 (u64_be (word_of_int v) @ buf) = Some (v, buf)"
  using assms by (simp add: r_int64_def signed_of_int signed_take_bit_int_eq_self)

lemma read_bigint [codec_simps]:
  assumes "0 \<le> s" and "length (nat_bytes (nat s)) \<le> 1073741824"
  shows "deserializeBigInt (serializeBigInt s @ buf) = Some (s, buf)"
  using assms by (simp add: deserializeBigInt_def serializeBigInt_def read_bytes bytes_nat_bytes)

lemma read_ints [codec_simps]:
  assumes "length xs < 4294967296" and "\<forall>x \<in> set xs. -2147483648 \<le> x \<and> x < 2147483648"
  shows "deserializeIntSlice (serializeIntSlice xs @ buf) = Some (xs, buf)"
proof -
  have "r_repeat r_int32 (length xs) (concat (map (\<lambda>v. u32_be (word_of_int v)) xs) @ buf) = Some (xs, buf)"
    using assms(2) by (induction xs) (simp_all add: read_int32)
  moreover have "unat (of_nat (length xs) :: u32) = length xs"
    using assms(1) by (simp add: unsigned_of_nat take_bit_nat_eq_self)
  ultimately show ?thesis by (simp add: deserializeIntSlice_def serializeIntSlice_def r_list_def)
qed

text \<open>What the fields of the format can hold, and what becomes of a nil value.\<close>

definition storable :: "VectorCommitmentNode \<Rightarrow> bool" where
  "storable n = (case n of
     LeafNode k v h c s \<Rightarrow> length k \<le> 1073741824 \<and> (\<forall>x. v = Some x \<longrightarrow> length x \<le> 1073741824) \<and>
       length h \<le> 1073741824 \<and> length c \<le> 1073741824 \<and> 0 \<le> s \<and> length (nat_bytes (nat s)) \<le> 1073741824
   | BranchNode pre cs c s count longest \<Rightarrow> length pre < 4294967296 \<and>
       (\<forall>x \<in> set pre. -2147483648 \<le> x \<and> x < 2147483648) \<and> length cs = BranchNodes \<and> length c \<le> 1073741824 \<and>
       0 \<le> s \<and> length (nat_bytes (nat s)) \<le> 1073741824 \<and> -9223372036854775808 \<le> count \<and>
       count < 9223372036854775808 \<and> -2147483648 \<le> longest \<and> longest < 2147483648)"

primrec stored :: "VectorCommitmentNode \<Rightarrow> VectorCommitmentNode" where
  "stored (LeafNode k v h c s) = LeafNode k (Some (case v of None \<Rightarrow> [] | Some v \<Rightarrow> v)) h c s"
| "stored (BranchNode pre cs c s count longest) = BranchNode pre (map (map_option stored) cs) c s count longest"

lemma read_node:
  assumes "\<And>n. x = Some n \<Longrightarrow> every storable n"
  shows "deserialize_nodes (Suc m) (serializeNonLazyNode x @ buf) = do {
     r \<leftarrow> deserialize_nodes m buf;
     Some (map_option (\<lambda>(xs, buf). (map_option stored x # xs, buf)) r)
   }"
  using assms
proof (induction x arbitrary: m buf rule: serializeNonLazyNode.induct)
  case 1
  then show ?case by (simp add: des_nil)
next
  case (2 k v h c s)
  have "storable (LeafNode k v h c s)" using 2 every_here by blast
  then have "DeserializeNonLazyLeafNode (SerializeNonLazyLeafNode (LeafNode k v h c s) @ buf) =
      Some (stored (LeafNode k v h c s), buf)"
    by (cases v) (simp_all add: storable_def DeserializeNonLazyLeafNode_def codec_simps)
  then show ?case by (simp add: des_leaf del: SerializeNonLazyLeafNode.simps stored.simps)
next
  case (3 pre cs c s count longest)
  let ?n = "BranchNode pre cs c s count longest"
  have st: "storable ?n" using 3(2) [OF refl] by (rule every_here)
  have children: "deserialize_nodes (length ys) (concat (map serializeNonLazyNode ys) @ b) = Some (Some (map (map_option stored) ys, b))"
    if "set ys \<subseteq> set cs" for ys b
    using that
  proof (induction ys)
    case Nil
    then show ?case by (simp add: des_zero)
  next
    case (Cons y ys)
    have "every storable n" if "y = Some n" for n
      using that Cons.prems 3(2) [OF refl] by (auto simp: every_branch)
    then show ?case using 3(1) [of y "length ys"] Cons by simp
  qed
  let ?tail = "serializeBytes c @ serializeBigInt s @ u64_be (word_of_int count) @ u32_be (word_of_int longest) @ buf"
  have "branch_tail ?tail = Some ((c, s, count, longest), buf)"
    using st by (simp add: storable_def branch_tail_def codec_simps)
  moreover have "deserialize_nodes BranchNodes (concat (map serializeNonLazyNode cs) @ ?tail) =
      Some (Some (map (map_option stored) cs, ?tail))"
    using children [of cs ?tail] st by (simp add: storable_def)
  moreover have "deserializeIntSlice (serializeIntSlice pre @ concat (map serializeNonLazyNode cs) @ ?tail) =
      Some (pre, concat (map serializeNonLazyNode cs) @ ?tail)"
    using st by (intro read_ints) (simp_all add: storable_def)
  ultimately show ?case by (simp add: des_branch)
qed

text \<open>Claim C18.  Deserialising the bytes of a tree gives the tree back, with caches and totals, if its
  fields are within what the format can hold; only a nil value comes back as an empty one.\<close>
theorem tree_serialization_roundtrip:
  assumes "\<forall>n. Root t = Some n \<longrightarrow> every storable n"
  shows "DeserializeNonLazyTree (SerializeNonLazyTree t @ trailing) = Some (Some (t\<lparr>Root := map_option stored (Root t)\<rparr>))"
  using read_node [of "Root t" 0 trailing] assms
  by (simp add: DeserializeNonLazyTree_def SerializeNonLazyTree_def des_zero)

theorem tree_serialization_roundtrip_witness:
  "let leaf = LeafNode [1] None [] [] 5; leaf' = LeafNode [250, 3] (Some [7, 7]) [8] [] 300;
       t = \<lparr>Root = Some (BranchNode [] (two_children 0 leaf 62 leaf') [4] 305 2 1)\<rparr>;
       back = \<lparr>Root = Some (BranchNode [] (two_children 0 (LeafNode [1] (Some []) [] [] 5) 62 leaf') [4] 305 2 1)\<rparr>
   in (\<forall>n. Root t = Some n \<longrightarrow> every storable n) \<and>
      DeserializeNonLazyTree (SerializeNonLazyTree t @ [1, 2]) = Some (Some back)"
proof -
  let ?leaf = "LeafNode [1] None [] [] 5" and ?leaf' = "LeafNode [250, 3] (Some [7, 7]) [8] [] 300"
  let ?root = "BranchNode [] (two_children 0 ?leaf 62 ?leaf') [4] 305 2 1"
  have sizes: "nat_bytes 5 = [5]" "nat_bytes 300 = [1, 44]" "nat_bytes 305 = [1, 49]" by code_simp+
  have leaves: "every storable ?leaf" "every storable ?leaf'"
    by (simp_all add: storable_def sizes)
  have "every storable ?root"
  proof (rule every.branch)
    show "storable ?root" by (simp add: storable_def sizes two_children_def BranchNodes_def)
    show "every storable n" if "Some n \<in> set (two_children 0 ?leaf 62 ?leaf')" for n
      using two_children_nodes [OF that] leaves by blast
  qed
  then have all: "\<forall>n. Root \<lparr>Root = Some ?root\<rparr> = Some n \<longrightarrow> every storable n" by simp
  have "map (map_option stored) (two_children 0 ?leaf 62 ?leaf') =
      two_children 0 (LeafNode [1] (Some []) [] [] 5) 62 ?leaf'"
    by (simp add: two_children_def no_children_def map_update)
  with tree_serialization_roundtrip [OF all, of "[1, 2]"] all show ?thesis unfolding Let_def by simp
qed

text \<open>Claim C32.  Deserialisation returns on every input, be it with an error.\<close>
theorem tree_deserialization_returns: "DeserializeNonLazyTree data \<noteq> None"
  using deserialize_returns [of 1 data]
  by (cases rule: des_okE) (simp_all add: DeserializeNonLazyTree_def)

text \<open>The sign of a size is not written, so the negative totals that resizing a key leaves come back positive.\<close>

lemma negative_size_loses_sign:
  "deserializeBigInt (serializeBigInt (-2) @ buf) = Some (2, buf)"
  using read_bigint [of 2 buf] by (simp add: serializeBigInt_def nat_bytes.simps)

section \<open>Reading back a proof\<close>

lemma w_subproof_nonempty: "TraversalSubProof_ToBytes sp = Inr b \<Longrightarrow> b \<noteq> []"
  by (auto simp: TraversalSubProof_ToBytes_def w_list_def codec_simps)

lemma read_paths:
  assumes "w_list (w_list w_u64) ps = Inr bs" and "fits bs"
  shows "r_list (r_list be_u64) (bs @ buf) = Some (ps, buf)"
proof -
  have "r_list (r_list be_u64) (bs @ buf) = Some (map (\<lambda>x. x) ps, buf)"
  proof (rule r_list_written [OF _ _ assms])
    show "r_list be_u64 (b @ buf) = Some (x, buf)" if "w_list w_u64 x = Inr b" "fits b" for x b buf
      using r_list_u64_written [OF that] .
    show "b \<noteq> []" if "w_list w_u64 x = Inr b" for x b
      using that by (auto simp: w_list_def codec_simps)
  qed
  then show ?thesis by simp
qed

lemma read_subproof:
  assumes "TraversalSubProof_ToBytes sp = Inr b" and "fits b"
  shows "TraversalSubProof_FromBytes (b @ buf) = Some (sp, buf)"
proof -
  from assms(1) obtain b1 b2 b3 where b: "w_list w_bytes (Commits sp) = Inr b1" "w_list w_bytes (Ys sp) = Inr b2"
    "w_list (w_list w_u64) (Paths sp) = Inr b3" "b = b1 @ b2 @ b3"
    by (auto simp: TraversalSubProof_ToBytes_def writes_Inr)
  then show ?thesis using assms(2)
    by (simp add: TraversalSubProof_FromBytes_def r_list_bytes_written read_paths)
qed

text \<open>A proof with at least one evaluation survives encoding and decoding, if the multiproof does.\<close>

lemma traversal_proof_roundtrip:
  assumes "TraversalProof_ToBytes mp_enc t = Inr bs" and "fits bs"
    and "\<And>b. mp_enc (Multiproof t) = Inr b \<Longrightarrow> mp_dec b = Some (Multiproof t)"
    and "\<not> list_all (\<lambda>sp. Ys sp = []) (SubProofs t)"
  shows "TraversalProof_FromBytes mp_dec bs = Some t"
proof -
  from assms(1) obtain b b1 b2 where b: "mp_enc (Multiproof t) = Inr b" "b1 = u32_be (of_nat (length b)) @ b"
    "w_list TraversalSubProof_ToBytes (SubProofs t) = Inr b2" "bs = b1 @ b2"
    by (auto simp: TraversalProof_ToBytes_def codec_simps split: sum.splits)
  have "r_list TraversalSubProof_FromBytes (b2 @ []) = Some (map (\<lambda>x. x) (SubProofs t), [])"
    by (rule r_list_written [where w = TraversalSubProof_ToBytes])
      (use b assms(2) w_subproof_nonempty in \<open>auto simp: read_subproof\<close>)
  moreover have "r_bytes bs = Some (b, b2)" using b(2,4) assms(2) by (simp add: r_written)
  moreover have "SubProofs t \<noteq> []" using assms(4) by auto
  ultimately show ?thesis using assms(3) [OF b(1)] assms(4)
    by (simp add: TraversalProof_FromBytes_def)
qed

end
