(* ===== verification/Spec2Isabelle.thy ===== *)
theory Spec2Isabelle
  imports Prelude Difficulty Fee_Manager Consensus_Machine Critbit_Trie Frecency_Trie Min_Heap
    Fork_Choice Canonical_Types Canonical_Codec Key_Messages Prover_Messages Hypergraph_Messages
    Token_Messages Compute_Messages Frame_Messages Global_Time_Reel
    Global_Reel_Safety Global_Reel_Pruning Global_Reel_Insert Global_Reel_Guarantees
    Partial_Store Vector_Tree Vector_Tree_Shape Vector_Tree_Map Vector_Tree_Totals Vector_Tree_Commit
    Vector_Tree_Guarantees Vector_Proofs Vector_Proof_Guarantees Vector_Codec
begin

text \<open>
  A verification of the deterministic core of a Quilibrium node: how provers agree on a chain of
  frames, what they put on the wire, and the data structures both rest on.  Everything below is a
  translation of Go code under \<^verbatim>\<open>src/\<close>; definitions keep the names of the functions and types they
  model.

  \<^bold>\<open>The program.\<close>  A node runs a consensus state machine per chain (\<^verbatim>\<open>consensus/state_machine.go\<close>).
  It collects proposals and votes, and asks providers whether a quorum is reached.  Finalised frames
  go into a time reel (\<^verbatim>\<open>node/consensus/time\<close>), a tree of frames from which a fork choice rule picks
  the head.  The difficulty adjuster and the fee manager (\<^verbatim>\<open>node/consensus/difficulty\<close>,
  \<^verbatim>\<open>node/consensus/fees\<close>) derive the parameters of the next frame from the recent ones.  Frames,
  requests and keys travel in a canonical byte encoding (\<^verbatim>\<open>protobufs\<close>).  Peers and entries are kept in
  crit-bit trees, a frecency trie and a heap (\<^verbatim>\<open>types/tries\<close>).  The data of a shard is committed to
  by a 64-ary vector commitment tree (\<^verbatim>\<open>proof_tree.go\<close>), whose traversal proofs other nodes check.

  \<^bold>\<open>Theories and sources.\<close>
  \<^item> \<open>Prelude\<close>: machine types, Go's truncating division, list and word lemmas, and the locale
    \<open>op_system\<close> for invariants over sequences of operations.
  \<^item> \<open>Difficulty\<close>: \<^verbatim>\<open>aserti3_2d_difficulty_adjuster.go\<close> on 64-bit words.
  \<^item> \<open>Fee_Manager\<close>: \<^verbatim>\<open>dynamic_fee_manager.go\<close>; the state is the map from filters to vote windows.
  \<^item> \<open>Consensus_Machine\<close>: \<^verbatim>\<open>state_machine.go\<close>; one record for the machine, one definition per
    behaviour and message handler, and an inductive step relation for timers, messages and events.
  \<^item> \<open>Kv_Store\<close>, \<open>Critbit_Trie\<close>, \<open>Frecency_Trie\<close>: the map contract as a locale, its
    implementation by \<^verbatim>\<open>critbit_trie.go\<close>, and its client
    \<^verbatim>\<open>rolling_frecency_critbit_trie.go\<close> with \<^verbatim>\<open>utils/math.go\<close>.
  \<^item> \<open>Partial_Store\<close>, \<open>Vector_Tree\<close>, \<open>Vector_Tree_Shape\<close>, \<open>Vector_Tree_Map\<close>, \<open>Vector_Tree_Totals\<close>,
    \<open>Vector_Tree_Commit\<close>, \<open>Vector_Tree_Guarantees\<close>: the map contract for stores that can fail, and the
    in-memory tree of \<^verbatim>\<open>proof_tree.go\<close> with insertion, lookup, deletion, totals and commitments.
  \<^item> \<open>Vector_Proofs\<close>, \<open>Vector_Proof_Guarantees\<close>, \<open>Vector_Codec\<close>: traversal proofs and their verification,
    and the serialisation of trees and proofs.
  \<^item> \<open>Min_Heap\<close>: \<^verbatim>\<open>minheap.go\<close>, an array and an index map.
  \<^item> \<open>Fork_Choice\<close>: \<^verbatim>\<open>fork_choice.go\<close>, integer scores with divisions that may panic.
  \<^item> \<open>Global_Time_Reel\<close>, \<open>Global_Reel_Safety\<close>, \<open>Global_Reel_Pruning\<close>, \<open>Global_Reel_Insert\<close>,
    \<open>Global_Reel_Guarantees\<close>: \<^verbatim>\<open>global_time_reel.go\<close> with \<^verbatim>\<open>utils.go\<close>; a store of nodes by identifier
    stands for the pointers between frame nodes.
  \<^item> \<open>Canonical_Types\<close>, \<open>Canonical_Codec\<close>: the type prefixes, and Go's \<^verbatim>\<open>bytes.Buffer\<close> and
    \<^verbatim>\<open>binary.Read\<close> with the codec combinators the messages use.
  \<^item> \<open>Key_Messages\<close>, \<open>Prover_Messages\<close>, \<open>Hypergraph_Messages\<close>, \<open>Token_Messages\<close>,
    \<open>Compute_Messages\<close>, \<open>Frame_Messages\<close>: \<^verbatim>\<open>keys.go\<close>, \<^verbatim>\<open>global.go\<close>, \<^verbatim>\<open>hypergraph.go\<close>, \<^verbatim>\<open>token.go\<close>,
    \<^verbatim>\<open>compute.go\<close>; per message a record, \<^verbatim>\<open>ToCanonicalBytes\<close>, \<^verbatim>\<open>FromCanonicalBytes\<close> and
    \<^verbatim>\<open>Validate\<close>.

  \<^bold>\<open>Correspondence.\<close>  A struct is a record and a pointer that may be nil an option.  A \<^verbatim>\<open>uint64\<close> is a
  64-bit word, so arithmetic wraps as in Go; an \<^verbatim>\<open>int\<close> that only counts elements is an integer.
  A function that can fail returns \<open>fault + 'a\<close>, where the fault tells an error from a panic, or an
  option where only one of the two can occur.  Maps are functions into option or association lists
  where the order of iteration reaches the result; that order is then a parameter.  Methods that take
  a mutex for their whole body are atomic; the consensus machine, which hands its mutex between
  behaviours, models it as a field.  Hashes, signatures and quorum providers are parameters.

  \<^bold>\<open>What is shown.\<close>
  \<^item> Consensus machine: a running machine always has something to do next; recorded votes are final;
    the quorum event is only raised on a confirmed quorum; where the active state comes from; and a
    schedule on which a stale proof event leaves the mutex locked for good.
  \<^item> Time reel: insertion returns on every reachable reel, the head is a deepest node, lineages are
    hash-linked and bounded, equivocating signers stay recorded, the tree spans at most 360 levels;
    the store misses frames in two situations that are exhibited.
  \<^item> Fork choice: the winner is within the margin of the best score and sticky, and scores are
    monotone.
  \<^item> Messages: round trips of requests, frames and registries, injectivity of frame bytes, decoded
    frames encode again, and the inputs on which validation, encoding and truncation disagree.
  \<^item> Difficulty and fees: refinement of an integer rule with its range of validity, monotonicity, and
    the invariant of the vote windows.
  \<^item> Tries and heap: refinement of finite maps, ordered walks, nearest neighbours, least elements.
  \<^item> Vector commitment tree: it is a finite map on keys none of which is a prefix of another; the root
    commitment depends on the content alone, not on the history; generated proofs verify; trees survive
    serialisation.  The verifier leaves the claimed value unchecked, accepts proofs of depth one without
    the prover, and the running sizes go stale on updates.

  \<^bold>\<open>Bounds and termination.\<close>  No result depends on fuel.  Loops along parent pointers, which Go would
  follow for ever on a cyclic structure, and the loops that find where two keys
  part and that read a serialised tree are \<^verbatim>\<open>partial_function (option)\<close>; that they return on every reachable state or input is part of the
  theorems.  All other recursions carry a termination proof.

  \<^bold>\<open>Not modelled.\<close>  Networking, storage, RPC and the process around the core are I/O.  The
  cryptographic crates and their bindings, the vendored copies of libp2p, Pebble and nekryptology, the
  circuit compiler and generated protocol buffer code are libraries here.  The execution intrinsics,
  the consensus engines and the hypergraph are built directly on these.  The lazy variant of the
  vector commitment tree (\<^verbatim>\<open>lazy_proof_tree.go\<close>) fetches its nodes from the database; of that file only
  the encodings it shares with the tree in memory are modelled.  Goroutine scheduling is
  modelled only where the code communicates through channels and a mutex it does not hold throughout.
\<close>

end
